(* ===== verification/Prelude.thy ===== *)
theory Prelude
  imports Main "HOL-Library.Word"
begin

text \<open>
  Shared vocabulary of the EfesOS development: the C integer types as words, facts on bit
  masks and on little-endian byte access, C strings as byte lists, and small facts on list
  updates and array scans that several components use.
\<close>

unbundle bit_operations_syntax

section \<open>Machine integers\<close>

type_synonym u8 = "8 word"
type_synonym u16 = "16 word"
type_synonym u32 = "32 word"
type_synonym u64 = "64 word"
type_synonym bytes = "8 word list"

named_theorems mask_simps \<open>facts that turn bit masks into statements on single bits\<close>
named_theorems le_simps \<open>reads after little-endian writes\<close>

text \<open>The simplifier writes \<open>1U << n\<close>, that is \<open>push_bit n 1\<close>, as \<open>2 ^ n\<close>.\<close>

lemma bit_set_mask [mask_simps]:
  "n < LENGTH('a) \<Longrightarrow> bit (w OR (2 ^ n :: 'a::len word)) m \<longleftrightarrow> bit w m \<or> m = n"
  by (auto simp: bit_simps)

lemma bit_clear_mask [mask_simps]:
  "n < LENGTH('a) \<Longrightarrow>
   bit (w AND NOT (2 ^ n :: 'a::len word)) m \<longleftrightarrow> bit w m \<and> m \<noteq> n"
  by (auto simp: bit_simps dest: bit_imp_le_length)

lemma test_mask [mask_simps]:
  "w AND (2 ^ n :: 'a::len word) = 0 \<longleftrightarrow> \<not> bit w n"
proof -
  have "w AND (2 ^ n :: 'a word) = 0 \<longleftrightarrow> (\<forall>m. \<not> bit (w AND (2 ^ n :: 'a word)) m)"
    by (auto intro: bit_word_eqI)
  also have "\<dots> \<longleftrightarrow> \<not> bit w n"
    by (auto simp: bit_simps dest: bit_imp_le_length)
  finally show ?thesis .
qed

text \<open>\<open>address & (PAGE_SIZE - 1)\<close>: the offset inside a page.\<close>

lemma and_4095: "(a :: 'a::len word) AND 4095 = take_bit 12 a"
  by (simp add: take_bit_eq_mask mask_eq_exp_minus_1)

lemma page_offset_zero: "(a :: u32) AND 4095 = 0 \<longleftrightarrow> 4096 dvd unat a"
proof -
  have "unat (a AND 4095) = unat a mod 4096"
    by (simp add: and_4095 take_bit_eq_mod unat_mod_distrib)
  then show ?thesis by (metis dvd_eq_mod_eq_0 unat_0 unat_eq_zero)
qed

section \<open>Little-endian access\<close>

text \<open>
  The readers and writers the parsers share: \<open>read_u16\<close>, \<open>read_u32\<close>, \<open>write_u16\<close> and
  \<open>write_u32\<close> of \<open>fs/journal.c\<close>, \<open>fs/fat.c\<close>, \<open>process/elf_loader.c\<close> and
  \<open>drivers/acpi_tables.c\<close> are textually the same up to the result type.
\<close>

definition le16 :: "bytes \<Rightarrow> nat \<Rightarrow> u32" where
  "le16 data off = ucast (data ! off) OR push_bit 8 (ucast (data ! (off + 1)))"

definition le32 :: "bytes \<Rightarrow> nat \<Rightarrow> u32" where
  "le32 data off = ucast (data ! off) OR push_bit 8 (ucast (data ! (off + 1))) OR
     push_bit 16 (ucast (data ! (off + 2))) OR push_bit 24 (ucast (data ! (off + 3)))"

definition put16 :: "bytes \<Rightarrow> nat \<Rightarrow> u32 \<Rightarrow> bytes" where
  "put16 data off v =
     data[off := ucast (v AND 0xFF), off + 1 := ucast (drop_bit 8 v AND 0xFF)]"

definition put32 :: "bytes \<Rightarrow> nat \<Rightarrow> u32 \<Rightarrow> bytes" where
  "put32 data off v = put16 (put16 data off (v AND 0xFFFF)) (off + 2) (drop_bit 16 v)"

lemma length_put16 [simp]: "length (put16 d i v) = length d"
  by (simp add: put16_def)

lemma length_put32 [simp]: "length (put32 d i v) = length d"
  by (simp add: put32_def)

lemma nth_put16:
  "i + 1 < length d \<Longrightarrow> put16 d i v ! j =
     (if j = i then ucast (v AND 0xFF) else if j = i + 1 then ucast (drop_bit 8 v AND 0xFF)
      else d ! j)"
  by (auto simp: put16_def nth_list_update)

text \<open>\<open>bit_simps\<close> reads a numeral mask on \<open>int\<close>.\<close>

lemma bit_ff [mask_simps]: "bit (0xFF :: int) n \<longleftrightarrow> n < 8"
proof -
  have "bit (0xFF :: int) n \<longleftrightarrow> bit (mask 8 :: int) n"
    by (simp add: mask_eq_exp_minus_1)
  then show ?thesis by (simp only: bit_mask_iff possible_bit_int) auto
qed

lemma bit_ffff [mask_simps]: "bit (0xFFFF :: int) n \<longleftrightarrow> n < 16"
proof -
  have "bit (0xFFFF :: int) n \<longleftrightarrow> bit (mask 16 :: int) n"
    by (simp add: mask_eq_exp_minus_1)
  then show ?thesis by (simp only: bit_mask_iff possible_bit_int) auto
qed

lemma ucast_and_ff [simp]: "(ucast ((v :: u32) AND 0xFF) :: u8) = ucast v"
  by (rule bit_word_eqI) (simp add: bit_simps mask_simps)

lemma ucast_and_ffff [simp]: "(ucast ((v :: u32) AND 0xFFFF) :: u8) = ucast v"
  by (rule bit_word_eqI) (simp add: bit_simps mask_simps)

lemma ucast_drop_and_ffff [simp]:
  "(ucast (drop_bit 8 ((v :: u32) AND 0xFFFF)) :: u8) = ucast (drop_bit 8 v)"
  by (rule bit_word_eqI) (simp add: bit_simps mask_simps)

lemma nth_put32:
  "i + 3 < length d \<Longrightarrow> put32 d i v ! j =
     (if j = i then ucast v else if j = i + 1 then ucast (drop_bit 8 v)
      else if j = i + 2 then ucast (drop_bit 16 v)
      else if j = i + 3 then ucast (drop_bit 24 v) else d ! j)"
  by (simp add: put32_def nth_put16)

lemma bytes_of_u32:
  "(ucast (ucast (v :: u32) :: u8) :: u32) OR push_bit 8 (ucast (ucast (drop_bit 8 v) :: u8)) OR
     push_bit 16 (ucast (ucast (drop_bit 16 v) :: u8)) OR
     push_bit 24 (ucast (ucast (drop_bit 24 v) :: u8)) = v"
proof (rule bit_word_eqI)
  fix n
  show "bit ((ucast (ucast v :: u8) :: u32) OR push_bit 8 (ucast (ucast (drop_bit 8 v) :: u8)) OR
      push_bit 16 (ucast (ucast (drop_bit 16 v) :: u8)) OR
      push_bit 24 (ucast (ucast (drop_bit 24 v) :: u8))) n \<longleftrightarrow> bit v n" if "n < LENGTH(32)"
    using that by (cases "n < 16"; cases "n < 24") (auto simp: bit_simps)
qed

lemma le32_put32_same [le_simps]: "i + 3 < length d \<Longrightarrow> le32 (put32 d i v) i = v"
  by (simp add: le32_def nth_put32 bytes_of_u32)

lemma bytes_of_u16:
  assumes "unat (v :: u32) < 65536"
  shows "(ucast (ucast v :: u8) :: u32) OR push_bit 8 (ucast (ucast (drop_bit 8 v) :: u8)) = v"
proof -
  have "unat v = unat (take_bit 16 v)"
    using assms by (simp add: take_bit_eq_mod unat_mod_distrib)
  then have v: "take_bit 16 v = v" by (simp only: word_unat_eq_iff)
  have "(ucast (ucast v :: u8) :: u32) OR push_bit 8 (ucast (ucast (drop_bit 8 v) :: u8))
      = take_bit 16 v"
    by (rule bit_word_eqI) (auto simp: bit_simps)
  then show ?thesis by (simp only: v)
qed

lemma le16_put16_same [le_simps]:
  "i + 1 < length d \<Longrightarrow> unat v < 65536 \<Longrightarrow> le16 (put16 d i v) i = v"
  by (simp add: le16_def nth_put16 bytes_of_u16)

text \<open>Reads at other offsets do not see a write.\<close>

lemma le_put_other [le_simps]:
  "i + 3 < length d \<Longrightarrow> j + 3 < i \<or> i + 3 < j \<Longrightarrow> le32 (put32 d i v) j = le32 d j"
  "i + 1 < length d \<Longrightarrow> j + 3 < i \<or> i + 1 < j \<Longrightarrow> le32 (put16 d i v) j = le32 d j"
  "i + 3 < length d \<Longrightarrow> j + 1 < i \<or> i + 3 < j \<Longrightarrow> le16 (put32 d i v) j = le16 d j"
  "i + 1 < length d \<Longrightarrow> j + 1 < i \<or> i + 1 < j \<Longrightarrow> le16 (put16 d i v) j = le16 d j"
  by (auto simp: le32_def le16_def nth_put32 nth_put16)

text \<open>The bytes of a value that was read.\<close>

lemma u8_bit_bound: "bit (b::u8) n \<Longrightarrow> n < 8"
  using bit_imp_le_length [of b n] by simp

lemma byte_of_le32:
  "ucast (le32 d i) = d ! i" "ucast (drop_bit 8 (le32 d i)) = d ! (i + 1)"
  "ucast (drop_bit 16 (le32 d i)) = d ! (i + 2)" "ucast (drop_bit 24 (le32 d i)) = d ! (i + 3)"
  by (rule bit_word_eqI; auto simp: le32_def bit_simps dest: u8_bit_bound)+

lemma byte_of_le16:
  "ucast (le16 d i) = d ! i" "ucast (drop_bit 8 (le16 d i)) = d ! (i + 1)"
  by (rule bit_word_eqI; auto simp: le16_def bit_simps dest: u8_bit_bound)+

lemma le16_bound: "unat (le16 d i) < 65536"
proof -
  have "le16 d i = take_bit 16 (le16 d i)"
    by (rule bit_word_eqI) (auto simp: le16_def bit_simps dest: u8_bit_bound)
  then have "unat (le16 d i) = unat (take_bit 16 (le16 d i))" by (rule arg_cong)
  also have "\<dots> = unat (le16 d i) mod 65536" by (simp add: take_bit_eq_mod unat_mod_distrib)
  finally show ?thesis by (metis mod_less_divisor zero_less_numeral)
qed

text \<open>Copying a run of bytes into a buffer.\<close>

definition copy_into :: "bytes \<Rightarrow> nat \<Rightarrow> bytes \<Rightarrow> bytes" where
  "copy_into d i ys = take i d @ ys @ drop (i + length ys) d"

lemma length_copy_into [simp]: "i + length ys \<le> length d \<Longrightarrow> length (copy_into d i ys) = length d"
  by (simp add: copy_into_def)

lemma nth_copy_into:
  "i + length ys \<le> length d \<Longrightarrow> j < length d \<Longrightarrow> copy_into d i ys ! j =
     (if i \<le> j \<and> j < i + length ys then ys ! (j - i) else d ! j)"
  by (auto simp: copy_into_def nth_append min_def)

lemma le_copy_other [le_simps]:
  "i + length ys \<le> length d \<Longrightarrow> j + 3 < length d \<Longrightarrow> j + 3 < i \<or> i + length ys \<le> j \<Longrightarrow>
   le32 (copy_into d i ys) j = le32 d j"
  "i + length ys \<le> length d \<Longrightarrow> j + 1 < length d \<Longrightarrow> j + 1 < i \<or> i + length ys \<le> j \<Longrightarrow>
   le16 (copy_into d i ys) j = le16 d j"
  by (auto simp: le32_def le16_def nth_copy_into)

section \<open>C strings\<close>

text \<open>
  A pointer to a terminated string is the list of bytes it points to; reading beyond the list
  gives the terminator. \<open>bounded_length\<close> of \<open>fs/journal.c\<close> and \<open>string_length\<close> of \<open>fs/ramfs.c\<close>
  are the same loop.
\<close>

definition bounded_length :: "bytes option \<Rightarrow> nat \<Rightarrow> nat" where
  "bounded_length value limit =
     (case value of None \<Rightarrow> limit
      | Some s \<Rightarrow> length (takeWhile (\<lambda>c. c \<noteq> 0) (take limit s)))"

definition cstring :: "bytes \<Rightarrow> bytes" where
  "cstring s = takeWhile (\<lambda>c. c \<noteq> 0) s"

lemma takeWhile_take: "takeWhile P (take n xs) = take n (takeWhile P xs)"
proof (induction xs arbitrary: n)
  case (Cons x xs)
  then show ?case by (cases n) auto
qed simp

lemma take_cstring: "take (length (cstring s)) s = cstring s"
  by (simp only: cstring_def takeWhile_eq_take [symmetric])

lemma bounded_length_eq: "bounded_length (Some s) limit = min limit (length (cstring s))"
  by (simp add: bounded_length_def cstring_def takeWhile_take min.commute)

section \<open>Unsigned sums that do not wrap\<close>

text \<open>The idiom \<open>end < base\<close> of the C code detects exactly the sums that wrap.\<close>

lemma wrap_iff:
  fixes a b :: "'a::len word"
  shows "a + b < a \<longleftrightarrow> 2 ^ LENGTH('a) \<le> unat a + unat b"
proof -
  have a: "unat a < 2 ^ LENGTH('a)" and b: "unat b < 2 ^ LENGTH('a)"
    using unsigned_less by auto
  show ?thesis
  proof (cases "unat a + unat b < 2 ^ LENGTH('a)")
    case True
    then show ?thesis by (simp add: word_less_nat_alt unat_word_ariths(1))
  next
    case False
    then have "(unat a + unat b) mod 2 ^ LENGTH('a) = unat a + unat b - 2 ^ LENGTH('a)"
      using a b le_mod_geq [of "2 ^ LENGTH('a)" "unat a + unat b"]
        mod_less [of "unat a + unat b - 2 ^ LENGTH('a)" "2 ^ LENGTH('a)"] by linarith
    moreover have "unat a + unat b - 2 ^ LENGTH('a) < unat a" using False b by linarith
    ultimately show ?thesis using False by (simp add: word_less_nat_alt unat_word_ariths(1))
  qed
qed

lemma unat_sum:
  fixes a b :: "'a::len word"
  shows "unat a + unat b < 2 ^ LENGTH('a) \<Longrightarrow> unat (a + b) = unat a + unat b"
  by (simp add: unat_word_ariths(1))

lemma no_wrap_sum:
  fixes a b :: "'a::len word"
  shows "\<not> a + b < a \<Longrightarrow> unat (a + b) = unat a + unat b"
  by (simp add: wrap_iff unat_sum)

lemma unat_diff:
  fixes a b :: "'a::len word"
  shows "b \<le> a \<Longrightarrow> unat (a - b) = unat a - unat b"
  by (simp add: unat_sub)

lemma unat_ucast_u64: "unat (ucast (w::u32) :: u64) = unat w"
  using unsigned_less [of w, where 'a = nat] by (simp add: unsigned_ucast_eq take_bit_eq_mod)

section \<open>Bitmaps of 32-bit words\<close>

text \<open>
  The kernel keeps sets of small indices as arrays of 32-bit words. The three operations below
  are the word expressions the sources use: test, set and clear one bit.
\<close>

definition bitmap_test :: "(nat \<Rightarrow> u32) \<Rightarrow> nat \<Rightarrow> bool" where
  "bitmap_test m b \<longleftrightarrow> m (b div 32) AND push_bit (b mod 32) 1 \<noteq> 0"

definition bitmap_set :: "(nat \<Rightarrow> u32) \<Rightarrow> nat \<Rightarrow> (nat \<Rightarrow> u32)" where
  "bitmap_set m b = m(b div 32 := m (b div 32) OR push_bit (b mod 32) 1)"

definition bitmap_clear :: "(nat \<Rightarrow> u32) \<Rightarrow> nat \<Rightarrow> (nat \<Rightarrow> u32)" where
  "bitmap_clear m b = m(b div 32 := m (b div 32) AND NOT (push_bit (b mod 32) 1))"

lemma index_split: "(b::nat) div 32 = c div 32 \<and> b mod 32 = c mod 32 \<longleftrightarrow> b = c"
  by (metis mult_div_mod_eq)

lemma bitmap_test_bit: "bitmap_test m b \<longleftrightarrow> bit (m (b div 32)) (b mod 32)"
  by (simp add: bitmap_test_def test_mask)

lemma bitmap_test_set [simp]: "bitmap_test (bitmap_set m b) c \<longleftrightarrow> c = b \<or> bitmap_test m c"
  using index_split [of c b]
  by (auto simp: bitmap_test_bit bitmap_set_def bit_set_mask)

lemma bitmap_test_clear [simp]: "bitmap_test (bitmap_clear m b) c \<longleftrightarrow> c \<noteq> b \<and> bitmap_test m c"
  using index_split [of c b]
  by (auto simp: bitmap_test_bit bitmap_clear_def bit_clear_mask)

lemma bit_all_ones: "n < 32 \<Longrightarrow> bit (0xFFFFFFFF::u32) n"
proof -
  have "(0xFFFFFFFF::u32) = - 1" by simp
  then show "n < 32 \<Longrightarrow> bit (0xFFFFFFFF::u32) n" by (simp only: bit_minus_1_iff) simp
qed

lemma bitmap_test_const [simp]:
  "bitmap_test (\<lambda>_. 0) b = False" "bitmap_test (\<lambda>_. 0xFFFFFFFF) b = True"
  using bit_all_ones [of "b mod 32"] by (auto simp: bitmap_test_bit)

section \<open>Counters\<close>

lemma unat_inc: "unat (w::u32) + 1 < 2 ^ 32 \<Longrightarrow> unat (w + 1) = Suc (unat w)"
  using unat_sum [of w 1] by simp

lemma unat_dec: "0 < unat (w::u32) \<Longrightarrow> unat (w - 1) = unat w - 1"
  by (rule unat_minus_one) auto

section \<open>Linear scans\<close>

text \<open>A scan \<open>for (i = a; i < b; i++) if (P(i)) return i\<close> is \<open>find P [a ..< b]\<close>.\<close>

lemma find_upt_None: "find P [a ..< b] = None \<longleftrightarrow> (\<forall>i. a \<le> i \<and> i < b \<longrightarrow> \<not> P i)"
  by (auto simp: find_None_iff)

lemma find_upt_Some:
  "find P [a ..< b] = Some i \<longleftrightarrow> a \<le> i \<and> i < b \<and> P i \<and> (\<forall>j. a \<le> j \<and> j < i \<longrightarrow> \<not> P j)"
proof
  assume "find P [a ..< b] = Some i"
  then obtain k where k: "k < b - a" "P (a + k)" "i = a + k" "\<forall>j < k. \<not> P (a + j)"
    by (auto simp: find_Some_iff)
  then have "\<not> P j" if "a \<le> j" "j < i" for j
    using that by (metis add_less_cancel_left le_Suc_ex)
  with k show "a \<le> i \<and> i < b \<and> P i \<and> (\<forall>j. a \<le> j \<and> j < i \<longrightarrow> \<not> P j)" by auto
next
  assume "a \<le> i \<and> i < b \<and> P i \<and> (\<forall>j. a \<le> j \<and> j < i \<longrightarrow> \<not> P j)"
  then show "find P [a ..< b] = Some i"
    by (auto simp: find_Some_iff intro!: exI [of _ "i - a"])
qed

end
