(* ===== verification/BootInfo.thy ===== *)
theory BootInfo
  imports Prelude
begin

text \<open>
  Boot metadata (\<open>include/boot_info.h\<close>) and the E820 walk over it (\<open>memory/e820.c\<close>). Stage 2
  of the boot loader hands the kernel one \<open>struct boot_info\<close>; \<open>boot_info_is_valid\<close> is the gate
  every consumer passes first, and \<open>e820_apply_memory_map\<close> calls one handler for each usable
  range and then another for each reserved range. The locale \<open>e820_handlers\<close> states what the
  two callbacks promise and derives that reserved ranges win over overlapping usable ones.
\<close>

section \<open>The boot information block\<close>

record boot_memory_map_entry =
  base_low :: u32
  base_high :: u32
  length_low :: u32
  length_high :: u32
  entry_type :: u32
  attributes :: u32

record boot_info =
  bi_magic :: u32
  boot_drive :: u32
  memory_map_entry_count :: u32
  memory_map_entry_size :: u32
  vga_font_address :: u32
  video_flags :: u32
  memory_map :: "boot_memory_map_entry list"
  acpi_rsdp_address :: u32

abbreviation BOOT_INFO_MAGIC :: u32 where "BOOT_INFO_MAGIC \<equiv> 0x534F4645"
abbreviation BOOT_INFO_MAX_MEMORY_MAP_ENTRIES :: u32 where
  "BOOT_INFO_MAX_MEMORY_MAP_ENTRIES \<equiv> 32"
abbreviation BOOT_MEMORY_AVAILABLE :: u32 where "BOOT_MEMORY_AVAILABLE \<equiv> 1"
abbreviation BOOT_VIDEO_FONT_AVAILABLE :: u32 where "BOOT_VIDEO_FONT_AVAILABLE \<equiv> 1"
abbreviation BOOT_INFO_KNOWN_FLAGS :: u32 where "BOOT_INFO_KNOWN_FLAGS \<equiv> 3"
abbreviation BOOT_MEMORY_KNOWN_ATTRIBUTES :: u32 where "BOOT_MEMORY_KNOWN_ATTRIBUTES \<equiv> 3"
abbreviation SIZEOF_BOOT_MEMORY_MAP_ENTRY :: u32 where "SIZEOF_BOOT_MEMORY_MAP_ENTRY \<equiv> 24"

text \<open>\<open>entry_base\<close> and \<open>entry_length\<close> of \<open>memory/e820.c\<close>.\<close>

definition entry_base :: "boot_memory_map_entry \<Rightarrow> u64" where
  "entry_base e = push_bit 32 (ucast (base_high e)) OR ucast (base_low e)"

definition entry_length :: "boot_memory_map_entry \<Rightarrow> u64" where
  "entry_length e = push_bit 32 (ucast (length_high e)) OR ucast (length_low e)"

text \<open>The body of the entry loop of \<open>boot_info_is_valid\<close>.\<close>

definition boot_entry_is_valid :: "boot_memory_map_entry \<Rightarrow> bool" where
  "boot_entry_is_valid e =
     (let base = entry_base e; len = entry_length e; end = base + len
      in \<not> (len = 0 \<or> end < base \<or> entry_type e = 0 \<or>
             attributes e AND NOT BOOT_MEMORY_KNOWN_ATTRIBUTES \<noteq> 0))"

definition boot_header_is_valid :: "boot_info \<Rightarrow> bool" where
  "boot_header_is_valid info \<longleftrightarrow>
     \<not> (bi_magic info \<noteq> BOOT_INFO_MAGIC \<or>
        boot_drive info > 0xFF \<or>
        memory_map_entry_size info \<noteq> SIZEOF_BOOT_MEMORY_MAP_ENTRY \<or>
        memory_map_entry_count info = 0 \<or>
        memory_map_entry_count info > BOOT_INFO_MAX_MEMORY_MAP_ENTRIES \<or>
        video_flags info AND NOT BOOT_INFO_KNOWN_FLAGS \<noteq> 0 \<or>
        (video_flags info AND BOOT_VIDEO_FONT_AVAILABLE \<noteq> 0 \<and>
         (vga_font_address info < 0x1000 \<or> vga_font_address info \<ge> 0x003FF000)) \<or>
        (video_flags info AND BOOT_VIDEO_FONT_AVAILABLE = 0 \<and> vga_font_address info \<noteq> 0) \<or>
        (acpi_rsdp_address info \<noteq> 0 \<and>
         (acpi_rsdp_address info AND 0x0F \<noteq> 0 \<or>
          \<not> ((acpi_rsdp_address info \<ge> 0x00080000 \<and> acpi_rsdp_address info < 0x000A0000) \<or>
              (acpi_rsdp_address info \<ge> 0x000E0000 \<and> acpi_rsdp_address info < 0x00100000)))))"

definition active_entries :: "boot_info \<Rightarrow> boot_memory_map_entry list" where
  "active_entries info = take (unat (memory_map_entry_count info)) (memory_map info)"

text \<open>The null pointer is \<open>None\<close>; the loop looks at the first \<open>memory_map_entry_count\<close> entries.\<close>

definition boot_info_is_valid :: "boot_info option \<Rightarrow> bool" where
  "boot_info_is_valid p =
     (case p of None \<Rightarrow> False
      | Some info \<Rightarrow> boot_header_is_valid info \<and> list_all boot_entry_is_valid (active_entries info))"

section \<open>The E820 walk\<close>

type_synonym 'c range_handler = "u64 \<Rightarrow> u64 \<Rightarrow> 'c \<Rightarrow> 'c"

definition entry_is_usable :: "boot_memory_map_entry \<Rightarrow> bool" where
  "entry_is_usable e \<longleftrightarrow> attributes e AND 1 \<noteq> 0 \<and> entry_type e = BOOT_MEMORY_AVAILABLE"

definition entry_is_reserved :: "boot_memory_map_entry \<Rightarrow> bool" where
  "entry_is_reserved e \<longleftrightarrow> attributes e AND 1 \<noteq> 0 \<and> entry_type e \<noteq> BOOT_MEMORY_AVAILABLE"

fun e820_pass :: "(boot_memory_map_entry \<Rightarrow> bool) \<Rightarrow> 'c range_handler \<Rightarrow>
    boot_memory_map_entry list \<Rightarrow> 'c \<Rightarrow> 'c" where
  "e820_pass want handler [] c = c"
| "e820_pass want handler (e # es) c =
     e820_pass want handler es
       (if want e then handler (entry_base e) (entry_length e) c else c)"

definition e820_apply_memory_map :: "boot_info option \<Rightarrow> 'c range_handler option \<Rightarrow>
    'c range_handler option \<Rightarrow> 'c \<Rightarrow> bool \<times> 'c" where
  "e820_apply_memory_map p usable_handler reserved_handler c =
     (case (p, usable_handler, reserved_handler) of
        (Some info, Some usable, Some reserved) \<Rightarrow>
          if \<not> boot_info_is_valid p then (False, c)
          else (True, e820_pass entry_is_reserved reserved (active_entries info)
                 (e820_pass entry_is_usable usable (active_entries info) c))
      | _ \<Rightarrow> (False, c))"

section \<open>Physical ranges in 4 KiB blocks\<close>

text \<open>A block lies inside a byte range, or shares at least one byte with it.\<close>

definition block_inside :: "nat \<Rightarrow> nat \<Rightarrow> nat \<Rightarrow> bool" where
  "block_inside base len b \<longleftrightarrow> base \<le> 4096 * b \<and> 4096 * b + 4096 \<le> base + len"

definition block_touches :: "nat \<Rightarrow> nat \<Rightarrow> nat \<Rightarrow> bool" where
  "block_touches base len b \<longleftrightarrow> 0 < len \<and> base < 4096 * b + 4096 \<and> 4096 * b < base + len"

abbreviation entry_inside :: "boot_memory_map_entry \<Rightarrow> nat \<Rightarrow> bool" where
  "entry_inside e \<equiv> block_inside (unat (entry_base e)) (unat (entry_length e))"

abbreviation entry_touches :: "boot_memory_map_entry \<Rightarrow> nat \<Rightarrow> bool" where
  "entry_touches e \<equiv> block_touches (unat (entry_base e)) (unat (entry_length e))"

lemma boot_entry_no_wrap:
  "boot_entry_is_valid e \<Longrightarrow>
   0 < unat (entry_length e) \<and> unat (entry_base e) + unat (entry_length e) < 2 ^ 64"
  unfolding boot_entry_is_valid_def Let_def
  using no_wrap_sum [of "entry_base e" "entry_length e"]
    unsigned_less [of "entry_base e + entry_length e", where 'a = nat]
  by (auto simp: unat_gt_0)

section \<open>The contract of the two handlers\<close>

text \<open>
  The consumer keeps a set \<open>avail\<close> of the blocks below \<open>limit\<close> it may hand out. The usable handler
  adds exactly the blocks that lie inside its range; the reserved handler removes every block
  its range touches and adds none.
\<close>

locale e820_handlers =
  fixes usable reserved :: "'c range_handler"
    and ok :: "'c \<Rightarrow> bool"
    and avail :: "'c \<Rightarrow> nat set"
    and limit :: nat
  assumes usable_ok: "ok c \<Longrightarrow> ok (usable base len c)"
    and reserved_ok: "ok c \<Longrightarrow> ok (reserved base len c)"
    and usable_adds: "ok c \<Longrightarrow> unat base + unat len < 2 ^ 64 \<Longrightarrow>
      avail (usable base len c) = avail c \<union> {b. b < limit \<and> block_inside (unat base) (unat len) b}"
    and reserved_removes: "ok c \<Longrightarrow> unat base + unat len < 2 ^ 64 \<Longrightarrow>
      avail (reserved base len c) = avail c - {b. block_touches (unat base) (unat len) b}"
begin

lemma pass_ok:
  "(\<And>base len c. ok c \<Longrightarrow> ok (h base len c)) \<Longrightarrow> ok c \<Longrightarrow> ok (e820_pass w h es c)"
  by (induction es arbitrary: c) auto

lemma usable_pass:
  assumes "list_all boot_entry_is_valid es" and "ok c"
  shows "avail (e820_pass entry_is_usable usable es c)
    = avail c \<union> {b. b < limit \<and> (\<exists>e \<in> set es. entry_is_usable e \<and> entry_inside e b)}"
  using assms
proof (induction es arbitrary: c)
  case (Cons e es)
  let ?c = "if entry_is_usable e then usable (entry_base e) (entry_length e) c else c"
  have "ok ?c" using Cons.prems by (simp add: usable_ok)
  then have IH: "avail (e820_pass entry_is_usable usable es ?c)
      = avail ?c \<union> {b. b < limit \<and> (\<exists>e \<in> set es. entry_is_usable e \<and> entry_inside e b)}"
    using Cons.IH Cons.prems by simp
  have "avail ?c = avail c \<union> {b. b < limit \<and> entry_is_usable e \<and> entry_inside e b}"
    using Cons.prems usable_adds [of c "entry_base e" "entry_length e"] boot_entry_no_wrap [of e]
    by (auto split: if_splits)
  with IH show ?case by fastforce
qed simp

lemma reserved_pass:
  assumes "list_all boot_entry_is_valid es" and "ok c"
  shows "avail (e820_pass entry_is_reserved reserved es c)
    = avail c - {b. \<exists>e \<in> set es. entry_is_reserved e \<and> entry_touches e b}"
  using assms
proof (induction es arbitrary: c)
  case (Cons e es)
  let ?c = "if entry_is_reserved e then reserved (entry_base e) (entry_length e) c else c"
  have "ok ?c" using Cons.prems by (simp add: reserved_ok)
  then have IH: "avail (e820_pass entry_is_reserved reserved es ?c)
      = avail ?c - {b. \<exists>e \<in> set es. entry_is_reserved e \<and> entry_touches e b}"
    using Cons.IH Cons.prems by simp
  have "avail ?c = avail c - {b. entry_is_reserved e \<and> entry_touches e b}"
    using Cons.prems reserved_removes [of c "entry_base e" "entry_length e"]
      boot_entry_no_wrap [of e]
    by (auto split: if_splits)
  with IH show ?case by fastforce
qed simp

text \<open>Reserved ranges take precedence whatever order the firmware returned them in.\<close>

lemma reserved_wins:
  assumes "e820_apply_memory_map (Some info) (Some usable) (Some reserved) c = (True, c')"
    and "ok c"
  shows "ok c'"
    and "avail c' =
      (avail c \<union> {b. b < limit \<and>
         (\<exists>e \<in> set (active_entries info). entry_is_usable e \<and> entry_inside e b)}) -
      {b. \<exists>e \<in> set (active_entries info). entry_is_reserved e \<and> entry_touches e b}"
proof -
  let ?es = "active_entries info"
  let ?c1 = "e820_pass entry_is_usable usable ?es c"
  from assms(1) have v: "list_all boot_entry_is_valid ?es"
    and c': "c' = e820_pass entry_is_reserved reserved ?es ?c1"
    by (auto simp: e820_apply_memory_map_def boot_info_is_valid_def split: if_splits)
  have ok1: "ok ?c1" by (rule pass_ok [OF usable_ok assms(2)])
  show "ok c'" unfolding c' by (rule pass_ok [OF reserved_ok ok1])
  show "avail c' =
      (avail c \<union> {b. b < limit \<and> (\<exists>e \<in> set ?es. entry_is_usable e \<and> entry_inside e b)}) -
      {b. \<exists>e \<in> set ?es. entry_is_reserved e \<and> entry_touches e b}"
    unfolding c' using reserved_pass [OF v ok1] usable_pass [OF v assms(2)] by simp
qed

end

section \<open>Rejection\<close>

lemma e820_apply_rejects:
  "\<not> boot_info_is_valid p \<Longrightarrow> e820_apply_memory_map p u r c = (False, c)"
  by (auto simp: e820_apply_memory_map_def split: option.splits)

end
