(* ===== verification/Pmm.thy ===== *)
theory Pmm
  imports BootInfo
begin

text \<open>
  The physical memory manager (\<open>memory/pmm.c\<close>): four bitmaps over 4 KiB blocks and three
  counters. A block index is a natural number below \<open>PMM_MAX_BLOCKS\<close>; the counters keep their
  32-bit width. The theory holds the whole of \<open>pmm.c\<close>: the bitmap helpers, the two E820 handlers,
  initialisation, allocation, ownership, claims and release, with the allocator's invariant,
  the functional behaviour of every public operation, and the interpretation of the E820
  contract.
\<close>

section \<open>State and bitmap helpers\<close>

record pmm =
  bitmap :: "nat \<Rightarrow> u32"
  usable_bitmap :: "nat \<Rightarrow> u32"
  user_bitmap :: "nat \<Rightarrow> u32"
  user_mapped_bitmap :: "nat \<Rightarrow> u32"
  detected_blocks :: u32
  managed_blocks :: u32
  used_managed_blocks :: u32

abbreviation PMM_MAX_BLOCKS :: nat where "PMM_MAX_BLOCKS \<equiv> 1048576"
abbreviation PMM_LOW_BLOCKS :: nat where "PMM_LOW_BLOCKS \<equiv> 256"
abbreviation PMM_USER_MIN_BLOCK :: nat where "PMM_USER_MIN_BLOCK \<equiv> 1024"
abbreviation PMM_USER_MAX_BLOCKS :: nat where "PMM_USER_MAX_BLOCKS \<equiv> 65536"
abbreviation PMM_BOOTSTRAP_RESERVED_END :: u32 where "PMM_BOOTSTRAP_RESERVED_END \<equiv> 0x00100000"
abbreviation PMM_FRAMEBUFFER_BASE :: u32 where "PMM_FRAMEBUFFER_BASE \<equiv> 0xE0000000"
abbreviation PMM_FRAMEBUFFER_BYTES :: u32 where "PMM_FRAMEBUFFER_BYTES \<equiv> 768 * 4096"

definition block_is_used :: "pmm \<Rightarrow> nat \<Rightarrow> bool" where
  "block_is_used s block = bitmap_test (bitmap s) block"

definition block_is_usable :: "pmm \<Rightarrow> nat \<Rightarrow> bool" where
  "block_is_usable s block = bitmap_test (usable_bitmap s) block"

definition block_has_user_bit :: "pmm \<Rightarrow> nat \<Rightarrow> bool" where
  "block_has_user_bit s block = bitmap_test (user_bitmap s) block"

definition mark_block_used :: "nat \<Rightarrow> pmm \<Rightarrow> pmm" where
  "mark_block_used block s = s\<lparr>bitmap := bitmap_set (bitmap s) block\<rparr>"

definition mark_block_user_owned :: "nat \<Rightarrow> pmm \<Rightarrow> pmm" where
  "mark_block_user_owned block s =
     (if block \<ge> PMM_USER_MAX_BLOCKS then s
      else s\<lparr>user_bitmap := bitmap_set (user_bitmap s) block\<rparr>)"

definition mark_block_kernel_owned :: "nat \<Rightarrow> pmm \<Rightarrow> pmm" where
  "mark_block_kernel_owned block s =
     (if block \<ge> PMM_USER_MAX_BLOCKS then s
      else s\<lparr>user_bitmap := bitmap_clear (user_bitmap s) block\<rparr>)"

definition user_mapped :: "pmm \<Rightarrow> nat \<Rightarrow> bool" where
  "user_mapped s block \<longleftrightarrow>
     block < PMM_USER_MAX_BLOCKS \<and> bitmap_test (user_mapped_bitmap s) block"

definition mark_user_mapped :: "nat \<Rightarrow> pmm \<Rightarrow> pmm" where
  "mark_user_mapped block s =
     (if block < PMM_USER_MAX_BLOCKS
      then s\<lparr>user_mapped_bitmap := bitmap_set (user_mapped_bitmap s) block\<rparr> else s)"

definition mark_user_unmapped :: "nat \<Rightarrow> pmm \<Rightarrow> pmm" where
  "mark_user_unmapped block s =
     (if block < PMM_USER_MAX_BLOCKS
      then s\<lparr>user_mapped_bitmap := bitmap_clear (user_mapped_bitmap s) block\<rparr> else s)"

definition mark_block_free :: "nat \<Rightarrow> pmm \<Rightarrow> pmm" where
  "mark_block_free block s = s\<lparr>bitmap := bitmap_clear (bitmap s) block\<rparr>"

definition mark_block_available :: "nat \<Rightarrow> pmm \<Rightarrow> pmm" where
  "mark_block_available block s =
     (if block \<ge> PMM_MAX_BLOCKS \<or> block_is_usable s block then s
      else mark_block_free block
        (s\<lparr>usable_bitmap := bitmap_set (usable_bitmap s) block,
           managed_blocks := managed_blocks s + 1\<rparr>))"

definition mark_block_reserved :: "nat \<Rightarrow> pmm \<Rightarrow> pmm" where
  "mark_block_reserved block s =
     (if block \<ge> PMM_MAX_BLOCKS then s
      else mark_block_used block
        (if block_is_usable s block then
           s\<lparr>usable_bitmap := bitmap_clear (usable_bitmap s) block,
             managed_blocks := managed_blocks s - 1,
             used_managed_blocks :=
               (if block_is_used s block then used_managed_blocks s - 1
                else used_managed_blocks s)\<rparr>
         else s))"

section \<open>Ranges and initialisation\<close>

definition clamp_block_index :: "u64 \<Rightarrow> nat" where
  "clamp_block_index value =
     (if value \<ge> of_nat PMM_MAX_BLOCKS then PMM_MAX_BLOCKS else unat value)"

definition release_e820_range :: "u64 \<Rightarrow> u64 \<Rightarrow> pmm \<Rightarrow> pmm" where
  "release_e820_range base len s =
     (let end = base + len in
      if len = 0 \<or> end < base then s
      else
        let first_block_64 = drop_bit 12 base + (if base AND 0xFFF \<noteq> 0 then 1 else 0);
            end_block_64 = drop_bit 12 end;
            first_block = clamp_block_index first_block_64;
            end_block = clamp_block_index end_block_64;
            s1 = (if end_block > unat (detected_blocks s)
                  then s\<lparr>detected_blocks := of_nat end_block\<rparr> else s)
        in fold mark_block_available [first_block ..< end_block] s1)"

definition reserve_e820_range :: "u64 \<Rightarrow> u64 \<Rightarrow> pmm \<Rightarrow> pmm" where
  "reserve_e820_range base len s =
     (let end = base + len in
      if len = 0 \<or> end < base then s
      else
        let first_block_64 = drop_bit 12 base;
            end_block_64 = drop_bit 12 end + (if end AND 0xFFF \<noteq> 0 then 1 else 0);
            first_block = clamp_block_index first_block_64;
            end_block = clamp_block_index end_block_64
        in fold mark_block_reserved [first_block ..< end_block] s)"

definition pmm_reserve_range :: "u32 \<Rightarrow> u32 \<Rightarrow> pmm \<Rightarrow> pmm" where
  "pmm_reserve_range address len s =
     (if len = 0 then s
      else
        let end = (ucast address :: u64) + ucast len;
            first_block = unat address div 4096;
            end_block = clamp_block_index (drop_bit 12 (end + 4096 - 1))
        in fold mark_block_reserved [first_block ..< end_block] s)"

definition pmm_cleared :: "pmm \<Rightarrow> pmm" where
  "pmm_cleared s = s\<lparr>bitmap := (\<lambda>_. 0xFFFFFFFF), usable_bitmap := (\<lambda>_. 0),
     user_bitmap := (\<lambda>_. 0), user_mapped_bitmap := (\<lambda>_. 0),
     detected_blocks := 0, managed_blocks := 0, used_managed_blocks := 0\<rparr>"

text \<open>
  The addresses of the linker symbols \<open>__kernel_start\<close> and \<open>__kernel_end\<close> are arguments.
\<close>

definition pmm_init :: "u32 \<Rightarrow> u32 \<Rightarrow> boot_info option \<Rightarrow> pmm \<Rightarrow> bool \<times> pmm" where
  "pmm_init kernel_start kernel_end p s =
     (if \<not> boot_info_is_valid p \<or> kernel_end \<le> kernel_start then (False, s)
      else
        case e820_apply_memory_map p (Some release_e820_range) (Some reserve_e820_range)
               (pmm_cleared s) of
          (False, s1) \<Rightarrow> (False, s1)
        | (True, s1) \<Rightarrow>
            let s2 = pmm_reserve_range 0 PMM_BOOTSTRAP_RESERVED_END s1;
                s3 = pmm_reserve_range kernel_start (kernel_end - kernel_start) s2;
                s4 = pmm_reserve_range PMM_FRAMEBUFFER_BASE PMM_FRAMEBUFFER_BYTES s3
            in if detected_blocks s4 = 0 \<or> managed_blocks s4 = 0 then (False, s4) else (True, s4))"

section \<open>Allocation, ownership and release\<close>

definition pmm_alloc_block_below :: "u32 \<Rightarrow> pmm \<Rightarrow> u32 \<times> pmm" where
  "pmm_alloc_block_below limit s =
     (let end_block = min (unat limit div 4096) (unat (detected_blocks s)) in
      case find (\<lambda>b. \<not> block_is_used s b) [PMM_LOW_BLOCKS ..< end_block] of
        None \<Rightarrow> (0, s)
      | Some block \<Rightarrow>
          let s1 = mark_block_kernel_owned block (mark_block_used block s)
          in (of_nat (block * 4096), s1\<lparr>used_managed_blocks := used_managed_blocks s1 + 1\<rparr>))"

definition pmm_alloc_user_block :: "pmm \<Rightarrow> u32 \<times> pmm" where
  "pmm_alloc_user_block s =
     (let end_block = min (unat (detected_blocks s)) PMM_USER_MAX_BLOCKS in
      case find (\<lambda>b. \<not> block_is_used s b \<and> block_is_usable s b)
             [PMM_USER_MIN_BLOCK ..< end_block] of
        None \<Rightarrow> (0, s)
      | Some block \<Rightarrow>
          let s1 = mark_block_user_owned block (mark_block_used block s)
          in (of_nat (block * 4096), s1\<lparr>used_managed_blocks := used_managed_blocks s1 + 1\<rparr>))"

definition pmm_block_is_user_owned :: "u32 \<Rightarrow> pmm \<Rightarrow> bool" where
  "pmm_block_is_user_owned address s =
     (if address AND 4095 \<noteq> 0 then False
      else
        let block = unat address div 4096
        in block < unat (detected_blocks s) \<and> block < PMM_USER_MAX_BLOCKS \<and>
           block_is_usable s block \<and> block_is_used s block \<and> block_has_user_bit s block)"

definition pmm_claim_user_block :: "u32 \<Rightarrow> pmm \<Rightarrow> bool \<times> pmm" where
  "pmm_claim_user_block address s =
     (if \<not> pmm_block_is_user_owned address s then (False, s)
      else if user_mapped s (unat address div 4096) then (False, s)
      else (True, mark_user_mapped (unat address div 4096) s))"

definition pmm_release_user_block :: "u32 \<Rightarrow> pmm \<Rightarrow> pmm" where
  "pmm_release_user_block address s =
     (if address AND 4095 = 0 then mark_user_unmapped (unat address div 4096) s else s)"

definition pmm_user_block_is_mapped :: "u32 \<Rightarrow> pmm \<Rightarrow> bool" where
  "pmm_user_block_is_mapped address s \<longleftrightarrow>
     pmm_block_is_user_owned address s \<and> user_mapped s (unat address div 4096)"

definition pmm_alloc_block :: "pmm \<Rightarrow> u32 \<times> pmm" where
  "pmm_alloc_block = pmm_alloc_block_below 0xFFFFFFFF"

definition pmm_free_block :: "u32 \<Rightarrow> pmm \<Rightarrow> pmm" where
  "pmm_free_block address s =
     (let block = unat address div 4096 in
      if address AND 4095 \<noteq> 0 then s
      else if block < PMM_LOW_BLOCKS \<or> block \<ge> unat (detected_blocks s) \<or>
              \<not> block_is_usable s block \<or> \<not> block_is_used s block then s
      else if user_mapped s block then s
      else
        let s1 = mark_block_kernel_owned block (mark_block_free block s)
        in s1\<lparr>used_managed_blocks := used_managed_blocks s1 - 1\<rparr>)"

definition pmm_total_blocks :: "pmm \<Rightarrow> u32" where
  "pmm_total_blocks s = managed_blocks s"

definition pmm_used_blocks :: "pmm \<Rightarrow> u32" where
  "pmm_used_blocks s = used_managed_blocks s"

definition pmm_free_blocks :: "pmm \<Rightarrow> u32" where
  "pmm_free_blocks s = managed_blocks s - used_managed_blocks s"

definition pmm_self_test :: "pmm \<Rightarrow> bool \<times> pmm" where
  "pmm_self_test s =
     (let free_before = pmm_free_blocks s;
          (first, s1) = pmm_alloc_block_below 0x00400000 s;
          (second, s2) = pmm_alloc_block_below 0x00400000 s1;
          (user, s3) = pmm_alloc_user_block s2
      in if first = 0 \<or> second = 0 \<or> first = second \<or> user = 0 \<or>
            pmm_block_is_user_owned first s3 \<or> \<not> pmm_block_is_user_owned user s3 \<or>
            pmm_block_is_user_owned (user + 1) s3 then
           let s4 = (if first \<noteq> 0 then pmm_free_block first s3 else s3);
               s5 = (if second \<noteq> 0 \<and> second \<noteq> first then pmm_free_block second s4 else s4);
               s6 = (if user \<noteq> 0 then pmm_free_block user s5 else s5)
           in (False, s6)
         else
           let s4 = pmm_free_block user (pmm_free_block second (pmm_free_block first s3))
           in (\<not> pmm_block_is_user_owned user s4 \<and> pmm_free_blocks s4 = free_before, s4))"

section \<open>What the bitmap helpers do\<close>

lemmas mark_defs =
  mark_block_used_def mark_block_free_def mark_block_user_owned_def mark_block_kernel_owned_def
  mark_user_mapped_def mark_user_unmapped_def

lemmas block_views = block_is_used_def block_is_usable_def block_has_user_bit_def user_mapped_def

text \<open>The blocks the manager owns, those handed out, and those it can still hand out.\<close>

definition managed_set :: "pmm \<Rightarrow> nat set" where
  "managed_set s = {b. b < PMM_MAX_BLOCKS \<and> block_is_usable s b}"

definition in_use_set :: "pmm \<Rightarrow> nat set" where
  "in_use_set s = {b \<in> managed_set s. block_is_used s b}"

definition free_set :: "pmm \<Rightarrow> nat set" where
  "free_set s = {b \<in> managed_set s. \<not> block_is_used s b}"

lemma finite_managed [simp]: "finite (managed_set s)"
  by (rule finite_subset [of _ "{..<PMM_MAX_BLOCKS}"]) (auto simp: managed_set_def)

lemma finite_in_use [simp]: "finite (in_use_set s)" and finite_free [simp]: "finite (free_set s)"
  by (auto simp: in_use_set_def free_set_def)

lemma managed_below: "b \<in> managed_set s \<Longrightarrow> b < PMM_MAX_BLOCKS"
  by (simp add: managed_set_def)

lemma card_managed: "card (managed_set s) \<le> PMM_MAX_BLOCKS"
  using card_mono [of "{..<PMM_MAX_BLOCKS}" "managed_set s"] by (auto simp: managed_set_def)

lemma card_in_use: "card (in_use_set s) \<le> card (managed_set s)"
  by (rule card_mono) (auto simp: in_use_set_def)

lemma card_free: "card (managed_set s) = card (in_use_set s) + card (free_set s)"
  by (subst card_Un_disjoint [symmetric]) (auto simp: in_use_set_def free_set_def intro: arg_cong [where f = card])

section \<open>The allocator invariant\<close>

definition pmm_inv :: "pmm \<Rightarrow> bool" where
  "pmm_inv s \<longleftrightarrow>
     unat (detected_blocks s) \<le> PMM_MAX_BLOCKS \<and>
     (\<forall>b < PMM_MAX_BLOCKS. block_is_usable s b \<longrightarrow> b < unat (detected_blocks s)) \<and>
     (\<forall>b < PMM_MAX_BLOCKS. \<not> block_is_usable s b \<longrightarrow> block_is_used s b) \<and>
     unat (managed_blocks s) = card (managed_set s) \<and>
     unat (used_managed_blocks s) = card (in_use_set s) \<and>
     (\<forall>b < PMM_USER_MAX_BLOCKS. block_has_user_bit s b \<longrightarrow> block_is_used s b) \<and>
     (\<forall>b. user_mapped s b \<longrightarrow> block_has_user_bit s b)"

text \<open>During initialisation nothing is handed out and no block belongs to a user process yet.\<close>

definition pmm_boot_inv :: "pmm \<Rightarrow> bool" where
  "pmm_boot_inv s \<longleftrightarrow>
     pmm_inv s \<and> in_use_set s = {} \<and> (\<forall>b. \<not> block_has_user_bit s b)"

lemma managed_mark_available:
  assumes "b < PMM_MAX_BLOCKS" "\<not> block_is_usable s b"
  shows "managed_set (mark_block_available b s) = insert b (managed_set s)"
    and "b \<notin> managed_set s"
  using assms by (auto simp: managed_set_def mark_block_available_def mark_defs block_views)

lemma boot_inv_available:
  assumes inv: "pmm_boot_inv s" and b: "b < unat (detected_blocks s)"
  shows "pmm_boot_inv (mark_block_available b s)"
proof (cases "b \<ge> PMM_MAX_BLOCKS \<or> block_is_usable s b")
  case True
  with inv show ?thesis by (simp add: mark_block_available_def)
next
  case False
  then have new: "managed_set (mark_block_available b s) = insert b (managed_set s)"
      "b \<notin> managed_set s"
    using managed_mark_available by auto
  have use: "in_use_set (mark_block_available b s) = in_use_set s"
    using False by (auto simp: in_use_set_def managed_set_def mark_block_available_def mark_defs block_views)
  have "card (managed_set s) < PMM_MAX_BLOCKS"
    using card_managed [of "mark_block_available b s"] new by simp
  then have "unat (managed_blocks s + 1) = Suc (card (managed_set s))"
    using inv by (subst unat_inc) (auto simp: pmm_boot_inv_def pmm_inv_def)
  with inv b False use new show ?thesis
    unfolding pmm_boot_inv_def pmm_inv_def
    by (auto simp: mark_block_available_def mark_defs block_views)
qed

lemma inv_reserved:
  assumes inv: "pmm_inv s"
  shows "pmm_inv (mark_block_reserved b s)"
proof (cases "b < PMM_MAX_BLOCKS \<and> block_is_usable s b")
  case True
  then have m: "b \<in> managed_set s" by (simp add: managed_set_def)
  have new: "managed_set (mark_block_reserved b s) = managed_set s - {b}"
    "in_use_set (mark_block_reserved b s) = in_use_set s - {b}"
    using True
    by (auto simp: in_use_set_def managed_set_def mark_block_reserved_def mark_defs block_views)
  have "unat (managed_blocks s - 1) = card (managed_set s) - 1"
    using inv m card_gt_0_iff [of "managed_set s"] by (subst unat_dec) (auto simp: pmm_inv_def)
  moreover have "block_is_used s b \<Longrightarrow> unat (used_managed_blocks s - 1) = card (in_use_set s) - 1"
    using inv m card_gt_0_iff [of "in_use_set s"]
    by (subst unat_dec) (auto simp: pmm_inv_def in_use_set_def)
  moreover have "\<not> block_is_used s b \<Longrightarrow> in_use_set s - {b} = in_use_set s"
    by (auto simp: in_use_set_def)
  moreover have "b \<in> in_use_set s \<longleftrightarrow> block_is_used s b" using m by (simp add: in_use_set_def)
  ultimately show ?thesis using inv m new True
    unfolding pmm_inv_def
    by (auto simp: mark_block_reserved_def mark_defs block_views)
next
  case False
  then have "managed_set (mark_block_reserved b s) = managed_set s"
    "in_use_set (mark_block_reserved b s) = in_use_set s"
    using inv
    by (auto simp: in_use_set_def managed_set_def pmm_inv_def mark_block_reserved_def mark_defs block_views)
  with inv False show ?thesis
    unfolding pmm_inv_def
    by (auto simp: mark_block_reserved_def mark_defs block_views)
qed

section \<open>Ranges\<close>

lemma no_user_reserved:
  "block_has_user_bit (mark_block_reserved b s) c = block_has_user_bit s c"
  "detected_blocks (mark_block_reserved b s) = detected_blocks s"
  by (auto simp: mark_block_reserved_def mark_defs block_views)

lemma fold_reserved_inv: "pmm_inv s \<Longrightarrow> pmm_inv (fold mark_block_reserved bs s)"
  by (induction bs arbitrary: s) (auto intro: inv_reserved)

lemma fold_reserved_user:
  "block_has_user_bit (fold mark_block_reserved bs s) c = block_has_user_bit s c"
  "detected_blocks (fold mark_block_reserved bs s) = detected_blocks s"
  by (induction bs arbitrary: s) (auto simp: no_user_reserved)

lemma fold_reserved_in_use:
  "in_use_set s = {} \<Longrightarrow> in_use_set (fold mark_block_reserved bs s) = {}"
proof (induction bs arbitrary: s)
  case (Cons b bs)
  then have "in_use_set (mark_block_reserved b s) = {}"
    by (auto simp: in_use_set_def managed_set_def mark_block_reserved_def mark_defs block_views)
  with Cons show ?case by simp
qed simp

lemma fold_reserved_managed:
  "managed_set (fold mark_block_reserved bs s) = managed_set s - set bs"
proof (induction bs arbitrary: s)
  case (Cons b bs)
  have "managed_set (mark_block_reserved b s) = managed_set s - {b}"
    by (auto simp: managed_set_def mark_block_reserved_def mark_defs block_views)
  with Cons show ?case by auto
qed simp

lemma available_detected [simp]: "detected_blocks (mark_block_available b s) = detected_blocks s"
  by (simp add: mark_block_available_def mark_defs)

lemma fold_available_inv:
  "pmm_boot_inv s \<Longrightarrow> \<forall>b \<in> set bs. b < unat (detected_blocks s) \<Longrightarrow>
   pmm_boot_inv (fold mark_block_available bs s)"
  by (induction bs arbitrary: s) (simp_all add: boot_inv_available)

lemma fold_available_managed:
  "managed_set (fold mark_block_available bs s) = managed_set s \<union> (set bs \<inter> {..<PMM_MAX_BLOCKS})"
proof (induction bs arbitrary: s)
  case (Cons b bs)
  have "managed_set (mark_block_available b s) = managed_set s \<union> ({b} \<inter> {..<PMM_MAX_BLOCKS})"
    by (auto simp: managed_set_def mark_block_available_def mark_defs block_views)
  with Cons show ?case by auto
qed simp

lemma boot_inv_detected:
  "pmm_boot_inv s \<Longrightarrow> unat (detected_blocks s) \<le> n \<Longrightarrow> n \<le> PMM_MAX_BLOCKS \<Longrightarrow>
   pmm_boot_inv (s\<lparr>detected_blocks := of_nat n\<rparr>)"
  by (auto simp: pmm_boot_inv_def pmm_inv_def managed_set_def in_use_set_def block_views
      unat_of_nat take_bit_eq_mod)

text \<open>Page arithmetic on 64-bit addresses.\<close>

lemma unat_shift12: "unat (drop_bit 12 (w::u64)) = unat w div 4096"
  by (simp add: drop_bit_eq_div unat_div_distrib)

lemma page_offset64: "(w::u64) AND 0xFFF = 0 \<longleftrightarrow> unat w mod 4096 = 0"
proof -
  have "w AND 0xFFF = take_bit 12 w" using and_4095 [of w] by simp
  then show ?thesis by (simp add: word_unat_eq_iff take_bit_eq_mod unat_mod_distrib)
qed

lemma page_round_up: "((n::nat) + 4095) div 4096 = n div 4096 + (if n mod 4096 = 0 then 0 else 1)"
proof -
  have "4096 * (n div 4096) + n mod 4096 = n" "n mod 4096 < 4096" by simp_all
  then show ?thesis by (intro div_nat_eqI; cases "n mod 4096 = 0"; simp; linarith)
qed

lemma round_inside:
  "block_inside base len b \<longleftrightarrow> ((base::nat) + 4095) div 4096 \<le> b \<and> b < (base + len) div 4096"
  using div_less_iff_less_mult [of 4096 "base + 4095" "Suc b"]
    less_eq_div_iff_mult_less_eq [of 4096 "Suc b" "base + len"]
  by (auto simp: block_inside_def)

lemma touches_round:
  "block_touches base len b \<longleftrightarrow>
   0 < len \<and> (base::nat) div 4096 \<le> b \<and> b < (base + len + 4095) div 4096"
  using div_less_iff_less_mult [of 4096 base "Suc b"]
    less_eq_div_iff_mult_less_eq [of 4096 "Suc b" "base + len + 4095"]
  by (auto simp: block_touches_def)

lemma unat_round_up:
  "unat (drop_bit 12 (w::u64) + (if w AND 0xFFF \<noteq> 0 then 1 else 0)) = (unat w + 4095) div 4096"
proof -
  have "unat w < 2 ^ 64" using unsigned_less [of w, where 'a = nat] by simp
  then have "unat (drop_bit 12 w) + 1 < 2 ^ 64" by (simp add: unat_shift12)
  then have "unat (drop_bit 12 w + 1) = unat w div 4096 + 1"
    using unat_sum [of "drop_bit 12 w" 1] by (simp add: unat_shift12)
  then show ?thesis by (simp add: page_offset64 unat_shift12 page_round_up)
qed

lemma clamp_range: "{min M f ..< min M e} \<inter> {..<M} = {b::nat. b < M \<and> f \<le> b \<and> b < e}"
  by auto

lemma managed_clamp:
  "managed_set s - {min PMM_MAX_BLOCKS f ..< min PMM_MAX_BLOCKS e} =
   managed_set s - {b. f \<le> b \<and> b < e}"
  using managed_below [of _ s] by fastforce

lemma clamp_block_index_eq: "clamp_block_index v = min PMM_MAX_BLOCKS (unat v)"
  by (auto simp: clamp_block_index_def word_le_nat_alt min_def)

text \<open>The two handlers in terms of natural numbers.\<close>

lemma release_eq:
  assumes "unat base + unat len < 2 ^ 64" and "len \<noteq> 0"
  shows "release_e820_range base len s =
    (let e = min PMM_MAX_BLOCKS ((unat base + unat len) div 4096) in
     fold mark_block_available [min PMM_MAX_BLOCKS ((unat base + 4095) div 4096) ..< e]
       (if e > unat (detected_blocks s) then s\<lparr>detected_blocks := of_nat e\<rparr> else s))"
  using assms wrap_iff [of base len] unat_sum [of base len] unat_round_up [of base]
  by (simp add: release_e820_range_def Let_def clamp_block_index_eq unat_shift12 del: add_uminus_conv_diff)

lemma reserve_eq:
  assumes "unat base + unat len < 2 ^ 64" and "len \<noteq> 0"
  shows "reserve_e820_range base len s =
    fold mark_block_reserved [min PMM_MAX_BLOCKS (unat base div 4096) ..<
      min PMM_MAX_BLOCKS ((unat base + unat len + 4095) div 4096)] s"
  using assms wrap_iff [of base len] unat_sum [of base len] unat_round_up [of "base + len"]
  by (simp add: reserve_e820_range_def Let_def clamp_block_index_eq unat_shift12)

lemma release_degenerate:
  "\<not> (unat base + unat len < 2 ^ 64 \<and> len \<noteq> 0) \<Longrightarrow> release_e820_range base len s = s"
  "\<not> (unat base + unat len < 2 ^ 64 \<and> len \<noteq> 0) \<Longrightarrow> reserve_e820_range base len s = s"
  using wrap_iff [of base len] by (auto simp: release_e820_range_def reserve_e820_range_def Let_def)

lemma release_boot_inv: "pmm_boot_inv s \<Longrightarrow> pmm_boot_inv (release_e820_range base len s)"
proof (cases "unat base + unat len < 2 ^ 64 \<and> len \<noteq> 0")
  case True
  assume s: "pmm_boot_inv s"
  let ?e = "min PMM_MAX_BLOCKS ((unat base + unat len) div 4096)"
  let ?s = "if ?e > unat (detected_blocks s) then s\<lparr>detected_blocks := of_nat ?e\<rparr> else s"
  have "pmm_boot_inv ?s" using s by (auto intro!: boot_inv_detected)
  moreover have "unat (of_nat ?e :: u32) = ?e" by (simp add: unat_of_nat take_bit_eq_mod)
  then have "?e \<le> unat (detected_blocks ?s)" by (auto simp del: min_less_iff_conj)
  then have "\<forall>b \<in> set [m ..< ?e]. b < unat (detected_blocks ?s)" for m
    by (auto simp del: min_less_iff_conj)
  ultimately have "pmm_boot_inv (fold mark_block_available [m ..< ?e] ?s)" for m
    by (rule fold_available_inv)
  then show ?thesis
    by (simp only: release_eq [OF conjunct1 [OF True] conjunct2 [OF True]] Let_def)
qed (simp add: release_degenerate)

lemma reserve_boot_inv: "pmm_boot_inv s \<Longrightarrow> pmm_boot_inv (reserve_e820_range base len s)"
  by (cases "unat base + unat len < 2 ^ 64 \<and> len \<noteq> 0")
    (auto simp: release_degenerate reserve_eq pmm_boot_inv_def fold_reserved_inv fold_reserved_user
      fold_reserved_in_use)

lemma managed_detected [simp]: "managed_set (s\<lparr>detected_blocks := n\<rparr>) = managed_set s"
  by (simp add: managed_set_def block_views)

interpretation pmm_e820: e820_handlers release_e820_range reserve_e820_range pmm_boot_inv managed_set
  PMM_MAX_BLOCKS
proof unfold_locales
  fix base len :: u64 and c :: pmm
  assume c: "pmm_boot_inv c" and nowrap: "unat base + unat len < 2 ^ 64"
  show "managed_set (release_e820_range base len c)
      = managed_set c \<union> {b. b < PMM_MAX_BLOCKS \<and> block_inside (unat base) (unat len) b}"
  proof (cases "len = 0")
    case False
    have "managed_set (release_e820_range base len c) = managed_set c \<union>
        ({min PMM_MAX_BLOCKS ((unat base + 4095) div 4096) ..<
          min PMM_MAX_BLOCKS ((unat base + unat len) div 4096)} \<inter> {..<PMM_MAX_BLOCKS})"
      using nowrap False by (simp add: release_eq Let_def fold_available_managed)
    then show ?thesis by (simp only: round_inside clamp_range)
  qed (auto simp: release_degenerate block_inside_def)
  show "managed_set (reserve_e820_range base len c)
      = managed_set c - {b. block_touches (unat base) (unat len) b}"
  proof (cases "len = 0")
    case False
    have "managed_set (reserve_e820_range base len c) = managed_set c -
        {min PMM_MAX_BLOCKS (unat base div 4096) ..<
         min PMM_MAX_BLOCKS ((unat base + unat len + 4095) div 4096)}"
      using nowrap False by (simp add: reserve_eq fold_reserved_managed)
    then show ?thesis using False by (simp add: managed_clamp touches_round unat_gt_0)
  qed (simp add: release_degenerate block_touches_def)
qed (simp_all add: release_boot_inv reserve_boot_inv)

section \<open>Initialisation\<close>

lemma card_0_sets: "managed_set (pmm_cleared s) = {}" "in_use_set (pmm_cleared s) = {}"
  by (auto simp: managed_set_def in_use_set_def pmm_cleared_def block_views)

lemma cleared_boot_inv: "pmm_boot_inv (pmm_cleared s)"
  unfolding pmm_boot_inv_def pmm_inv_def card_0_sets
  by (simp add: pmm_cleared_def block_views)

lemma reserve_range_eq:
  "len \<noteq> 0 \<Longrightarrow> pmm_reserve_range address len s =
   fold mark_block_reserved [unat address div 4096 ..<
     min PMM_MAX_BLOCKS ((unat address + unat len + 4095) div 4096)] s"
proof -
  have b: "unat address < 2 ^ 32" "unat len < 2 ^ 32"
    using unsigned_less [of address, where 'a = nat] unsigned_less [of len, where 'a = nat] by auto
  note a = unat_ucast_u64
  have s: "unat ((ucast address :: u64) + ucast len) = unat address + unat len"
    using b by (subst unat_sum) (auto simp: a)
  then have "unat ((ucast address :: u64) + ucast len + 4095) = unat address + unat len + 4095"
    using b by (subst unat_sum) auto
  then show "len \<noteq> 0 \<Longrightarrow> ?thesis"
    by (simp add: pmm_reserve_range_def Let_def clamp_block_index_eq unat_shift12 add.commute)
qed

lemma reserve_range_boot_inv: "pmm_boot_inv s \<Longrightarrow> pmm_boot_inv (pmm_reserve_range address len s)"
  by (cases "len = 0")
    (simp_all add: pmm_reserve_range_def Let_def pmm_boot_inv_def fold_reserved_inv fold_reserved_user
      fold_reserved_in_use)

lemma reserve_range_managed:
  "managed_set (pmm_reserve_range address len s) =
   managed_set s - {b. block_touches (unat address) (unat len) b}"
proof (cases "len = 0")
  case False
  then show ?thesis using managed_below [of _ s]
    by (auto simp: reserve_range_eq fold_reserved_managed touches_round unat_gt_0)
qed (simp add: pmm_reserve_range_def block_touches_def)

text \<open>The blocks that initialisation keeps out of the allocator.\<close>

definition boot_reserved :: "u32 \<Rightarrow> u32 \<Rightarrow> nat \<Rightarrow> bool" where
  "boot_reserved kernel_start kernel_end b \<longleftrightarrow>
     b < PMM_LOW_BLOCKS \<or>
     block_touches (unat kernel_start) (unat (kernel_end - kernel_start)) b \<or>
     block_touches 0xE0000000 (768 * 4096) b"

definition offered :: "u32 \<Rightarrow> u32 \<Rightarrow> boot_info \<Rightarrow> nat set" where
  "offered ks ke info = {b. b < PMM_MAX_BLOCKS \<and> \<not> boot_reserved ks ke b \<and>
     (\<exists>e \<in> set (active_entries info). entry_is_usable e \<and> entry_inside e b) \<and>
     (\<forall>e \<in> set (active_entries info). entry_is_reserved e \<longrightarrow> \<not> entry_touches e b)}"

lemma boot_inv_nonempty:
  "pmm_boot_inv s \<Longrightarrow> detected_blocks s = 0 \<or> managed_blocks s = 0 \<longleftrightarrow> managed_set s = {}"
  by (auto simp: pmm_boot_inv_def pmm_inv_def word_unat_eq_iff managed_set_def)

lemma pmm_init_boots:
  assumes "boot_info_is_valid (Some info)" and "ks < ke"
  obtains s1 where "pmm_init ks ke (Some info) s = (managed_set s1 \<noteq> {}, s1)"
    and "pmm_boot_inv s1" and "managed_set s1 = offered ks ke info"
proof -
  obtain s1 where e: "e820_apply_memory_map (Some info) (Some release_e820_range)
      (Some reserve_e820_range) (pmm_cleared s) = (True, s1)"
    using assms by (simp add: e820_apply_memory_map_def)
  let ?s = "pmm_reserve_range PMM_FRAMEBUFFER_BASE PMM_FRAMEBUFFER_BYTES
      (pmm_reserve_range ks (ke - ks) (pmm_reserve_range 0 PMM_BOOTSTRAP_RESERVED_END s1))"
  note low = pmm_e820.reserved_wins [OF e cleared_boot_inv]
  have inv: "pmm_boot_inv ?s" by (intro reserve_range_boot_inv low(1))
  have low_blocks: "block_touches 0 0x100000 b \<longleftrightarrow> b < PMM_LOW_BLOCKS" for b
    by (auto simp: block_touches_def)
  show ?thesis
  proof (rule that [of ?s])
    show "pmm_init ks ke (Some info) s = (managed_set ?s \<noteq> {}, ?s)"
      using assms e boot_inv_nonempty [OF inv] by (simp add: pmm_init_def Let_def not_le)
    show "managed_set ?s = offered ks ke info"
      using low(2) low_blocks
      by (auto simp: reserve_range_managed boot_reserved_def card_0_sets offered_def)
  qed (rule inv)
qed

lemma pmm_init_managed:
  assumes "pmm_init ks ke (Some info) s = (True, s')"
  shows "pmm_boot_inv s'"
    and "managed_set s' = offered ks ke info"
proof -
  have "boot_info_is_valid (Some info)" "ks < ke"
    using assms by (auto simp: pmm_init_def split: if_splits)
  then obtain s1 where "pmm_init ks ke (Some info) s = (managed_set s1 \<noteq> {}, s1)"
    "pmm_boot_inv s1" "managed_set s1 = offered ks ke info"
    by (rule pmm_init_boots)
  then show "pmm_boot_inv s'" "managed_set s' = offered ks ke info" using assms by auto
qed

section \<open>The abstract frame pool\<close>

text \<open>
  What the manager promises, without bitmaps and counters: a set of managed frames, the free
  ones, those owned by user processes and those mapped by one.
\<close>

record frame_pool =
  pool_managed :: "nat set"
  pool_free :: "nat set"
  pool_user :: "nat set"
  pool_mapped :: "nat set"

definition user_set :: "pmm \<Rightarrow> nat set" where
  "user_set s = {b \<in> in_use_set s. b < PMM_USER_MAX_BLOCKS \<and> block_has_user_bit s b}"

definition mapped_set :: "pmm \<Rightarrow> nat set" where
  "mapped_set s = {b \<in> user_set s. user_mapped s b}"

definition pool :: "pmm \<Rightarrow> frame_pool" where
  "pool s = \<lparr>pool_managed = managed_set s, pool_free = free_set s,
             pool_user = user_set s, pool_mapped = mapped_set s\<rparr>"

definition lowest_free :: "nat \<Rightarrow> nat \<Rightarrow> frame_pool \<Rightarrow> nat option" where
  "lowest_free lo hi F =
     (let C = {b \<in> pool_free F. lo \<le> b \<and> b < hi} in if C = {} then None else Some (Min C))"

datatype pmm_op =
  Alloc_below u32 | Alloc_user | Claim u32 | Release u32 | Free u32

text \<open>Every operation clients call once the manager is initialised, with its result as a number.\<close>

fun pmm_exec :: "pmm_op \<Rightarrow> pmm \<Rightarrow> u32 \<times> pmm" where
  "pmm_exec (Alloc_below limit) s = pmm_alloc_block_below limit s"
| "pmm_exec Alloc_user s = pmm_alloc_user_block s"
| "pmm_exec (Claim a) s = (case pmm_claim_user_block a s of (ok, s') \<Rightarrow> (of_bool ok, s'))"
| "pmm_exec (Release a) s = (0, pmm_release_user_block a s)"
| "pmm_exec (Free a) s = (0, pmm_free_block a s)"

abbreviation frame_of :: "u32 \<Rightarrow> nat" where "frame_of a \<equiv> unat a div 4096"
abbreviation page_aligned :: "u32 \<Rightarrow> bool" where "page_aligned a \<equiv> 4096 dvd unat a"

fun pool_exec :: "pmm_op \<Rightarrow> frame_pool \<Rightarrow> u32 \<times> frame_pool" where
  "pool_exec (Alloc_below limit) F =
     (case lowest_free PMM_LOW_BLOCKS (frame_of limit) F of
        None \<Rightarrow> (0, F)
      | Some b \<Rightarrow> (of_nat (b * 4096), F\<lparr>pool_free := pool_free F - {b}\<rparr>))"
| "pool_exec Alloc_user F =
     (case lowest_free PMM_USER_MIN_BLOCK PMM_USER_MAX_BLOCKS F of
        None \<Rightarrow> (0, F)
      | Some b \<Rightarrow> (of_nat (b * 4096),
          F\<lparr>pool_free := pool_free F - {b}, pool_user := insert b (pool_user F)\<rparr>))"
| "pool_exec (Claim a) F =
     (if page_aligned a \<and> frame_of a \<in> pool_user F - pool_mapped F
      then (1, F\<lparr>pool_mapped := insert (frame_of a) (pool_mapped F)\<rparr>) else (0, F))"
| "pool_exec (Release a) F =
     (0, if page_aligned a then F\<lparr>pool_mapped := pool_mapped F - {frame_of a}\<rparr> else F)"
| "pool_exec (Free a) F =
     (0, if page_aligned a \<and> PMM_LOW_BLOCKS \<le> frame_of a \<and>
            frame_of a \<in> pool_managed F - pool_free F - pool_mapped F
         then F\<lparr>pool_free := insert (frame_of a) (pool_free F),
                pool_user := pool_user F - {frame_of a}\<rparr> else F)"

section \<open>The manager implements the frame pool\<close>

lemma find_lowest:
  assumes "finite (pool_free F)" and "hi' \<le> hi"
    and "\<And>b. lo \<le> b \<Longrightarrow> b < hi' \<Longrightarrow> P b \<longleftrightarrow> b \<in> pool_free F"
    and "\<And>b. b \<in> pool_free F \<Longrightarrow> b < hi \<Longrightarrow> b < hi'"
  shows "find P [lo ..< hi'] = lowest_free lo hi F"
proof (cases "{b \<in> pool_free F. lo \<le> b \<and> b < hi} = {}")
  case True
  then have "find P [lo ..< hi'] = None" using assms(2-3) by (fastforce simp: find_upt_None)
  with True show ?thesis by (simp add: lowest_free_def)
next
  case False
  let ?C = "{b \<in> pool_free F. lo \<le> b \<and> b < hi}"
  have fin: "finite ?C" using assms(1) by simp
  then have m: "Min ?C \<in> ?C" using False Min_in by blast
  have "\<not> P j" if "lo \<le> j" "j < Min ?C" for j
  proof
    assume "P j"
    have "Min ?C < hi'" using m assms(4) by blast
    then have "j < hi'" using that(2) by linarith
    then have "j \<in> ?C" using that(1) \<open>P j\<close> assms(2,3) by auto
    then show False using fin that(2) Min_le by (meson leD)
  qed
  then have "find P [lo ..< hi'] = Some (Min ?C)"
    using m assms(3,4) by (auto simp: find_upt_Some)
  with False show ?thesis by (simp add: lowest_free_def Let_def)
qed

lemma free_detected: "pmm_inv s \<Longrightarrow> b \<in> free_set s \<Longrightarrow> b < unat (detected_blocks s)"
  by (auto simp: pmm_inv_def free_set_def managed_set_def)

lemma unused_free:
  "pmm_inv s \<Longrightarrow> b < unat (detected_blocks s) \<Longrightarrow> \<not> block_is_used s b \<longleftrightarrow> b \<in> free_set s"
proof -
  assume inv: "pmm_inv s" and "b < unat (detected_blocks s)"
  then have "b < PMM_MAX_BLOCKS" by (auto simp: pmm_inv_def)
  then show ?thesis using inv by (auto simp: pmm_inv_def free_set_def managed_set_def)
qed

lemma alloc_below_find:
  assumes "pmm_inv s"
  shows "find (\<lambda>b. \<not> block_is_used s b)
      [PMM_LOW_BLOCKS ..< min (frame_of limit) (unat (detected_blocks s))] =
    lowest_free PMM_LOW_BLOCKS (frame_of limit) (pool s)"
  using assms
  by (intro find_lowest) (auto simp: pool_def unused_free free_detected)

lemma alloc_user_find:
  assumes "pmm_inv s"
  shows "find (\<lambda>b. \<not> block_is_used s b \<and> block_is_usable s b)
      [PMM_USER_MIN_BLOCK ..< min (unat (detected_blocks s)) PMM_USER_MAX_BLOCKS] =
    lowest_free PMM_USER_MIN_BLOCK PMM_USER_MAX_BLOCKS (pool s)"
  using assms
  by (intro find_lowest) (auto simp: pool_def free_detected, auto simp: free_set_def managed_set_def)

lemma lowest_free_range:
  "lowest_free lo hi (pool s) = Some b \<Longrightarrow> b \<in> free_set s \<and> lo \<le> b \<and> b < hi"
proof -
  let ?C = "{b \<in> free_set s. lo \<le> b \<and> b < hi}"
  assume "lowest_free lo hi (pool s) = Some b"
  then have "?C \<noteq> {}" and b: "b = Min ?C"
    by (auto simp only: lowest_free_def pool_def Let_def frame_pool.simps split: if_splits)
  then have "Min ?C \<in> ?C" by (intro Min_in) simp_all
  then show ?thesis by (simp only: b mem_Collect_eq)
qed

text \<open>Handing out a free block, and the two ways of recording its owner.\<close>

definition occupy :: "nat \<Rightarrow> pmm \<Rightarrow> pmm" where
  "occupy b s = (mark_block_used b s)\<lparr>used_managed_blocks := used_managed_blocks s + 1\<rparr>"

lemma occupy_views [simp]:
  "block_is_used (occupy b s) c \<longleftrightarrow> c = b \<or> block_is_used s c"
  "block_is_usable (occupy b s) c \<longleftrightarrow> block_is_usable s c"
  "block_has_user_bit (occupy b s) c \<longleftrightarrow> block_has_user_bit s c"
  "user_mapped (occupy b s) c \<longleftrightarrow> user_mapped s c"
  "detected_blocks (occupy b s) = detected_blocks s"
  "managed_blocks (occupy b s) = managed_blocks s"
  "used_managed_blocks (occupy b s) = used_managed_blocks s + 1"
  by (simp_all add: occupy_def mark_defs block_views)

lemma in_use_occupy:
  assumes "b \<in> free_set s"
  shows "in_use_set (occupy b s) = insert b (in_use_set s)" and "b \<notin> in_use_set s"
    and "managed_set (occupy b s) = managed_set s"
    and "free_set (occupy b s) = free_set s - {b}"
  using assms by (auto simp: in_use_set_def free_set_def managed_set_def)

lemma inv_occupy:
  assumes inv: "pmm_inv s" and b: "b \<in> free_set s"
  shows "pmm_inv (occupy b s)"
proof -
  have "card (in_use_set s) < card (managed_set s)"
    using card_free [of s] b card_gt_0_iff [of "free_set s"] by auto
  then have "unat (used_managed_blocks s + 1) = Suc (card (in_use_set s))"
    using inv card_managed [of s] by (subst unat_inc) (auto simp: pmm_inv_def)
  then have "unat (used_managed_blocks (occupy b s)) = card (in_use_set (occupy b s))"
    using in_use_occupy(1,2) [OF b] by (simp add: occupy_views)
  with inv in_use_occupy(3) [OF b] show ?thesis by (simp add: pmm_inv_def occupy_views)
qed

lemma owner_sets:
  "managed_set (mark_block_kernel_owned b s) = managed_set s"
  "in_use_set (mark_block_kernel_owned b s) = in_use_set s"
  "free_set (mark_block_kernel_owned b s) = free_set s"
  "managed_set (mark_block_user_owned b s) = managed_set s"
  "in_use_set (mark_block_user_owned b s) = in_use_set s"
  "free_set (mark_block_user_owned b s) = free_set s"
  by (auto simp: in_use_set_def free_set_def managed_set_def mark_defs block_views)

lemma free_unowned:
  "pmm_inv s \<Longrightarrow> b \<in> free_set s \<Longrightarrow> b < PMM_USER_MAX_BLOCKS \<Longrightarrow> \<not> block_has_user_bit s b"
  by (auto simp: pmm_inv_def free_set_def)

lemma inv_kernel_owned:
  "pmm_inv s \<Longrightarrow> \<not> user_mapped s b \<Longrightarrow> pmm_inv (mark_block_kernel_owned b s)"
  unfolding pmm_inv_def owner_sets by (auto simp: mark_defs block_views)

lemma inv_user_owned:
  "pmm_inv s \<Longrightarrow> block_is_used s b \<Longrightarrow> pmm_inv (mark_block_user_owned b s)"
  unfolding pmm_inv_def owner_sets by (auto simp: mark_defs block_views)

lemma block_address:
  "b < PMM_MAX_BLOCKS \<Longrightarrow> unat (of_nat (b * 4096) :: u32) = b * 4096"
  by (subst unat_of_nat) (simp add: take_bit_eq_mod)

lemma alloc_below_refines:
  assumes inv: "pmm_inv s" and r: "pmm_alloc_block_below limit s = (a, s')"
  shows "pool_exec (Alloc_below limit) (pool s) = (a, pool s') \<and> pmm_inv s'"
proof (cases "lowest_free PMM_LOW_BLOCKS (frame_of limit) (pool s)")
  case None
  with r inv show ?thesis by (auto simp: pmm_alloc_block_below_def alloc_below_find)
next
  case (Some b)
  then have b: "b \<in> free_set s" using lowest_free_range by blast
  have s': "s' = mark_block_kernel_owned b (occupy b s)" "a = of_nat (b * 4096)"
    using r inv Some
    by (auto simp: pmm_alloc_block_below_def alloc_below_find Let_def occupy_def mark_defs)
  have nm: "\<not> user_mapped s b" using free_unowned [OF inv b] inv
    by (auto simp: pmm_inv_def user_mapped_def)
  then have "user_set s' = user_set s" "mapped_set s' = mapped_set s"
    using in_use_occupy [OF b] unfolding s' user_set_def mapped_set_def owner_sets
    by (auto simp: occupy_def mark_defs block_views)
  moreover have "pmm_inv s'" unfolding s'
    using nm by (intro inv_kernel_owned inv_occupy inv b) simp
  ultimately show ?thesis using Some s' in_use_occupy [OF b]
    by (simp add: pool_def owner_sets)
qed

lemma alloc_user_refines:
  assumes inv: "pmm_inv s" and r: "pmm_alloc_user_block s = (a, s')"
  shows "pool_exec Alloc_user (pool s) = (a, pool s') \<and> pmm_inv s'"
proof (cases "lowest_free PMM_USER_MIN_BLOCK PMM_USER_MAX_BLOCKS (pool s)")
  case None
  with r inv show ?thesis by (auto simp: pmm_alloc_user_block_def alloc_user_find)
next
  case (Some b)
  then have b: "b \<in> free_set s" "b < PMM_USER_MAX_BLOCKS" using lowest_free_range by blast+
  have s': "s' = mark_block_user_owned b (occupy b s)" "a = of_nat (b * 4096)"
    using r inv Some
    by (auto simp: pmm_alloc_user_block_def alloc_user_find Let_def occupy_def mark_defs)
  have nm: "\<not> user_mapped s b" using free_unowned [OF inv b] inv
    by (auto simp: pmm_inv_def)
  have views: "block_has_user_bit s' c \<longleftrightarrow> c = b \<or> block_has_user_bit s c"
    "user_mapped s' c \<longleftrightarrow> user_mapped s c" for c
    using b(2) by (auto simp: s' occupy_def mark_defs block_views)
  have "in_use_set s' = insert b (in_use_set s)"
    using in_use_occupy(1) [OF b(1)] by (simp only: s' owner_sets)
  then have "user_set s' = insert b (user_set s)"
    using b(2) by (auto simp: user_set_def views)
  moreover from this nm have "mapped_set s' = mapped_set s"
    by (auto simp: mapped_set_def views)
  moreover have "pmm_inv s'" unfolding s' by (intro inv_user_owned inv_occupy inv b) simp
  ultimately show ?thesis using Some s' in_use_occupy [OF b(1)]
    by (simp add: pool_def owner_sets)
qed

lemma user_owned_iff:
  "pmm_inv s \<Longrightarrow>
   pmm_block_is_user_owned a s \<longleftrightarrow> page_aligned a \<and> frame_of a \<in> user_set s"
  by (auto simp: pmm_block_is_user_owned_def Let_def page_offset_zero user_set_def in_use_set_def
      managed_set_def pmm_inv_def)

lemma map_bit_sets:
  "managed_set (s\<lparr>user_mapped_bitmap := m\<rparr>) = managed_set s"
  "in_use_set (s\<lparr>user_mapped_bitmap := m\<rparr>) = in_use_set s"
  "free_set (s\<lparr>user_mapped_bitmap := m\<rparr>) = free_set s"
  "user_set (s\<lparr>user_mapped_bitmap := m\<rparr>) = user_set s"
  by (auto simp: in_use_set_def free_set_def managed_set_def user_set_def block_views)

lemma claim_refines:
  assumes inv: "pmm_inv s" and r: "pmm_claim_user_block a s = (ok, s')"
  shows "pool_exec (Claim a) (pool s) = (of_bool ok, pool s') \<and> pmm_inv s'"
proof (cases "page_aligned a \<and> frame_of a \<in> user_set s \<and> \<not> user_mapped s (frame_of a)")
  case True
  then have s': "s' = s\<lparr>user_mapped_bitmap := bitmap_set (user_mapped_bitmap s) (frame_of a)\<rparr>" and ok
    using r inv
    by (auto simp: pmm_claim_user_block_def user_owned_iff mark_defs user_set_def split: if_splits)
  have "mapped_set s' = insert (frame_of a) (mapped_set s)"
    using True unfolding s' mapped_set_def map_bit_sets
    by (auto simp: user_mapped_def user_set_def)
  moreover have "pmm_inv s'" using inv True unfolding pmm_inv_def s' map_bit_sets
    by (auto simp: block_views user_set_def)
  ultimately show ?thesis using True \<open>ok\<close>
    by (simp add: s' pool_def map_bit_sets) (auto simp: mapped_set_def)
next
  case False
  with r inv have "\<not> ok \<and> s' = s"
    by (auto simp: pmm_claim_user_block_def user_owned_iff split: if_splits)
  with False inv show ?thesis by (auto simp: pool_def mapped_set_def)
qed

lemma release_refines:
  assumes inv: "pmm_inv s"
  shows "pool_exec (Release a) (pool s) = (0, pool (pmm_release_user_block a s)) \<and>
    pmm_inv (pmm_release_user_block a s)"
proof (cases "page_aligned a \<and> frame_of a < PMM_USER_MAX_BLOCKS")
  case True
  then have s': "pmm_release_user_block a s =
      s\<lparr>user_mapped_bitmap := bitmap_clear (user_mapped_bitmap s) (frame_of a)\<rparr>"
    by (simp add: pmm_release_user_block_def page_offset_zero mark_defs)
  have "mapped_set (pmm_release_user_block a s) = mapped_set s - {frame_of a}"
    using True unfolding s' mapped_set_def map_bit_sets by (auto simp: user_mapped_def)
  moreover have "pmm_inv (pmm_release_user_block a s)"
    using inv unfolding pmm_inv_def s' map_bit_sets by (auto simp: block_views)
  ultimately show ?thesis using True by (simp add: s' pool_def map_bit_sets)
next
  case False
  then have "pmm_release_user_block a s = s"
    by (auto simp: pmm_release_user_block_def page_offset_zero mark_defs)
  with False inv show ?thesis by (auto simp: pool_def mapped_set_def user_set_def)
qed

text \<open>Taking a block back.\<close>

definition vacate :: "nat \<Rightarrow> pmm \<Rightarrow> pmm" where
  "vacate b s =
     (mark_block_kernel_owned b (mark_block_free b s))\<lparr>used_managed_blocks := used_managed_blocks s - 1\<rparr>"

lemma vacate_views:
  "block_is_used (vacate b s) c \<longleftrightarrow> c \<noteq> b \<and> block_is_used s c"
  "block_is_usable (vacate b s) c \<longleftrightarrow> block_is_usable s c"
  "block_has_user_bit (vacate b s) c \<longleftrightarrow>
     block_has_user_bit s c \<and> (c \<noteq> b \<or> b \<ge> PMM_USER_MAX_BLOCKS)"
  "user_mapped (vacate b s) c \<longleftrightarrow> user_mapped s c"
  "detected_blocks (vacate b s) = detected_blocks s"
  "managed_blocks (vacate b s) = managed_blocks s"
  "used_managed_blocks (vacate b s) = used_managed_blocks s - 1"
  by (auto simp: vacate_def mark_defs block_views)

lemma vacate_sets:
  assumes "b \<in> in_use_set s"
  shows "managed_set (vacate b s) = managed_set s"
    and "in_use_set (vacate b s) = in_use_set s - {b}"
    and "free_set (vacate b s) = insert b (free_set s)"
    and "user_set (vacate b s) = user_set s - {b}"
  using assms by (auto simp: managed_set_def in_use_set_def free_set_def user_set_def vacate_views)

lemma inv_vacate:
  assumes inv: "pmm_inv s" and b: "b \<in> in_use_set s" and nm: "\<not> user_mapped s b"
  shows "pmm_inv (vacate b s)"
proof -
  have "0 < card (in_use_set s)" using b card_gt_0_iff [of "in_use_set s"] by auto
  then have "unat (used_managed_blocks s - 1) = card (in_use_set s - {b})"
    using inv b by (subst unat_dec) (auto simp: pmm_inv_def)
  then show ?thesis using inv nm b vacate_sets(1,2) [OF b]
    by (auto simp: pmm_inv_def vacate_views in_use_set_def managed_set_def)
qed

lemma free_refines:
  assumes inv: "pmm_inv s"
  shows "pool_exec (Free a) (pool s) = (0, pool (pmm_free_block a s)) \<and> pmm_inv (pmm_free_block a s)"
proof -
  let ?b = "frame_of a"
  have mapped: "?b \<in> mapped_set s \<longleftrightarrow> user_mapped s ?b" if "?b \<in> in_use_set s"
    using inv that by (auto simp: mapped_set_def user_set_def pmm_inv_def user_mapped_def)
  have mf: "?b \<in> managed_set s - free_set s \<longleftrightarrow> ?b \<in> in_use_set s"
    by (auto simp: free_set_def in_use_set_def)
  show ?thesis
  proof (cases "page_aligned a \<and> PMM_LOW_BLOCKS \<le> ?b \<and> ?b \<in> in_use_set s \<and> \<not> user_mapped s ?b")
    case True
    then have s': "pmm_free_block a s = vacate ?b s"
      using inv by (auto simp: pmm_free_block_def Let_def page_offset_zero vacate_def in_use_set_def
          managed_set_def pmm_inv_def mark_defs)
    have "mapped_set (vacate ?b s) = mapped_set s"
      using True vacate_sets(4) [of ?b s] by (auto simp: mapped_set_def vacate_views)
    then show ?thesis using True inv mapped mf vacate_sets [of ?b s]
      by (simp add: s' pool_def inv_vacate)
  next
    case False
    then have "pmm_free_block a s = s"
      using inv by (auto simp: pmm_free_block_def Let_def page_offset_zero in_use_set_def
          managed_set_def pmm_inv_def)
    then show ?thesis using False inv mapped mf by (auto simp: pool_def)
  qed
qed

lemma pmm_exec_refines:
  assumes inv: "pmm_inv s" and r: "pmm_exec oper s = (r, s')"
  shows "pool_exec oper (pool s) = (r, pool s') \<and> pmm_inv s'"
proof (cases oper)
  case (Alloc_below limit)
  with r alloc_below_refines [OF inv, of limit] show ?thesis by (simp del: pool_exec.simps)
next
  case Alloc_user
  with r alloc_user_refines [OF inv] show ?thesis by (simp del: pool_exec.simps)
next
  case (Claim a)
  with r claim_refines [OF inv, of a] show ?thesis
    by (cases "pmm_claim_user_block a s") (auto simp del: pool_exec.simps)
next
  case (Release a)
  with r release_refines [OF inv, of a] show ?thesis by (auto simp del: pool_exec.simps)
next
  case (Free a)
  with r free_refines [OF inv, of a] show ?thesis by (auto simp del: pool_exec.simps)
qed

section \<open>Reachable states and sequences of calls\<close>

inductive pmm_reachable :: "u32 \<Rightarrow> u32 \<Rightarrow> boot_info \<Rightarrow> pmm \<Rightarrow> bool" for ks ke info where
  boot: "pmm_init ks ke (Some info) s0 = (True, s) \<Longrightarrow> pmm_reachable ks ke info s"
| call: "pmm_reachable ks ke info s \<Longrightarrow> pmm_exec oper s = (r, s') \<Longrightarrow> pmm_reachable ks ke info s'"

fun pmm_run :: "pmm_op list \<Rightarrow> pmm \<Rightarrow> u32 list \<times> pmm" where
  "pmm_run [] s = ([], s)"
| "pmm_run (oper # ops) s =
     (let (r, s1) = pmm_exec oper s; (rs, s2) = pmm_run ops s1 in (r # rs, s2))"

fun pool_run :: "pmm_op list \<Rightarrow> frame_pool \<Rightarrow> u32 list \<times> frame_pool" where
  "pool_run [] F = ([], F)"
| "pool_run (oper # ops) F =
     (let (r, F1) = pool_exec oper F; (rs, F2) = pool_run ops F1 in (r # rs, F2))"

lemma reachable_inv: "pmm_reachable ks ke info s \<Longrightarrow> pmm_inv s"
proof (induction rule: pmm_reachable.induct)
  case (boot s0 s)
  then show ?case using pmm_init_managed(1) by (auto simp: pmm_boot_inv_def)
qed (use pmm_exec_refines in blast)

lemma pmm_run_refines:
  "pmm_inv s \<Longrightarrow> pmm_run ops s = (rs, s') \<Longrightarrow> pool_run ops (pool s) = (rs, pool s') \<and> pmm_inv s'"
proof (induction ops arbitrary: s rs)
  case (Cons oper ops)
  obtain r s1 rs' where 1: "pmm_exec oper s = (r, s1)" "pmm_run ops s1 = (rs', s')" "rs = r # rs'"
    using Cons.prems(2) by (auto simp: Let_def split: prod.splits)
  with pmm_exec_refines [OF Cons.prems(1) 1(1)] Cons.IH [of s1 rs'] show ?case by simp
qed simp

lemma pool_managed_exec: "pool_managed (snd (pool_exec oper F)) = pool_managed F"
  by (cases oper) (auto split: option.splits)

lemma reachable_managed: "pmm_reachable ks ke info s \<Longrightarrow> managed_set s = offered ks ke info"
proof (induction rule: pmm_reachable.induct)
  case (boot s0 s)
  then show ?case by (rule pmm_init_managed(2))
next
  case (call s oper r s')
  then show ?case
    using pmm_exec_refines [OF reachable_inv call(2)] pool_managed_exec [of oper "pool s"]
    by (simp add: pool_def)
qed

definition is_alloc :: "pmm_op \<Rightarrow> bool" where
  "is_alloc oper = (case oper of Alloc_below _ \<Rightarrow> True | Alloc_user \<Rightarrow> True | _ \<Rightarrow> False)"

lemma pool_alloc:
  "pool_exec oper F = (a, F') \<Longrightarrow> is_alloc oper \<Longrightarrow> a \<noteq> 0 \<Longrightarrow>
   \<exists>lo hi b. lowest_free lo hi F = Some b \<and> a = of_nat (b * 4096) \<and>
     pool_free F' = pool_free F - {b}"
  by (cases oper) (auto simp: is_alloc_def split: option.splits, blast+)

lemma pool_stays_taken:
  "pool_exec oper F = (x, F') \<Longrightarrow> b \<notin> pool_free F \<Longrightarrow>
   (\<And>a. oper = Free a \<Longrightarrow> page_aligned a \<Longrightarrow> frame_of a \<noteq> b) \<Longrightarrow> b \<notin> pool_free F'"
  by (cases oper) (auto split: option.splits if_splits)

lemma pool_free_pool [simp]: "pool_free (pool s) = free_set s"
  by (simp add: pool_def)

lemma alloc_result:
  assumes inv: "pmm_inv s" and r: "pmm_exec oper s = (a, s')" and al: "is_alloc oper" "a \<noteq> 0"
  shows "frame_of a \<in> free_set s" "frame_of a \<notin> free_set s'" "page_aligned a"
proof -
  obtain lo hi b where b: "lowest_free lo hi (pool s) = Some b" "a = of_nat (b * 4096)"
    and f: "pool_free (pool s') = pool_free (pool s) - {b}"
    using pmm_exec_refines [OF inv r] al pool_alloc by blast
  have free: "b \<in> free_set s" using lowest_free_range [OF b(1)] by simp
  then have "b < PMM_MAX_BLOCKS" by (simp add: free_set_def managed_set_def)
  then have a: "unat a = b * 4096" using b(2) block_address by blast
  then show "page_aligned a" by simp
  from a free f show "frame_of a \<in> free_set s" "frame_of a \<notin> free_set s'"
    by auto
qed

lemma stays_taken:
  assumes inv: "pmm_inv s" and r: "pmm_exec oper s = (x, s')"
    and "b \<notin> free_set s" and "\<And>a. oper = Free a \<Longrightarrow> page_aligned a \<Longrightarrow> frame_of a \<noteq> b"
  shows "b \<notin> free_set s'"
  using pmm_exec_refines [OF inv r] assms(3,4) pool_stays_taken [of oper "pool s" x "pool s'" b]
  by simp

lemma run_never_returns:
  assumes "pmm_inv s" and "pmm_run ops s = (rs, s')" and "frame_of a \<notin> free_set s"
    and "page_aligned a" and "Free a \<notin> set ops" and "a \<noteq> 0"
  shows "(oper, a) \<in> set (zip ops rs) \<Longrightarrow> \<not> is_alloc oper"
  using assms
proof (induction ops arbitrary: s rs)
  case (Cons op1 ops)
  obtain r s1 rs' where 1: "pmm_exec op1 s = (r, s1)" "pmm_run ops s1 = (rs', s')" "rs = r # rs'"
    using Cons.prems(3) by (auto simp: Let_def split: prod.splits)
  have same: "x = a" if "page_aligned x" "frame_of x = frame_of a" for x
    using that Cons.prems(5) by (metis dvd_div_mult_self word_unat_eq_iff)
  have "frame_of a \<notin> free_set s1"
    using Cons.prems same by (intro stays_taken [OF Cons.prems(2) 1(1)]) auto
  then show ?case
    using Cons.prems Cons.IH [of rs' s1] 1 pmm_exec_refines [OF Cons.prems(2) 1(1)]
      alloc_result(1) [OF Cons.prems(2) 1(1)] by auto
qed simp

section \<open>Properties\<close>

text \<open>C3: Initialisation succeeds exactly when the boot block is valid, the kernel image is not
  empty and at least one block is fit to be handed out; the managed blocks are then exactly the
  blocks that lie inside an active usable E820 range, touch no active reserved range, and touch
  neither the first MiB, nor the kernel image, nor the fixed framebuffer. All of them are free.\<close>

theorem pmm_init_exact:
  "(case pmm_init ks ke (Some info) s of (ok, s') \<Rightarrow>
     (ok \<longleftrightarrow> boot_info_is_valid (Some info) \<and> ks < ke \<and> offered ks ke info \<noteq> {}) \<and>
     (if ok then pool s' = \<lparr>pool_managed = offered ks ke info, pool_free = offered ks ke info,
                             pool_user = {}, pool_mapped = {}\<rparr> \<and> pmm_inv s'
      else True))"
proof (cases "boot_info_is_valid (Some info) \<and> ks < ke")
  case True
  then obtain s1 where s1: "pmm_init ks ke (Some info) s = (managed_set s1 \<noteq> {}, s1)"
    "pmm_boot_inv s1" "managed_set s1 = offered ks ke info"
    using pmm_init_boots by metis
  then have "free_set s1 = managed_set s1" "user_set s1 = {}" "mapped_set s1 = {}"
    by (auto simp: pmm_boot_inv_def free_set_def in_use_set_def user_set_def mapped_set_def)
  with s1 True show ?thesis by (simp add: pool_def pmm_boot_inv_def)
qed (auto simp: pmm_init_def)

text \<open>A boot block with a usable range of sixteen blocks, whose ninth block is partly reserved,
  and a usable range of one block at 4 MiB: the kernel of the examples occupies the first four
  blocks.\<close>

definition boot_example :: boot_info where
  "boot_example = \<lparr>bi_magic = BOOT_INFO_MAGIC, boot_drive = 0x80, memory_map_entry_count = 3,
     memory_map_entry_size = 24, vga_font_address = 0, video_flags = 0,
     memory_map =
       [\<lparr>base_low = 0x00100000, base_high = 0, length_low = 0x00010000, length_high = 0,
          entry_type = 1, attributes = 1\<rparr>,
        \<lparr>base_low = 0x00108800, base_high = 0, length_low = 0x800, length_high = 0,
          entry_type = 2, attributes = 1\<rparr>,
        \<lparr>base_low = 0x00400000, base_high = 0, length_low = 0x1000, length_high = 0,
          entry_type = 1, attributes = 1\<rparr>],
     acpi_rsdp_address = 0\<rparr>"

lemma boot_example_offers:
  "boot_info_is_valid (Some boot_example)"
  "260 \<in> offered 0x100000 0x104000 boot_example"
  "1024 \<in> offered 0x100000 0x104000 boot_example"
  by (simp_all add: boot_example_def boot_info_is_valid_def boot_header_is_valid_def
      active_entries_def boot_entry_is_valid_def entry_base_def entry_length_def offered_def
      boot_reserved_def block_touches_def block_inside_def entry_is_usable_def entry_is_reserved_def)

lemma example_reachable:
  "\<exists>s. pmm_reachable 0x100000 0x104000 boot_example s \<and> 260 \<in> free_set s \<and> 1024 \<in> free_set s"
proof -
  obtain s1 where s1: "pmm_init 0x100000 0x104000 (Some boot_example) undefined =
      (managed_set s1 \<noteq> {}, s1)"
    "pmm_boot_inv s1" "managed_set s1 = offered 0x100000 0x104000 boot_example"
    using pmm_init_boots [OF boot_example_offers(1), of "0x100000" "0x104000" undefined] by auto
  then have m: "260 \<in> managed_set s1" "1024 \<in> managed_set s1" using boot_example_offers(2,3) by auto
  then have "260 \<in> free_set s1" "1024 \<in> free_set s1"
    using s1(2) by (auto simp: pmm_boot_inv_def free_set_def in_use_set_def)
  moreover have "pmm_init 0x100000 0x104000 (Some boot_example) undefined = (True, s1)"
    using s1(1) m by auto
  then have "pmm_reachable 0x100000 0x104000 boot_example s1" by (rule pmm_reachable.boot)
  ultimately show ?thesis by blast
qed

text \<open>Allocation succeeds whenever a suitable block is free.\<close>

lemma lowest_free_exists:
  "b \<in> free_set s \<Longrightarrow> lo \<le> b \<Longrightarrow> b < hi \<Longrightarrow> \<exists>c. lowest_free lo hi (pool s) = Some c"
  by (auto simp: lowest_free_def Let_def)

lemma alloc_nonzero:
  assumes "pmm_inv s" and "b \<in> free_set s" and "PMM_LOW_BLOCKS \<le> b" and "b < frame_of limit"
    and "pmm_exec (Alloc_below limit) s = (a, s1)"
  shows "a \<noteq> 0"
proof -
  obtain c where c: "lowest_free PMM_LOW_BLOCKS (frame_of limit) (pool s) = Some c"
    using lowest_free_exists [OF assms(2-4)] by blast
  have "c < PMM_MAX_BLOCKS" "PMM_LOW_BLOCKS \<le> c"
    using lowest_free_range [OF c] by (auto simp: free_set_def managed_set_def)
  moreover have "a = of_nat (c * 4096)"
    using pmm_exec_refines [OF assms(1,5)] c by simp
  ultimately show ?thesis using block_address [of c] by (metis le_zero_eq mult_is_0 unsigned_0 zero_neq_numeral)
qed

lemma user_block_cycle:
  assumes inv: "pmm_inv s" and f: "1024 \<in> free_set s"
  shows "\<exists>s1 s2. pmm_exec Alloc_user s = (0x400000, s1) \<and> pmm_exec (Claim 0x400000) s1 = (1, s2) \<and>
    pmm_user_block_is_mapped 0x400000 s2"
proof -
  obtain c where c: "lowest_free 1024 PMM_USER_MAX_BLOCKS (pool s) = Some c"
    using lowest_free_exists [OF f] by fastforce
  have "c \<le> 1024" using c f by (auto simp: lowest_free_def Let_def split: if_splits intro!: Min_le)
  then have "c = 1024" using lowest_free_range [OF c] by simp
  obtain a s1 where a: "pmm_exec Alloc_user s = (a, s1)" by fastforce
  have 1: "a = 0x400000" "pmm_inv s1" "user_set s1 = insert 1024 (user_set s)"
    "mapped_set s1 = mapped_set s"
    using pmm_exec_refines [OF inv a] c \<open>c = 1024\<close> by (auto simp: pool_def)
  have "1024 \<notin> mapped_set s"
    using f by (auto simp: mapped_set_def user_set_def in_use_set_def free_set_def)
  obtain r s2 where r: "pmm_exec (Claim 0x400000) s1 = (r, s2)" by fastforce
  have 2: "r = 1" "pmm_inv s2" "user_set s2 = user_set s1" "1024 \<in> mapped_set s2"
    using pmm_exec_refines [OF 1(2) r] 1 \<open>1024 \<notin> mapped_set s\<close> by (auto simp: pool_def)
  then have "pmm_user_block_is_mapped 0x400000 s2"
    using 1(3) user_owned_iff [OF 2(2)] by (auto simp: pmm_user_block_is_mapped_def mapped_set_def)
  with a r 1(1) 2(1) show ?thesis by auto
qed

text \<open>C2: The bitmap implementation refines the abstract frame pool: along every sequence of
  calls from a reachable state the results are those of the pool, the pool of the final
  state is the pool's final state, and the counters reported to clients are the numbers of
  managed, used and free frames.\<close>

theorem pmm_refines_pool:
  assumes "pmm_reachable ks ke info s" and "pmm_run ops s = (rs, s')"
  shows "pool_run ops (pool s) = (rs, pool s') \<and>
    unat (pmm_total_blocks s') = card (pool_managed (pool s')) \<and>
    unat (pmm_free_blocks s') = card (pool_free (pool s')) \<and>
    unat (pmm_used_blocks s') = card (pool_managed (pool s') - pool_free (pool s'))"
proof -
  have r: "pool_run ops (pool s) = (rs, pool s')" and inv: "pmm_inv s'"
    using pmm_run_refines [OF reachable_inv [OF assms(1)] assms(2)] by auto
  have c: "unat (managed_blocks s') = card (managed_set s')"
    "unat (used_managed_blocks s') = card (in_use_set s')" using inv by (auto simp: pmm_inv_def)
  have "used_managed_blocks s' \<le> managed_blocks s'"
    by (simp add: word_le_nat_alt c card_in_use)
  then have "unat (pmm_free_blocks s') = card (managed_set s') - card (in_use_set s')"
    by (simp add: pmm_free_blocks_def unat_diff c)
  moreover have "managed_set s' - free_set s' = in_use_set s'"
    by (auto simp: in_use_set_def free_set_def)
  ultimately show ?thesis using r card_free [of s']
    by (simp add: pool_def pmm_used_blocks_def pmm_total_blocks_def c)
qed

theorem pmm_refines_pool_witness:
  "\<exists>s s' rs. pmm_reachable 0x100000 0x104000 boot_example s \<and>
     pmm_run [Alloc_below 0x400000, Free 0x104000] s = (rs, s') \<and>
     pool_run [Alloc_below 0x400000, Free 0x104000] (pool s) = (rs, pool s')"
proof -
  obtain s where s: "pmm_reachable 0x100000 0x104000 boot_example s" using example_reachable by blast
  obtain rs s' where r: "pmm_run [Alloc_below 0x400000, Free 0x104000] s = (rs, s')"
    by fastforce
  show ?thesis using s r pmm_refines_pool [OF s r] by blast
qed

text \<open>C10: No block is handed out twice: once an allocation returned the address \<open>a\<close>, no later
  allocation returns \<open>a\<close> again as long as nobody frees it, whatever else is called.\<close>

theorem pmm_no_double_allocation:
  assumes "pmm_reachable ks ke info s"
    and "pmm_exec oper s = (a, s1)" and "is_alloc oper" and "a \<noteq> 0"
    and "pmm_run ops s1 = (rs, s2)" and "Free a \<notin> set ops"
  shows "\<forall>(o', r) \<in> set (zip ops rs). is_alloc o' \<longrightarrow> r \<noteq> a"
proof -
  note inv = reachable_inv [OF assms(1)]
  have "pmm_inv s1" using pmm_exec_refines [OF inv assms(2)] by blast
  then show ?thesis
    using run_never_returns [of s1 ops rs s2 a] alloc_result(2,3) [OF inv assms(2-4)] assms by blast
qed

theorem pmm_no_double_allocation_witness:
  "\<exists>s a s1. pmm_reachable 0x100000 0x104000 boot_example s \<and>
     pmm_exec (Alloc_below 0x400000) s = (a, s1) \<and> a \<noteq> 0 \<and>
     (\<forall>(o', r) \<in> set (zip [Alloc_below 0x400000] (fst (pmm_run [Alloc_below 0x400000] s1))).
        is_alloc o' \<longrightarrow> r \<noteq> a)"
proof -
  obtain s where s: "pmm_reachable 0x100000 0x104000 boot_example s" and f: "260 \<in> free_set s"
    using example_reachable by blast
  obtain a s1 where a: "pmm_exec (Alloc_below 0x400000) s = (a, s1)" by fastforce
  obtain rs s2 where r: "pmm_run [Alloc_below 0x400000] s1 = (rs, s2)" by fastforce
  have "a \<noteq> 0"
    using alloc_nonzero [OF reachable_inv [OF s] f _ _ a] by simp
  then show ?thesis
    using s a r pmm_no_double_allocation [OF s a _ _ r] by (auto simp: is_alloc_def)
qed

text \<open>C16: A frame a process has mapped is exclusive: while it is mapped it cannot be claimed
  again, freeing it changes nothing, and no allocation returns it.\<close>

theorem pmm_mapped_exclusive:
  assumes "pmm_reachable ks ke info s" and "pmm_user_block_is_mapped a s"
  shows "pmm_claim_user_block a s = (False, s) \<and> pmm_free_block a s = s \<and>
    (\<forall>oper r s'. is_alloc oper \<longrightarrow> pmm_exec oper s = (r, s') \<longrightarrow> r \<noteq> a)"
proof -
  note inv = reachable_inv [OF assms(1)]
  have own: "page_aligned a" "frame_of a \<in> user_set s" "user_mapped s (frame_of a)"
    using assms(2) user_owned_iff [OF inv] by (auto simp: pmm_user_block_is_mapped_def)
  have "r \<noteq> a" if "is_alloc oper" "pmm_exec oper s = (r, s')" for oper r s'
  proof
    assume "r = a"
    have "frame_of a \<notin> free_set s" using own(2) by (auto simp: user_set_def in_use_set_def free_set_def)
    moreover have "a \<noteq> 0"
      using own(2) reachable_managed [OF assms(1)]
      by (auto simp: user_set_def in_use_set_def offered_def boot_reserved_def)
    ultimately show False using alloc_result(1) [OF inv that(2,1)] \<open>r = a\<close> by auto
  qed
  then show ?thesis using own
    by (auto simp: pmm_claim_user_block_def pmm_free_block_def Let_def)
qed

theorem pmm_mapped_exclusive_witness:
  "\<exists>s. pmm_reachable 0x100000 0x104000 boot_example s \<and> pmm_user_block_is_mapped 0x400000 s \<and>
     pmm_claim_user_block 0x400000 s = (False, s) \<and> pmm_free_block 0x400000 s = s"
proof -
  obtain s where s: "pmm_reachable 0x100000 0x104000 boot_example s" and f: "1024 \<in> free_set s"
    using example_reachable by blast
  obtain s1 s2 where "pmm_exec Alloc_user s = (0x400000, s1)" "pmm_exec (Claim 0x400000) s1 = (1, s2)"
    and m: "pmm_user_block_is_mapped 0x400000 s2"
    using user_block_cycle [OF reachable_inv [OF s] f] by blast
  then have "pmm_reachable 0x100000 0x104000 boot_example s2"
    using s pmm_reachable.call by meson
  then show ?thesis using m pmm_mapped_exclusive by blast
qed

end
