(* ===== verification/Ring.thy ===== *)
theory Ring
  imports Prelude
begin

text \<open>
  Circular buffers. The message queue (\<open>kernel/ipc.c\<close>) and the keyboard buffer
  (\<open>drivers/keyboard.c\<close>) both keep their elements in a fixed array between a tail and a head
  index that wrap around. This theory relates such an array to the list of its elements,
  oldest first, and states the contract of a bounded first-in first-out queue that both
  components are shown to meet.
\<close>

section \<open>The list in a ring\<close>

definition ring_list :: "nat \<Rightarrow> 'a list \<Rightarrow> nat \<Rightarrow> nat \<Rightarrow> 'a list" where
  "ring_list n buf tl_ix cnt = map (\<lambda>i. buf ! ((tl_ix + i) mod n)) [0 ..< cnt]"

lemma length_ring_list [simp]: "length (ring_list n buf t c) = c"
  by (simp add: ring_list_def)

lemma nth_ring_list [simp]: "i < c \<Longrightarrow> ring_list n buf t c ! i = buf ! ((t + i) mod n)"
  by (simp add: ring_list_def)

lemma ring_position_inj:
  assumes "i < n" "j < n" "(t + i) mod n = (t + j) mod n"
  shows "i = (j::nat)"
proof -
  have "i = j" if "i \<le> j" "j < n" "(t + i) mod n = (t + j) mod n" for i j
  proof -
    have "n dvd (t + j) - (t + i)"
      using that(3) that(1) by (metis mod_eq_dvd_iff_nat add_le_mono le_refl)
    then show ?thesis using that(1,2) by (auto dest!: dvd_imp_le)
  qed
  then show ?thesis using assms by (metis nat_le_linear)
qed

text \<open>Writing one slot of the ring updates one element of the list.\<close>

lemma ring_list_update:
  assumes "length buf = n" "k < n" "c \<le> n"
  shows "ring_list n (buf[(t + k) mod n := x]) t c = (ring_list n buf t c)[k := x]"
proof (rule nth_equalityI)
  fix i assume "i < length (ring_list n (buf[(t + k) mod n := x]) t c)"
  then have i: "i < c" by simp
  have "(t + k) mod n < n" using assms(2) by simp
  moreover have "(t + i) mod n = (t + k) mod n \<longleftrightarrow> i = k"
    using ring_position_inj [of i n k t] assms i by auto
  ultimately show "ring_list n (buf[(t + k) mod n := x]) t c ! i = (ring_list n buf t c)[k := x] ! i"
    using i assms(1) by (auto simp: nth_list_update)
qed simp

lemma ring_list_Suc: "ring_list n buf t (Suc c) = ring_list n buf t c @ [buf ! ((t + c) mod n)]"
  by (simp add: ring_list_def)

lemma ring_push:
  assumes "length buf = n" "c < n"
  shows "ring_list n (buf[(t + c) mod n := x]) t (Suc c) = ring_list n buf t c @ [x]"
proof -
  have "(t + c) mod n < n" using assms(2) by simp
  then show ?thesis
    using ring_list_update [OF assms(1,2), of c t x] assms
    by (simp add: ring_list_Suc list_update_beyond)
qed

lemma ring_pop:
  assumes "0 < c" "c \<le> n"
  shows "ring_list n buf ((t + 1) mod n) (c - 1) = tl (ring_list n buf t c)"
proof (rule nth_equalityI)
  fix i assume "i < length (ring_list n buf ((t + 1) mod n) (c - 1))"
  then show "ring_list n buf ((t + 1) mod n) (c - 1) ! i = tl (ring_list n buf t c) ! i"
    by (simp add: nth_tl mod_add_left_eq)
qed simp

lemma ring_hd: "0 < c \<Longrightarrow> t < n \<Longrightarrow> hd (ring_list n buf t c) = buf ! t"
  by (subst hd_conv_nth) (auto simp flip: length_greater_0_conv)

lemma ring_take: "c \<le> d \<Longrightarrow> ring_list n buf t c = take c (ring_list n buf t d)"
  by (rule nth_equalityI) simp_all

section \<open>Removing an interior element\<close>

text \<open>
  Two ways to close the gap at position \<open>k\<close>: move the earlier elements up by one and drop the
  first, or move the later elements down by one and drop the last.
\<close>

abbreviation remove_nth :: "nat \<Rightarrow> 'a list \<Rightarrow> 'a list" where
  "remove_nth k xs \<equiv> take k xs @ drop (Suc k) xs"

fun shift_up :: "nat \<Rightarrow> 'a list \<Rightarrow> 'a list" where
  "shift_up 0 xs = xs"
| "shift_up (Suc k) xs = shift_up k (xs[Suc k := xs ! k])"

lemma shift_up_length [simp]: "length (shift_up k xs) = length xs"
  by (induction k xs rule: shift_up.induct) simp_all

lemma shift_up_nth:
  "k < length xs \<Longrightarrow> i < length xs \<Longrightarrow>
   shift_up k xs ! i = (if 0 < i \<and> i \<le> k then xs ! (i - 1) else xs ! i)"
proof (induction k xs rule: shift_up.induct)
  case (2 k xs)
  then show ?case by (auto simp: nth_list_update le_Suc_eq)
qed simp

lemma tl_shift_up:
  assumes "k < length xs"
  shows "tl (shift_up k xs) = remove_nth k xs"
proof (rule nth_equalityI)
  fix i assume "i < length (tl (shift_up k xs))"
  then show "tl (shift_up k xs) ! i = remove_nth k xs ! i"
    using assms by (auto simp: nth_tl shift_up_nth nth_append min_def)
qed (use assms in simp)

fun shift_down :: "nat list \<Rightarrow> 'a list \<Rightarrow> 'a list" where
  "shift_down [] xs = xs"
| "shift_down (k # ks) xs = shift_down ks (xs[k := xs ! Suc k])"

lemma shift_down_length [simp]: "length (shift_down ks xs) = length xs"
  by (induction ks xs rule: shift_down.induct) simp_all

lemma shift_down_nth:
  "m < length xs \<Longrightarrow> i < length xs \<Longrightarrow>
   shift_down [k ..< m] xs ! i = (if k \<le> i \<and> i < m then xs ! Suc i else xs ! i)"
proof (induction "m - k" arbitrary: k xs)
  case (Suc d)
  then have "[k ..< m] = k # [Suc k ..< m]" by (simp add: upt_conv_Cons)
  with Suc show ?case by (auto simp: nth_list_update)
qed auto

lemma butlast_shift_down:
  assumes "k < length xs"
  shows "take (length xs - 1) (shift_down [k ..< length xs - 1] xs) = remove_nth k xs"
proof (rule nth_equalityI)
  fix i assume "i < length (take (length xs - 1) (shift_down [k ..< length xs - 1] xs))"
  then have i: "i < length xs - 1" by simp
  then have "take (length xs - 1) (shift_down [k ..< length xs - 1] xs) ! i =
      (if k \<le> i then xs ! Suc i else xs ! i)"
    using shift_down_nth [of "length xs - 1" xs i k] by auto
  then show "take (length xs - 1) (shift_down [k ..< length xs - 1] xs) ! i = remove_nth k xs ! i"
    using assms i by (auto simp: nth_append min_def)
qed (use assms in simp)

section \<open>The contract of a bounded first-in first-out queue\<close>

datatype 'a queue_op = Push 'a | Pop

locale fifo_queue =
  fixes push :: "'a \<Rightarrow> 'q \<Rightarrow> bool \<times> 'q"
    and pop :: "'q \<Rightarrow> 'a option \<times> 'q"
    and contents :: "'q \<Rightarrow> 'a list"
    and ok :: "'q \<Rightarrow> bool"
    and admissible :: "'a \<Rightarrow> bool"
    and cap :: nat
  assumes push_law: "ok q \<Longrightarrow> push x q = (b, q') \<Longrightarrow>
      ok q' \<and> (b \<longleftrightarrow> admissible x \<and> length (contents q) < cap) \<and>
      contents q' = (if b then contents q @ [x] else contents q)"
    and pop_law: "ok q \<Longrightarrow> pop q = (r, q') \<Longrightarrow>
      ok q' \<and> r = (if contents q = [] then None else Some (hd (contents q))) \<and>
      contents q' = tl (contents q)"
begin

text \<open>The elements accepted and the elements delivered along a sequence of calls.\<close>

fun run :: "'a queue_op list \<Rightarrow> 'q \<Rightarrow> 'a list \<times> 'a list \<times> 'q" where
  "run [] q = ([], [], q)"
| "run (Push x # os) q =
     (let (b, q1) = push x q; (acc, del, q2) = run os q1 in (if b then x # acc else acc, del, q2))"
| "run (Pop # os) q =
     (let (r, q1) = pop q; (acc, del, q2) = run os q1
      in (acc, case r of None \<Rightarrow> del | Some x \<Rightarrow> x # del, q2))"

text \<open>Nothing is lost, duplicated or reordered, and the bound is kept.\<close>

lemma delivery:
  assumes "ok q" and "run os q = (acc, del, q')"
  shows "ok q' \<and> contents q @ acc = del @ contents q'"
  using assms
proof (induction os arbitrary: q acc del)
  case (Cons opr os)
  show ?case
  proof (cases opr)
    case (Push x)
    obtain b q1 where b: "push x q = (b, q1)" by fastforce
    obtain acc' del' where r: "run os q1 = (acc', del', q')" "acc = (if b then x # acc' else acc')"
        "del = del'"
      using Cons.prems(2) Push b by (auto split: prod.splits)
    with push_law [OF Cons.prems(1) b] Cons.IH [of q1 acc' del'] show ?thesis
      by (auto split: if_splits)
  next
    case Pop
    obtain x q1 where x: "pop q = (x, q1)" by fastforce
    obtain del' where r: "run os q1 = (acc, del', q')"
        "del = (case x of None \<Rightarrow> del' | Some y \<Rightarrow> y # del')"
      using Cons.prems(2) Pop x by (auto split: prod.splits)
    with pop_law [OF Cons.prems(1) x] Cons.IH [of q1 acc del'] show ?thesis
      by (cases "contents q") auto
  qed
qed simp

lemma bounded:
  assumes "ok q" and "length (contents q) \<le> cap" and "run os q = (acc, del, q')"
  shows "length (contents q') \<le> cap"
  using assms
proof (induction os arbitrary: q acc del)
  case (Cons opr os)
  show ?case
  proof (cases opr)
    case (Push x)
    obtain b q1 where b: "push x q = (b, q1)" by fastforce
    obtain acc' where "run os q1 = (acc', del, q')"
      using Cons.prems(3) Push b by (auto split: prod.splits)
    then show ?thesis using push_law [OF Cons.prems(1) b] Cons.IH [of q1] Cons.prems(2)
      by (auto split: if_splits)
  next
    case Pop
    obtain x q1 where x: "pop q = (x, q1)" by fastforce
    obtain del' where "run os q1 = (acc, del', q')"
      using Cons.prems(3) Pop x by (auto split: prod.splits)
    then show ?thesis using pop_law [OF Cons.prems(1) x] Cons.IH [of q1] Cons.prems(2) by auto
  qed
qed simp

end

end
