(* ===== verification/Tasks.thy ===== *)
theory Tasks
  imports Prelude
begin

text \<open>
  The task table of the scheduler (\<open>process/scheduler.c\<close>): task records, slots, identifiers,
  the run queue and the blocked/runnable transitions. The operations that map or unmap kernel
  stacks (adding a task, reaping, the context switch itself) work on the page tables and are
  not part of this theory. The interrupt flag is saved and restored around each operation, so
  each one is atomic.
\<close>

section \<open>State\<close>

datatype task_state = TASK_RUNNABLE | TASK_TERMINATED | TASK_BLOCKED
datatype task_mode = TASK_KERNEL | TASK_USER

text \<open>Pointers (\<open>entry\<close>, \<open>frame\<close>) are 32-bit addresses, zero when null.\<close>

record scheduler_task =
  name :: bytes
  entry :: u32
  frame :: u32
  stack_base :: u32
  stack_frames :: "u32 list"
  stack_canary :: u32
  user_entry :: u32
  user_stack_top :: u32
  address_space :: u32
  mode :: task_mode
  priority :: u32
  ticks_left :: u32
  switches :: u32
  state :: task_state
  task_id :: u32

record scheduler =
  tasks :: "scheduler_task list"
  task_count :: nat
  current_task :: nat
  scheduler_started :: bool
  pending_reap_mask :: u32
  stack_reap_count :: u32
  last_added_task :: nat
  slot_generation :: "u32 list"

abbreviation SCHEDULER_MAX_TASKS :: nat where "SCHEDULER_MAX_TASKS \<equiv> 16"
abbreviation SCHEDULER_STACK_PAGES :: nat where "SCHEDULER_STACK_PAGES \<equiv> 8"
abbreviation SCHEDULER_DEFAULT_PRIORITY :: u32 where "SCHEDULER_DEFAULT_PRIORITY \<equiv> 1"
abbreviation SCHEDULER_MAX_PRIORITY :: u32 where "SCHEDULER_MAX_PRIORITY \<equiv> 8"
abbreviation SCHEDULER_MAX_GENERATION :: u32 where "SCHEDULER_MAX_GENERATION \<equiv> 0x00FFFFFF"
abbreviation SCHEDULER_NAME_MAX :: nat where "SCHEDULER_NAME_MAX \<equiv> 16"

definition sched_wf :: "scheduler \<Rightarrow> bool" where
  "sched_wf s \<longleftrightarrow> length (tasks s) = SCHEDULER_MAX_TASKS \<and>
     length (slot_generation s) = SCHEDULER_MAX_TASKS \<and>
     0 < task_count s \<and> task_count s \<le> SCHEDULER_MAX_TASKS \<and> current_task s < task_count s"

abbreviation task_at :: "scheduler \<Rightarrow> nat \<Rightarrow> scheduler_task" where
  "task_at s i \<equiv> tasks s ! i"

definition runnable :: "scheduler_task \<Rightarrow> bool" where
  "runnable t \<longleftrightarrow> state t = TASK_RUNNABLE \<and> frame t \<noteq> 0"

section \<open>Operations\<close>

text \<open>
  \<open>copy_task_name\<close> with a terminated source string, given by the bytes before its terminator:
  the destination keeps what lies beyond the terminator it writes. The first component is
  the return value. When the source is too long its first fifteen bytes have been stored.
\<close>

definition copy_task_name :: "bytes \<Rightarrow> bytes option \<Rightarrow> bool \<times> bytes" where
  "copy_task_name destination source =
     (case source of None \<Rightarrow> (False, destination)
      | Some src \<Rightarrow>
          let index = min (length src) (SCHEDULER_NAME_MAX - 1);
              copied = take index src @ drop index destination
          in if index < length src then (False, copied) else (True, copied[index := 0]))"

definition clear_task :: "scheduler_task \<Rightarrow> scheduler_task" where
  "clear_task t =
     \<lparr>name = replicate SCHEDULER_NAME_MAX 0, entry = 0, frame = 0, stack_base = 0,
      stack_frames = replicate SCHEDULER_STACK_PAGES 0, stack_canary = 0, user_entry = 0,
      user_stack_top = 0, address_space = 0, mode = TASK_KERNEL,
      priority = SCHEDULER_DEFAULT_PRIORITY, ticks_left = SCHEDULER_DEFAULT_PRIORITY,
      switches = 0, state = TASK_TERMINATED, task_id = 0\<rparr>"

definition slot_is_reusable :: "scheduler \<Rightarrow> nat \<Rightarrow> bool" where
  "slot_is_reusable s index \<longleftrightarrow>
     pending_reap_mask s AND push_bit index 1 = 0 \<and>
     state (task_at s index) = TASK_TERMINATED \<and>
     stack_base (task_at s index) = 0 \<and> frame (task_at s index) = 0"

definition find_task_slot :: "scheduler \<Rightarrow> nat" where
  "find_task_slot s =
     (case find (slot_is_reusable s) [1 ..< task_count s] of
        Some index \<Rightarrow> index
      | None \<Rightarrow> if task_count s < SCHEDULER_MAX_TASKS then task_count s else SCHEDULER_MAX_TASKS)"

definition find_next_runnable :: "scheduler \<Rightarrow> nat" where
  "find_next_runnable s =
     (case find (\<lambda>offset. runnable (task_at s ((current_task s + offset) mod task_count s)))
             [1 ..< task_count s + 1] of
        Some offset \<Rightarrow> (current_task s + offset) mod task_count s
      | None \<Rightarrow> SCHEDULER_MAX_TASKS)"

definition has_other_runnable :: "scheduler \<Rightarrow> bool" where
  "has_other_runnable s \<longleftrightarrow>
     list_ex (\<lambda>index. index \<noteq> current_task s \<and> runnable (task_at s index)) [0 ..< task_count s]"

definition address_space_in_use :: "u32 \<Rightarrow> scheduler \<Rightarrow> bool" where
  "address_space_in_use space s \<longleftrightarrow>
     list_ex (\<lambda>index. mode (task_at s index) = TASK_USER \<and>
       state (task_at s index) \<noteq> TASK_TERMINATED \<and> address_space (task_at s index) = space)
       [1 ..< task_count s]"

text \<open>The identifier a reused slot gets: its incremented generation and its index.\<close>

definition next_generation :: "u32 \<Rightarrow> u32" where
  "next_generation g = (if g + 1 = 0 then g + 1 + 1 else g + 1)"

definition make_task_id :: "u32 \<Rightarrow> nat \<Rightarrow> u32" where
  "make_task_id generation slot = push_bit 8 generation OR of_nat slot"

definition scheduler_set_priority :: "nat \<Rightarrow> u32 \<Rightarrow> scheduler \<Rightarrow> bool \<times> scheduler" where
  "scheduler_set_priority index prio s =
     (if index = 0 \<or> index \<ge> task_count s \<or> prio = 0 \<or> prio > SCHEDULER_MAX_PRIORITY \<or>
         scheduler_started s then (False, s)
      else (True, s\<lparr>tasks := (tasks s)[index := (task_at s index)\<lparr>priority := prio,
                                                                  ticks_left := prio\<rparr>]\<rparr>))"

definition scheduler_block_task :: "nat \<Rightarrow> scheduler \<Rightarrow> bool \<times> scheduler" where
  "scheduler_block_task index s =
     (if index = 0 \<or> index \<ge> task_count s \<or> scheduler_started s \<or>
         state (task_at s index) \<noteq> TASK_RUNNABLE \<or> frame (task_at s index) = 0 then (False, s)
      else (True, s\<lparr>tasks := (tasks s)[index := (task_at s index)\<lparr>state := TASK_BLOCKED\<rparr>]\<rparr>))"

definition scheduler_wake_task_unlocked :: "nat \<Rightarrow> scheduler \<Rightarrow> bool \<times> scheduler" where
  "scheduler_wake_task_unlocked index s =
     (if index = 0 \<or> index \<ge> task_count s \<or> state (task_at s index) \<noteq> TASK_BLOCKED \<or>
         frame (task_at s index) = 0 then (False, s)
      else (True, s\<lparr>tasks := (tasks s)[index := (task_at s index)
             \<lparr>state := TASK_RUNNABLE, ticks_left := priority (task_at s index)\<rparr>]\<rparr>))"

definition scheduler_wake_task :: "nat \<Rightarrow> scheduler \<Rightarrow> bool \<times> scheduler" where
  "scheduler_wake_task index s = scheduler_wake_task_unlocked index s"

definition scheduler_wake_task_id :: "u32 \<Rightarrow> scheduler \<Rightarrow> bool \<times> scheduler" where
  "scheduler_wake_task_id tid s =
     (if tid = 0 then (False, s)
      else case find (\<lambda>index. task_id (task_at s index) = tid) [1 ..< task_count s] of
          Some index \<Rightarrow> scheduler_wake_task_unlocked index s
        | None \<Rightarrow> (False, s))"

fun wake_user_loop :: "nat list \<Rightarrow> u32 \<Rightarrow> scheduler \<Rightarrow> u32 \<times> scheduler" where
  "wake_user_loop [] woken s = (woken, s)"
| "wake_user_loop (index # rest) woken s =
     (if mode (task_at s index) = TASK_USER then
        case scheduler_wake_task_unlocked index s of
          (ok, s') \<Rightarrow> wake_user_loop rest (if ok then woken + 1 else woken) s'
      else wake_user_loop rest woken s)"

definition scheduler_wake_user_tasks :: "scheduler \<Rightarrow> u32 \<times> scheduler" where
  "scheduler_wake_user_tasks s = wake_user_loop [1 ..< task_count s] 0 s"

definition scheduler_task_id_is_active_user :: "u32 \<Rightarrow> scheduler \<Rightarrow> bool" where
  "scheduler_task_id_is_active_user tid s \<longleftrightarrow> tid \<noteq> 0 \<and>
     list_ex (\<lambda>index. task_id (task_at s index) = tid \<and> mode (task_at s index) = TASK_USER \<and>
       state (task_at s index) \<noteq> TASK_TERMINATED \<and> frame (task_at s index) \<noteq> 0)
       [1 ..< task_count s]"

definition scheduler_block_current :: "scheduler \<Rightarrow> bool \<times> scheduler" where
  "scheduler_block_current s =
     (if \<not> scheduler_started s \<or> current_task s = 0 \<or> current_task s \<ge> task_count s \<or>
         state (task_at s (current_task s)) \<noteq> TASK_RUNNABLE \<or> \<not> has_other_runnable s
      then (False, s)
      else (True, s\<lparr>tasks := (tasks s)[current_task s :=
             (task_at s (current_task s))\<lparr>state := TASK_BLOCKED\<rparr>]\<rparr>))"

definition scheduler_start :: "scheduler \<Rightarrow> scheduler" where
  "scheduler_start s =
     s\<lparr>tasks := (tasks s)[0 := (task_at s 0)\<lparr>state := TASK_TERMINATED\<rparr>], scheduler_started := True\<rparr>"

definition scheduler_task_runs :: "nat \<Rightarrow> scheduler \<Rightarrow> u32" where
  "scheduler_task_runs index s = (if index \<ge> task_count s then 0 else switches (task_at s index))"

definition scheduler_current_task_id :: "scheduler \<Rightarrow> u32" where
  "scheduler_current_task_id s =
     (if current_task s \<ge> task_count s then 0 else task_id (task_at s (current_task s)))"

definition scheduler_task_id :: "nat \<Rightarrow> scheduler \<Rightarrow> u32" where
  "scheduler_task_id index s = (if index \<ge> task_count s then 0 else task_id (task_at s index))"

definition scheduler_blocked_count :: "scheduler \<Rightarrow> nat" where
  "scheduler_blocked_count s =
     length (filter (\<lambda>index. state (task_at s index) = TASK_BLOCKED) [0 ..< task_count s])"

section \<open>Well-formedness\<close>

lemma wf_update [simp]:
  "sched_wf (s\<lparr>tasks := (tasks s)[i := t]\<rparr>) = sched_wf s"
  by (simp add: sched_wf_def)

lemma wf_wake: "sched_wf s \<Longrightarrow> sched_wf (snd (scheduler_wake_task_unlocked i s))"
  by (simp add: scheduler_wake_task_unlocked_def)

lemma wake_counts [simp]:
  "task_count (snd (scheduler_wake_task_unlocked i s)) = task_count s"
  "current_task (snd (scheduler_wake_task_unlocked i s)) = current_task s"
  by (simp_all add: scheduler_wake_task_unlocked_def)

section \<open>The run queue\<close>

text \<open>Cyclic distance from the current task to \<open>j\<close>, between 1 and \<open>task_count\<close>.\<close>

definition ring_distance :: "nat \<Rightarrow> nat \<Rightarrow> nat \<Rightarrow> nat" where
  "ring_distance n c j = (if c < j then j - c else j + n - c)"

lemma ring_distance_range: "c < n \<Longrightarrow> j < n \<Longrightarrow> 1 \<le> ring_distance n c j \<and> ring_distance n c j \<le> n"
  by (auto simp: ring_distance_def)

lemma ring_distance_hits: "c < n \<Longrightarrow> j < n \<Longrightarrow> (c + ring_distance n c j) mod n = j"
  by (auto simp: ring_distance_def)

lemma ring_distance_unique:
  assumes "c < n" "1 \<le> k" "k \<le> n"
  shows "ring_distance n c ((c + k) mod n) = k"
  using assms by (cases "c + k < n") (auto simp: ring_distance_def mod_if)

lemma find_next_runnable_first:
  assumes wf: "sched_wf s" and j: "j < task_count s" "runnable (task_at s j)"
  shows "find_next_runnable s < task_count s \<and> runnable (task_at s (find_next_runnable s)) \<and>
    ring_distance (task_count s) (current_task s) (find_next_runnable s) \<le>
    ring_distance (task_count s) (current_task s) j"
proof -
  let ?n = "task_count s" and ?c = "current_task s"
  let ?P = "\<lambda>k. runnable (task_at s ((?c + k) mod ?n))"
  have n: "0 < ?n" "?n \<le> 16" "?c < ?n" using wf by (auto simp: sched_wf_def)
  let ?d = "ring_distance ?n ?c j"
  have d: "1 \<le> ?d" "?d \<le> ?n" "?P ?d" using n j ring_distance_range ring_distance_hits by auto
  obtain k where k: "find ?P [1 ..< ?n + 1] = Some k"
    using d by (cases "find ?P [1 ..< ?n + 1]") (auto simp: find_upt_None simp del: upt_Suc)
  then have k': "1 \<le> k" "k \<le> ?n" "?P k" and "\<not> ?d < k"
    using d by (auto simp: find_upt_Some simp del: upt_Suc)
  have "find_next_runnable s = (?c + k) mod ?n" using k by (simp add: find_next_runnable_def del: upt_Suc)
  then show ?thesis using k' \<open>\<not> ?d < k\<close> n ring_distance_unique by simp
qed

lemma find_next_runnable_None:
  assumes wf: "sched_wf s"
  shows "find_next_runnable s = SCHEDULER_MAX_TASKS \<longleftrightarrow>
    (\<forall>j < task_count s. \<not> runnable (task_at s j))"
proof (cases "\<exists>j < task_count s. runnable (task_at s j)")
  case True
  then show ?thesis using find_next_runnable_first [OF wf] wf by (fastforce simp: sched_wf_def)
next
  case False
  then have "find (\<lambda>k. runnable (task_at s ((current_task s + k) mod task_count s)))
      [1 ..< task_count s + 1] = None"
    using wf by (auto simp: find_upt_None sched_wf_def simp del: upt_Suc)
  then show ?thesis using False by (simp add: find_next_runnable_def del: upt_Suc)
qed



section \<open>Identifiers\<close>

lemma unat_task_id:
  assumes "g \<le> SCHEDULER_MAX_GENERATION" and "i < 256"
  shows "unat (make_task_id g i) = unat g * 256 + i"
proof -
  have g: "unat g < 2 ^ 24" using assms(1) by (simp add: word_le_nat_alt)
  have i: "unat (of_nat i :: u32) = i" using assms(2) by (simp add: unat_of_nat take_bit_eq_mod)
  have "push_bit 8 g AND of_nat i = 0"
  proof (rule bit_word_eqI)
    fix n assume "n < LENGTH(32)"
    have "\<not> bit i n" if "8 \<le> n"
    proof -
      have "i < 2 ^ n" using assms(2) that power_increasing [of 8 n "2::nat"] by simp
      then show ?thesis by (simp add: bit_iff_odd)
    qed
    then show "bit (push_bit 8 g AND of_nat i) n = bit 0 n"
      using \<open>n < LENGTH(32)\<close> by (auto simp: bit_simps)
  qed
  then have "make_task_id g i = push_bit 8 g + of_nat i"
    using disjunctive_add_eq_or [of "push_bit 8 g" "of_nat i"] by (simp only: make_task_id_def)
  moreover have "unat (push_bit 8 g) = unat g * 256"
    using g by (simp add: push_bit_eq_mult unat_word_ariths(2))
  ultimately show ?thesis using g i assms(2) by (simp add: unat_sum)
qed

section \<open>Waking\<close>

text \<open>The effect of one wake-up on one task record.\<close>

definition woken :: "scheduler_task \<Rightarrow> scheduler_task" where
  "woken t = (if state t = TASK_BLOCKED \<and> frame t \<noteq> 0
              then t\<lparr>state := TASK_RUNNABLE, ticks_left := priority t\<rparr> else t)"

lemma wake_unlocked_eq:
  "sched_wf s \<Longrightarrow> 0 < i \<Longrightarrow> i < task_count s \<Longrightarrow>
   scheduler_wake_task_unlocked i s =
     (state (task_at s i) = TASK_BLOCKED \<and> frame (task_at s i) \<noteq> 0,
      s\<lparr>tasks := (tasks s)[i := woken (task_at s i)]\<rparr>)"
  by (auto simp: scheduler_wake_task_unlocked_def woken_def sched_wf_def)

lemma wake_user_loop_tasks:
  assumes "sched_wf s" and "distinct is" and "\<forall>i \<in> set is. 0 < i \<and> i < task_count s"
    and "wake_user_loop is w s = (w', s')"
  shows "sched_wf s' \<and> task_count s' = task_count s \<and>
    (\<forall>i < SCHEDULER_MAX_TASKS. task_at s' i =
      (if i \<in> set is \<and> mode (task_at s i) = TASK_USER then woken (task_at s i) else task_at s i))"
  using assms
proof (induction "is" arbitrary: w s)
  case (Cons k "is")
  let ?s1 = "if mode (task_at s k) = TASK_USER
    then s\<lparr>tasks := (tasks s)[k := woken (task_at s k)]\<rparr> else s"
  have k: "0 < k" "k < task_count s" "k \<notin> set is" "k < length (tasks s)"
    using Cons.prems by (auto simp: sched_wf_def)
  obtain w1 where "wake_user_loop is w1 ?s1 = (w', s')"
    using Cons.prems(4) k wake_unlocked_eq [OF Cons.prems(1) k(1,2)]
    by (auto split: if_splits)
  moreover have "sched_wf ?s1" "task_count ?s1 = task_count s" using Cons.prems(1) by auto
  ultimately have IH: "sched_wf s' \<and> task_count s' = task_count ?s1 \<and>
      (\<forall>i < SCHEDULER_MAX_TASKS. task_at s' i =
        (if i \<in> set is \<and> mode (task_at ?s1 i) = TASK_USER then woken (task_at ?s1 i)
         else task_at ?s1 i))"
    using Cons.prems(2,3) by (intro Cons.IH) auto
  have "task_at ?s1 i = (if i = k \<and> mode (task_at s k) = TASK_USER then woken (task_at s k)
      else task_at s i)" for i
    using k(4) by (simp add: nth_list_update)
  with IH k(3) show ?case by auto
qed simp

section \<open>Properties\<close>


definition idle_task :: scheduler_task where
  "idle_task = (clear_task undefined)\<lparr>state := TASK_RUNNABLE, frame := 0xC0009000, task_id := 0x101\<rparr>"

definition sched_example :: scheduler where
  "sched_example = \<lparr>tasks = clear_task undefined # idle_task #
       idle_task\<lparr>task_id := 0x102, state := TASK_BLOCKED, mode := TASK_USER\<rparr> # idle_task\<lparr>task_id := 0x103\<rparr> #
       replicate 12 (clear_task undefined),
     task_count = 4, current_task = 3, scheduler_started = True, pending_reap_mask = 0,
     stack_reap_count = 0, last_added_task = 3, slot_generation = [0, 1, 1, 1] @ replicate 12 0\<rparr>"

lemmas sched_example_defs =
  sched_example_def idle_task_def clear_task_def runnable_def sched_wf_def


text \<open>C19: A task blocks itself only when another task can run: after a successful
  \<open>scheduler_block_current\<close> the next scheduling decision finds a runnable task other than the
  one that blocked, so the switch cannot end in the panic for an empty run queue.\<close>

theorem block_current_leaves_runnable:
  assumes "sched_wf s" and "scheduler_block_current s = (True, s')"
  shows "state (task_at s' (current_task s)) = TASK_BLOCKED \<and>
    find_next_runnable s' < task_count s' \<and> find_next_runnable s' \<noteq> current_task s \<and>
    runnable (task_at s' (find_next_runnable s'))"
proof -
  let ?c = "current_task s"
  have s': "s' = s\<lparr>tasks := (tasks s)[?c := (task_at s ?c)\<lparr>state := TASK_BLOCKED\<rparr>]\<rparr>"
    and other: "has_other_runnable s"
    using assms(2) by (auto simp: scheduler_block_current_def split: if_splits)
  have c: "?c < length (tasks s)" using assms(1) by (auto simp: sched_wf_def)
  obtain j where j: "j < task_count s" "j \<noteq> ?c" "runnable (task_at s j)"
    using other by (auto simp: has_other_runnable_def list_ex_iff)
  have blocked: "state (task_at s' ?c) = TASK_BLOCKED" using c by (simp add: s')
  have wf': "sched_wf s'" using assms(1) by (simp add: s')
  have "j < task_count s'" "runnable (task_at s' j)" using j by (auto simp: s')
  note f = find_next_runnable_first [OF wf' this]
  then have "find_next_runnable s' \<noteq> ?c" using blocked by (auto simp: runnable_def)
  with f blocked show ?thesis by blast
qed

theorem block_current_leaves_runnable_witness:
  "fst (scheduler_block_current sched_example) \<and>
   find_next_runnable (snd (scheduler_block_current sched_example)) \<noteq> 3"
proof -
  have wf: "sched_wf sched_example" by (simp add: sched_example_defs)
  have "fst (scheduler_block_current sched_example)"
    by (simp add: sched_example_defs scheduler_block_current_def has_other_runnable_def upt_rec)
  moreover obtain s' where s': "scheduler_block_current sched_example = (True, s')"
    using calculation by (metis prod.collapse)
  ultimately show ?thesis
    using block_current_leaves_runnable [OF wf s'] by (simp add: s' sched_example_def)
qed

text \<open>Task identifiers are never reused: the identifier a slot gets when it is filled again
  is not zero and differs from every identifier that this or any other slot was given at an
  earlier or equal generation, so a stale identifier never names the new task.\<close>

theorem task_id_fresh:
  assumes "g < SCHEDULER_MAX_GENERATION" and "slot < SCHEDULER_MAX_TASKS"
    and "g' \<le> SCHEDULER_MAX_GENERATION" and "slot' < SCHEDULER_MAX_TASKS"
    and "slot' = slot \<Longrightarrow> g' \<le> g"
  shows "make_task_id (next_generation g) slot \<noteq> 0 \<and>
    make_task_id (next_generation g) slot \<noteq> make_task_id g' slot'"
proof -
  have "unat g < 0x00FFFFFF" using assms(1) by (simp add: word_less_nat_alt)
  then have g1: "unat (g + 1) = Suc (unat g)" by (intro unat_inc) simp
  then have "g + 1 \<noteq> 0" by auto
  then have n: "next_generation g = g + 1" by (simp add: next_generation_def)
  have le: "g + 1 \<le> SCHEDULER_MAX_GENERATION"
    using g1 \<open>unat g < 0x00FFFFFF\<close> by (simp add: word_le_nat_alt)
  have id: "unat (make_task_id (next_generation g) slot) = Suc (unat g) * 256 + slot"
    using unat_task_id [OF le, of slot] assms(2) by (simp add: n g1)
  have id': "unat (make_task_id g' slot') = unat g' * 256 + slot'"
    using unat_task_id [OF assms(3), of slot'] assms(4) by simp
  have "Suc (unat g) * 256 + slot \<noteq> unat g' * 256 + slot'"
  proof (cases "slot' = slot")
    case True
    then have "unat g' \<le> unat g" using assms(5) by (simp add: word_le_nat_alt)
    with True show ?thesis by simp
  next
    case False
    then have "(Suc (unat g) * 256 + slot) mod 256 \<noteq> (unat g' * 256 + slot') mod 256"
      using assms(2,4) by (simp del: mult_Suc)
    then show ?thesis by metis
  qed
  then show ?thesis using id id' by (metis add_is_0 mult_is_0 nat.distinct(1) unsigned_0 zero_neq_numeral)
qed

theorem task_id_fresh_witness:
  "make_task_id (next_generation 0) 1 \<noteq> 0 \<and> make_task_id (next_generation 0) 1 \<noteq> make_task_id 5 2"
  using task_id_fresh [of 0 1 5 2] by simp

text \<open>A broadcast wake-up makes exactly the blocked user tasks runnable: every user task of
  the table that was blocked with a saved frame becomes runnable with a full time slice, and
  every other task record is unchanged.\<close>

theorem wake_user_tasks_exact:
  assumes "sched_wf s" and "scheduler_wake_user_tasks s = (w, s')" and "i < SCHEDULER_MAX_TASKS"
  shows "task_at s' i =
    (if 0 < i \<and> i < task_count s \<and> mode (task_at s i) = TASK_USER then woken (task_at s i)
     else task_at s i)"
  using wake_user_loop_tasks [OF assms(1) distinct_upt, of 1 "task_count s" 0 w s'] assms(2,3)
  by (auto simp: scheduler_wake_user_tasks_def)

theorem wake_user_tasks_exact_witness:
  "state (task_at (snd (scheduler_wake_user_tasks sched_example)) 2) = TASK_RUNNABLE"
proof -
  obtain w s' where w: "scheduler_wake_user_tasks sched_example = (w, s')" by fastforce
  have wf: "sched_wf sched_example" by (simp add: sched_example_defs)
  have "state (task_at s' 2) = TASK_RUNNABLE"
    using wake_user_tasks_exact [OF wf w, of 2] by (simp add: sched_example_defs woken_def)
  then show ?thesis by (simp only: w snd_conv)
qed

end
