(* ===== verification/Ipc.thy ===== *)
theory Ipc
  imports Ring Tasks
begin

text \<open>
  Inter-process messages (\<open>kernel/ipc.c\<close>): one bounded queue shared by all tasks, messages
  addressed to a task identifier or to everybody, reception by the oldest matching message,
  and the purge of a task's messages when it ends. The queue is an array of sixteen messages
  used as a ring; the theory shows that it is the list of its messages, oldest first.
\<close>

section \<open>State\<close>

record ipc_message =
  sender_id :: u32
  receiver_id :: u32
  msg_type :: u32
  msg_length :: u32
  msg_data :: bytes

record ipc =
  queue :: "ipc_message list"
  head :: nat
  tail :: nat
  count :: nat

abbreviation IPC_QUEUE_CAPACITY :: nat where "IPC_QUEUE_CAPACITY \<equiv> 16"
abbreviation IPC_MESSAGE_MAX :: nat where "IPC_MESSAGE_MAX \<equiv> 64"

section \<open>Operations\<close>

definition ipc_init :: "ipc \<Rightarrow> ipc" where
  "ipc_init q = q\<lparr>head := 0, tail := 0, count := 0\<rparr>"




definition message_matches :: "ipc_message \<Rightarrow> u32 \<Rightarrow> bool" where
  "message_matches m receiver \<longleftrightarrow> receiver = 0 \<or> receiver_id m = 0 \<or> receiver_id m = receiver"

definition ring_at :: "ipc \<Rightarrow> nat \<Rightarrow> nat" where
  "ring_at q offset = (tail q + offset) mod IPC_QUEUE_CAPACITY"

text \<open>The loop that closes the gap left by a received message, moving earlier messages up.\<close>

fun close_gap :: "nat \<Rightarrow> nat \<Rightarrow> ipc_message list \<Rightarrow> ipc_message list" where
  "close_gap 0 position msgs = msgs"
| "close_gap (Suc offset) position msgs =
     (let previous = (position + IPC_QUEUE_CAPACITY - 1) mod IPC_QUEUE_CAPACITY
      in close_gap offset previous (msgs[position := msgs ! previous]))"

text \<open>
  Reception with a non-null or null data pointer and the capacity of the caller's buffer. The
  result holds what is stored through the type, length and data pointers.
\<close>

definition ipc_receive_for ::
    "u32 \<Rightarrow> bool \<Rightarrow> u32 \<Rightarrow> ipc \<Rightarrow> (u32 \<times> u32 \<times> bytes) option \<times> ipc" where
  "ipc_receive_for receiver has_buffer capacity q =
     (case find (\<lambda>offset. message_matches (queue q ! ring_at q offset) receiver) [0 ..< count q] of
        None \<Rightarrow> (None, q)
      | Some offset \<Rightarrow>
          let position = ring_at q offset;
              m = queue q ! position
          in if msg_length m > capacity \<or> (msg_length m \<noteq> 0 \<and> \<not> has_buffer) then (None, q)
             else (Some (msg_type m, msg_length m, take (unat (msg_length m)) (msg_data m)),
                   q\<lparr>queue := close_gap offset position (queue q),
                     tail := (tail q + 1) mod IPC_QUEUE_CAPACITY,
                     count := count q - 1\<rparr>))"


definition ipc_pending :: "ipc \<Rightarrow> nat" where
  "ipc_pending q = count q"

definition ipc_pending_for :: "u32 \<Rightarrow> ipc \<Rightarrow> nat" where
  "ipc_pending_for receiver q =
     length (filter (\<lambda>offset. message_matches (queue q ! ring_at q offset) receiver) [0 ..< count q])"

text \<open>Removing the message at \<open>offset\<close>: the later messages move down by one.\<close>

definition drop_at :: "nat \<Rightarrow> ipc \<Rightarrow> ipc" where
  "drop_at offset q =
     (let msgs = fold (\<lambda>shift ms. ms[ring_at q shift := ms ! ring_at q (shift + 1)])
                   [offset ..< count q - 1] (queue q)
      in q\<lparr>queue := msgs, count := count q - 1,
           head := (tail q + (count q - 1)) mod IPC_QUEUE_CAPACITY\<rparr>)"

function purge_loop :: "(ipc_message \<Rightarrow> bool) \<Rightarrow> nat \<Rightarrow> nat \<Rightarrow> ipc \<Rightarrow> nat \<times> ipc" where
  "purge_loop doomed offset removed q =
     (if offset < count q then
        if \<not> doomed (queue q ! ring_at q offset) then purge_loop doomed (offset + 1) removed q
        else purge_loop doomed offset (removed + 1) (drop_at offset q)
      else (removed, q))"
  by pat_completeness auto
termination
  by (relation "measure (\<lambda>(_, offset, _, q). count q - offset)") (auto simp: drop_at_def Let_def)

declare purge_loop.simps [simp del]

definition ipc_purge_receiver :: "u32 \<Rightarrow> ipc \<Rightarrow> nat \<times> ipc" where
  "ipc_purge_receiver receiver q =
     (if receiver = 0 then (0, q) else purge_loop (\<lambda>m. receiver_id m = receiver) 0 0 q)"

definition ipc_purge_field :: "u32 \<Rightarrow> bool \<Rightarrow> ipc \<Rightarrow> nat \<times> ipc" where
  "ipc_purge_field tid match_sender q =
     (if tid = 0 then (0, q)
      else purge_loop (\<lambda>m. (if match_sender then sender_id m else receiver_id m) = tid) 0 0 q)"

definition ipc_purge_sender :: "u32 \<Rightarrow> ipc \<Rightarrow> nat \<times> ipc" where
  "ipc_purge_sender sender q = ipc_purge_field sender True q"

section \<open>The queue as a list\<close>

definition ipc_wf :: "ipc \<Rightarrow> bool" where
  "ipc_wf q \<longleftrightarrow> length (queue q) = IPC_QUEUE_CAPACITY \<and> count q \<le> IPC_QUEUE_CAPACITY \<and>
     tail q < IPC_QUEUE_CAPACITY \<and> head q = (tail q + count q) mod IPC_QUEUE_CAPACITY \<and>
     (\<forall>m \<in> set (queue q). length (msg_data m) = IPC_MESSAGE_MAX \<and>
        unat (msg_length m) \<le> IPC_MESSAGE_MAX)"

definition slots :: "ipc \<Rightarrow> ipc_message list" where
  "slots q = ring_list IPC_QUEUE_CAPACITY (queue q) (tail q) (count q)"

text \<open>What a message says: its stale bytes beyond the stated length are not part of it.\<close>

definition visible :: "ipc_message \<Rightarrow> ipc_message" where
  "visible m = m\<lparr>msg_data := take (unat (msg_length m)) (msg_data m)\<rparr>"

definition messages :: "ipc \<Rightarrow> ipc_message list" where
  "messages q = map visible (slots q)"

lemma length_slots [simp]: "length (slots q) = count q"
  by (simp add: slots_def)

lemma nth_slots [simp]: "i < count q \<Longrightarrow> slots q ! i = queue q ! ring_at q i"
  by (simp add: slots_def ring_at_def)

lemma visible_ids [simp]:
  "sender_id (visible m) = sender_id m" "receiver_id (visible m) = receiver_id m"
  "msg_type (visible m) = msg_type m" "msg_length (visible m) = msg_length m"
  by (simp_all add: visible_def)

lemma init_wf:
  "length (queue q) = IPC_QUEUE_CAPACITY \<Longrightarrow>
   \<forall>m \<in> set (queue q). length (msg_data m) = IPC_MESSAGE_MAX \<and>
     unat (msg_length m) \<le> IPC_MESSAGE_MAX \<Longrightarrow>
   ipc_wf (ipc_init q) \<and> messages (ipc_init q) = []"
  by (simp add: ipc_wf_def ipc_init_def messages_def slots_def ring_list_def)



text \<open>Receiving.\<close>

lemma close_gap_ring:
  assumes "length msgs = IPC_QUEUE_CAPACITY" "k < c" "c \<le> IPC_QUEUE_CAPACITY"
    and "t < IPC_QUEUE_CAPACITY"
  shows "ring_list IPC_QUEUE_CAPACITY (close_gap k ((t + k) mod IPC_QUEUE_CAPACITY) msgs) t c =
    shift_up k (ring_list IPC_QUEUE_CAPACITY msgs t c)"
  using assms(1,2)
proof (induction k arbitrary: msgs)
  case (Suc k)
  have prev: "((t + Suc k) mod 16 + 16 - 1) mod 16 = (t + k) mod 16"
    using mod_add_left_eq [of "t + Suc k" 16 15] by (simp add: add.commute)
  let ?msgs = "msgs[(t + Suc k) mod 16 := msgs ! ((t + k) mod 16)]"
  have "ring_list 16 ?msgs t c = (ring_list 16 msgs t c)[Suc k := ring_list 16 msgs t c ! k]"
    using Suc.prems assms by (subst ring_list_update) auto
  moreover have "close_gap (Suc k) ((t + Suc k) mod 16) msgs = close_gap k ((t + k) mod 16) ?msgs"
    by (simp only: close_gap.simps Let_def prev)
  ultimately show ?case using Suc.IH [of ?msgs] Suc.prems by simp
qed simp

lemma close_gap_set: "position < length msgs \<Longrightarrow> length msgs = IPC_QUEUE_CAPACITY \<Longrightarrow>
    set (close_gap k position msgs) \<subseteq> set msgs \<and> length (close_gap k position msgs) = length msgs"
proof (induction k position msgs rule: close_gap.induct)
  case (2 offset position msgs)
  let ?p = "(position + IPC_QUEUE_CAPACITY - 1) mod IPC_QUEUE_CAPACITY"
  have "set (msgs[position := msgs ! ?p]) \<subseteq> set msgs"
    using 2(2,3) by (intro set_update_subsetI) auto
  with 2 show ?case by (fastforce simp: Let_def)
qed simp

lemma receive_take:
  assumes wf: "ipc_wf q" and k: "k < count q"
  shows "let q' = q\<lparr>queue := close_gap k (ring_at q k) (queue q),
      tail := (tail q + 1) mod IPC_QUEUE_CAPACITY, count := count q - 1\<rparr>
    in ipc_wf q' \<and> slots q' = remove_nth k (slots q)"
proof -
  let ?msgs = "close_gap k (ring_at q k) (queue q)"
  have b: "length (queue q) = 16" "count q \<le> 16" "tail q < 16" using wf by (auto simp: ipc_wf_def)
  have r: "ring_list 16 ?msgs (tail q) (count q) = shift_up k (slots q)"
    using close_gap_ring [of "queue q" k "count q" "tail q"] b k by (simp add: ring_at_def slots_def)
  have "ring_list 16 ?msgs ((tail q + 1) mod 16) (count q - 1) = remove_nth k (slots q)"
    using ring_pop [of "count q" 16 ?msgs "tail q"] b k r tl_shift_up [of k "slots q"] by simp
  moreover have "set ?msgs \<subseteq> set (queue q)" "length ?msgs = 16"
    using close_gap_set [of "ring_at q k" "queue q" k] b by (auto simp: ring_at_def)
  moreover obtain c where "count q = Suc c" using k by (cases "count q") auto
  then have "(tail q + count q) mod 16 = ((tail q + 1) mod 16 + (count q - 1)) mod 16"
    by (simp add: mod_add_left_eq)
  ultimately show ?thesis using wf by (auto simp: ipc_wf_def slots_def Let_def)
qed

text \<open>Purging.\<close>

lemma drop_at_slots:
  assumes wf: "ipc_wf q" and k: "k < count q"
  shows "ipc_wf (drop_at k q) \<and> slots (drop_at k q) = remove_nth k (slots q)"
proof -
  let ?step = "\<lambda>shift ms. ms[ring_at q shift := ms ! ring_at q (shift + 1)]"
  have b: "length (queue q) = 16" "count q \<le> 16" "tail q < 16" using wf by (auto simp: ipc_wf_def)
  have step: "length ms = 16 \<Longrightarrow> \<forall>i \<in> set is. Suc i < count q \<Longrightarrow>
      ring_list 16 (fold ?step is ms) (tail q) (count q) = shift_down is (ring_list 16 ms (tail q) (count q)) \<and>
      length (fold ?step is ms) = 16 \<and> set (fold ?step is ms) \<subseteq> set ms" for "is" ms
  proof (induction "is" arbitrary: ms)
    case (Cons i "is")
    have up: "ring_list 16 (?step i ms) (tail q) (count q) =
        (ring_list 16 ms (tail q) (count q))[i := ring_list 16 ms (tail q) (count q) ! Suc i]"
      using Cons.prems b by (auto simp: ring_at_def ring_list_update)
    have "set (?step i ms) \<subseteq> set ms"
      using Cons.prems by (intro set_update_subsetI) (auto simp: ring_at_def)
    then show ?case using Cons.IH [of "?step i ms"] Cons.prems up by auto
  qed simp
  let ?msgs = "fold ?step [k ..< count q - 1] (queue q)"
  have ix: "\<forall>i \<in> set [k ..< count q - 1]. Suc i < count q" by auto
  have s: "ring_list 16 ?msgs (tail q) (count q) = shift_down [k ..< count q - 1] (slots q)"
    "length ?msgs = 16" "set ?msgs \<subseteq> set (queue q)"
    using step [OF b(1) ix] unfolding slots_def by blast+
  have "ring_list 16 ?msgs (tail q) (count q - 1) = remove_nth k (slots q)"
    using ring_take [of "count q - 1" "count q" 16 ?msgs "tail q"] s(1)
      butlast_shift_down [of k "slots q"] k by simp
  then show ?thesis using wf s(2,3)
    by (auto simp: ipc_wf_def slots_def drop_at_def Let_def)
qed

lemma purge_loop_slots:
  "ipc_wf q \<Longrightarrow> purge_loop doomed k r q = (r', q') \<Longrightarrow>
   ipc_wf q' \<and> slots q' = take k (slots q) @ filter (\<lambda>m. \<not> doomed m) (drop k (slots q)) \<and>
   r' = r + length (filter doomed (drop k (slots q)))"
proof (induction doomed k r q rule: purge_loop.induct)
  case (1 doomed k r q)
  show ?case
  proof (cases "k < count q")
    case True
    have d: "drop k (slots q) = queue q ! ring_at q k # drop (Suc k) (slots q)"
      using Cons_nth_drop_Suc [of k "slots q"] True by simp
    have t: "take (Suc k) (slots q) = take k (slots q) @ [queue q ! ring_at q k]"
      using take_Suc_conv_app_nth [of k "slots q"] True by simp
    show ?thesis
    proof (cases "doomed (queue q ! ring_at q k)")
      case dm: True
      note da = drop_at_slots [OF 1(3) True]
      have "take k (slots (drop_at k q)) = take k (slots q)"
        "drop k (slots (drop_at k q)) = drop (Suc k) (slots q)"
        using da True by (auto simp: min_def)
      then show ?thesis using 1(2) [OF True] dm da 1(4) True d
        by (simp add: purge_loop.simps [of doomed k])
    next
      case False
      then show ?thesis using 1(1) [OF True] 1(3,4) True d t
        by (simp add: purge_loop.simps [of doomed k])
    qed
  qed (use 1 in \<open>simp add: purge_loop.simps [of doomed k]\<close>)
qed

lemma purge_messages:
  assumes "ipc_wf q" and "purge_loop doomed 0 0 q = (r, q')"
    and "\<And>m. doomed (visible m) = doomed m"
  shows "ipc_wf q' \<and> messages q' = filter (\<lambda>m. \<not> doomed m) (messages q) \<and>
    r = length (filter doomed (messages q))"
  using purge_loop_slots [OF assms(1,2)] assms(3) by (simp add: messages_def filter_map o_def)

section \<open>Reception by the oldest matching message\<close>

lemma find_slots:
  "find (\<lambda>offset. P (queue q ! ring_at q offset)) [0 ..< count q] = Some k \<Longrightarrow>
   k < count q \<and> P (slots q ! k) \<and> (\<forall>j < k. \<not> P (slots q ! j))"
  by (auto simp: find_upt_Some)

lemma find_slots_None:
  "find (\<lambda>offset. P (queue q ! ring_at q offset)) [0 ..< count q] = None \<longleftrightarrow>
   (\<forall>m \<in> set (slots q). \<not> P m)"
  by (simp add: find_upt_None all_set_conv_all_nth)

lemma matches_visible [simp]: "message_matches (visible m) r = message_matches m r"
  by (simp add: message_matches_def)

lemma receive_for_cases:
  assumes wf: "ipc_wf q" and r: "ipc_receive_for receiver has_buffer capacity q = (res, q')"
  shows "case res of
      None \<Rightarrow> q' = q \<and>
        ((\<forall>m \<in> set (messages q). \<not> message_matches m receiver) \<or>
         (\<exists>older m newer. messages q = older @ m # newer \<and>
            (\<forall>x \<in> set older. \<not> message_matches x receiver) \<and> message_matches m receiver \<and>
            (msg_length m > capacity \<or> msg_length m \<noteq> 0 \<and> \<not> has_buffer)))
    | Some (mtype, len, bytes) \<Rightarrow> ipc_wf q' \<and>
        (\<exists>older m newer. messages q = older @ m # newer \<and> messages q' = older @ newer \<and>
            (\<forall>x \<in> set older. \<not> message_matches x receiver) \<and> message_matches m receiver \<and>
            mtype = msg_type m \<and> len = msg_length m \<and> bytes = msg_data m \<and> len \<le> capacity)"
proof (cases "find (\<lambda>offset. message_matches (queue q ! ring_at q offset) receiver) [0 ..< count q]")
  case None
  then have "\<forall>m \<in> set (messages q). \<not> message_matches m receiver"
    using find_slots_None [of "\<lambda>m. message_matches m receiver" q] by (simp add: messages_def)
  with None r show ?thesis by (auto simp: ipc_receive_for_def)
next
  case (Some k)
  have k: "k < count q" "message_matches (slots q ! k) receiver"
      "\<And>j. j < k \<Longrightarrow> \<not> message_matches (slots q ! j) receiver"
    using find_slots [OF Some] by auto
  let ?m = "visible (slots q ! k)"
  have split: "messages q = take k (messages q) @ ?m # drop (Suc k) (messages q)"
    using id_take_nth_drop [of k "messages q"] k(1) by (simp add: messages_def)
  have older: "\<forall>x \<in> set (take k (messages q)). \<not> message_matches x receiver"
    using k(1,3) by (auto simp: in_set_conv_nth messages_def)
  have match: "message_matches ?m receiver" using k by simp
  let ?bad = "msg_length ?m > capacity \<or> msg_length ?m \<noteq> 0 \<and> \<not> has_buffer"
  show ?thesis
  proof (cases ?bad)
    case True
    then have "res = None \<and> q' = q" using r Some k(1) by (auto simp: ipc_receive_for_def Let_def)
    then show ?thesis using split older match True by (fastforce simp del: visible_ids matches_visible)
  next
    case False
    then have res: "res = Some (msg_type ?m, msg_length ?m, msg_data ?m)"
      and q': "q' = q\<lparr>queue := close_gap k (ring_at q k) (queue q),
        tail := (tail q + 1) mod IPC_QUEUE_CAPACITY, count := count q - 1\<rparr>"
      using r Some k(1) by (auto simp: ipc_receive_for_def Let_def visible_def)
    have "ipc_wf q'" "messages q' = take k (messages q) @ drop (Suc k) (messages q)"
      using receive_take [OF wf k(1)] by (auto simp: q' messages_def Let_def take_map drop_map)
    moreover have "msg_length ?m \<le> capacity" using False not_less by blast
    ultimately show ?thesis
      unfolding res option.case prod.case using split older match by blast
  qed
qed

section \<open>The queue contract\<close>






section \<open>Properties\<close>

definition empty_slot :: ipc_message where
  "empty_slot = \<lparr>sender_id = 0, receiver_id = 0, msg_type = 0, msg_length = 0,
     msg_data = replicate 64 0\<rparr>"



text \<open>Three messages that wrap around the end of the array.\<close>

definition ipc_example :: ipc where
  "ipc_example = \<lparr>queue = [empty_slot\<lparr>sender_id := 5, receiver_id := 6, msg_type := 3\<rparr>] @
       replicate 13 empty_slot @ [empty_slot\<lparr>receiver_id := 5, msg_type := 1\<rparr>,
         empty_slot\<lparr>receiver_id := 6, msg_type := 2\<rparr>],
     head = 1, tail = 14, count = 3\<rparr>"

lemma ipc_example_wf: "ipc_wf ipc_example"
  and ipc_example_messages: "messages ipc_example =
    [\<lparr>sender_id = 0, receiver_id = 5, msg_type = 1, msg_length = 0, msg_data = []\<rparr>,
     \<lparr>sender_id = 0, receiver_id = 6, msg_type = 2, msg_length = 0, msg_data = []\<rparr>,
     \<lparr>sender_id = 5, receiver_id = 6, msg_type = 3, msg_length = 0, msg_data = []\<rparr>]"
  by (simp_all add: ipc_example_def ipc_wf_def empty_slot_def messages_def slots_def ring_list_def
      upt_rec visible_def nth_append nth_Cons')



text \<open>C6: Receiving. A successful reception returns type, length and bytes of the oldest message
  that matches the receiver and removes that message only: all others stay in order. A failed
  one leaves the queue as it was, and fails only because no message matches or because the
  oldest matching message does not fit the caller's buffer.\<close>

theorem ipc_receive_oldest:
  assumes "ipc_wf q" and "ipc_receive_for receiver has_buffer capacity q = (res, q')"
  shows "case res of
      None \<Rightarrow> q' = q \<and>
        ((\<forall>m \<in> set (messages q). \<not> message_matches m receiver) \<or>
         (\<exists>older m newer. messages q = older @ m # newer \<and>
            (\<forall>x \<in> set older. \<not> message_matches x receiver) \<and> message_matches m receiver \<and>
            (msg_length m > capacity \<or> msg_length m \<noteq> 0 \<and> \<not> has_buffer)))
    | Some (mtype, len, bytes) \<Rightarrow> ipc_wf q' \<and>
        (\<exists>older m newer. messages q = older @ m # newer \<and> messages q' = older @ newer \<and>
            (\<forall>x \<in> set older. \<not> message_matches x receiver) \<and> message_matches m receiver \<and>
            mtype = msg_type m \<and> len = msg_length m \<and> bytes = msg_data m \<and> len \<le> capacity)"
  using receive_for_cases [OF assms] .

theorem ipc_receive_oldest_witness:
  "\<exists>q' older m newer. ipc_receive_for 6 True 64 ipc_example = (Some (2, 0, []), q') \<and>
     messages ipc_example = older @ m # newer \<and> messages q' = older @ newer \<and> msg_type m = 2"
proof -
  obtain q' where r: "ipc_receive_for 6 True 64 ipc_example = (Some (2, 0, []), q')"
    by (simp add: ipc_receive_for_def ipc_example_def empty_slot_def ring_at_def message_matches_def
        upt_rec nth_append nth_Cons')
  obtain older m newer where "messages ipc_example = older @ m # newer" "messages q' = older @ newer"
    "msg_type m = 2"
    using ipc_receive_oldest [OF ipc_example_wf r] by auto
  with r show ?thesis by blast
qed

text \<open>C18: Purging. When a task ends, the two purges remove exactly the messages addressed to it
  and the messages it sent; the others keep their order, and the counts returned are the
  numbers of messages removed.\<close>

theorem ipc_purge_exact:
  assumes "ipc_wf q" and "tid \<noteq> 0"
    and "ipc_purge_receiver tid q = (r1, q1)" and "ipc_purge_sender tid q1 = (r2, q2)"
  shows "ipc_wf q2 \<and>
    messages q2 = filter (\<lambda>m. receiver_id m \<noteq> tid \<and> sender_id m \<noteq> tid) (messages q) \<and>
    r1 = length (filter (\<lambda>m. receiver_id m = tid) (messages q)) \<and>
    r1 + r2 + length (messages q2) = length (messages q)"
proof -
  have 1: "ipc_wf q1 \<and> messages q1 = filter (\<lambda>m. receiver_id m \<noteq> tid) (messages q) \<and>
      r1 = length (filter (\<lambda>m. receiver_id m = tid) (messages q))"
    using purge_messages [OF assms(1), of "\<lambda>m. receiver_id m = tid"] assms(2,3)
    by (simp add: ipc_purge_receiver_def)
  have 2: "ipc_wf q2 \<and> messages q2 = filter (\<lambda>m. sender_id m \<noteq> tid) (messages q1) \<and>
      r2 = length (filter (\<lambda>m. sender_id m = tid) (messages q1))"
    using purge_messages [of q1 "\<lambda>m. sender_id m = tid"] 1 assms(2,4)
    by (simp add: ipc_purge_sender_def ipc_purge_field_def)
  show ?thesis using 1 2 sum_length_filter_compl [of "\<lambda>m. receiver_id m = tid" "messages q"]
      sum_length_filter_compl [of "\<lambda>m. sender_id m = tid" "messages q1"]
    by (simp add: conj_commute)
qed

theorem ipc_purge_exact_witness:
  "map msg_type (messages (snd (ipc_purge_sender 5 (snd (ipc_purge_receiver 5 ipc_example))))) = [2]"
proof -
  obtain r1 q1 where 1: "ipc_purge_receiver 5 ipc_example = (r1, q1)" by fastforce
  obtain r2 q2 where 2: "ipc_purge_sender 5 q1 = (r2, q2)" by fastforce
  show ?thesis using ipc_purge_exact [OF ipc_example_wf _ 1 2] by (simp add: 1 2 ipc_example_messages)
qed



end
