(* ===== verification/Keyboard.thy ===== *)
theory Keyboard
  imports Ring
begin

text \<open>
  The PS/2 keyboard driver (\<open>drivers/keyboard.c\<close>): the two layouts, the modifier state, the
  interrupt handler that turns scan codes into characters, and the ring of characters that
  readers drain. The byte the handler reads from port \<open>0x60\<close> is an argument.
\<close>

section \<open>Layouts\<close>

definition lookup_key :: "(u8 \<times> u8) list \<Rightarrow> u8 \<Rightarrow> u8" where
  "lookup_key entries code = (case map_of entries code of None \<Rightarrow> 0 | Some c \<Rightarrow> c)"

definition english_keymap :: "u8 \<Rightarrow> u8" where
  "english_keymap code = lookup_key [
    (2, 49), (3, 50), (4, 51), (5, 52), (6, 53), (7, 54), (8, 55), (9, 56), (10, 57), (11, 48),
     (12, 45), (13, 61), (14, 8), (28, 10), (16, 113), (17, 119), (18, 101), (19, 114),
     (20, 116), (21, 121), (22, 117), (23, 105), (24, 111), (25, 112), (26, 91), (27, 93),
     (30, 97), (31, 115), (32, 100), (33, 102), (34, 103), (35, 104), (36, 106), (37, 107),
     (38, 108), (39, 59), (40, 39), (41, 96), (43, 92), (44, 122), (45, 120), (46, 99),
     (47, 118), (48, 98), (49, 110), (50, 109), (51, 44), (52, 46), (53, 47), (57, 32)] code"

definition english_shift_keymap :: "u8 \<Rightarrow> u8" where
  "english_shift_keymap code = lookup_key [
    (2, 33), (3, 64), (4, 35), (5, 36), (6, 37), (7, 94), (8, 38), (9, 42), (10, 40), (11, 41),
     (12, 95), (13, 43), (14, 8), (28, 10), (16, 81), (17, 87), (18, 69), (19, 82), (20, 84),
     (21, 89), (22, 85), (23, 73), (24, 79), (25, 80), (26, 123), (27, 125), (30, 65), (31, 83),
     (32, 68), (33, 70), (34, 71), (35, 72), (36, 74), (37, 75), (38, 76), (39, 58), (40, 34),
     (41, 126), (43, 124), (44, 90), (45, 88), (46, 67), (47, 86), (48, 66), (49, 78), (50, 77),
     (51, 60), (52, 62), (53, 63), (57, 32)] code"

definition turkish_keymap :: "u8 \<Rightarrow> u8" where
  "turkish_keymap code = lookup_key [
    (2, 49), (3, 50), (4, 51), (5, 52), (6, 53), (7, 54), (8, 55), (9, 56), (10, 57), (11, 48),
     (12, 42), (13, 45), (14, 8), (28, 10), (16, 113), (17, 119), (18, 101), (19, 114),
     (20, 116), (21, 121), (22, 117), (23, 253), (24, 111), (25, 112), (26, 240), (27, 252),
     (30, 97), (31, 115), (32, 100), (33, 102), (34, 103), (35, 104), (36, 106), (37, 107),
     (38, 108), (39, 254), (40, 105), (41, 34), (43, 44), (44, 122), (45, 120), (46, 99),
     (47, 118), (48, 98), (49, 110), (50, 109), (51, 246), (52, 231), (53, 46), (57, 32)] code"

definition turkish_shift_keymap :: "u8 \<Rightarrow> u8" where
  "turkish_shift_keymap code = lookup_key [
    (2, 33), (3, 34), (4, 94), (5, 43), (6, 37), (7, 38), (8, 47), (9, 40), (10, 41), (11, 61),
     (12, 63), (13, 95), (14, 8), (28, 10), (16, 81), (17, 87), (18, 69), (19, 82), (20, 84),
     (21, 89), (22, 85), (23, 73), (24, 79), (25, 80), (26, 208), (27, 220), (30, 65), (31, 83),
     (32, 68), (33, 70), (34, 71), (35, 72), (36, 74), (37, 75), (38, 76), (39, 222), (40, 221),
     (41, 233), (43, 59), (44, 90), (45, 88), (46, 67), (47, 86), (48, 66), (49, 78), (50, 77),
     (51, 214), (52, 199), (53, 58), (57, 32)] code"


datatype keyboard_layout = KEYBOARD_LAYOUT_ENGLISH | KEYBOARD_LAYOUT_TURKISH

section \<open>State and operations\<close>

abbreviation KEYBOARD_BUFFER_SIZE :: nat where "KEYBOARD_BUFFER_SIZE \<equiv> 128"

record keyboard =
  active_keymap :: "u8 \<Rightarrow> u8"
  active_shift_keymap :: "u8 \<Rightarrow> u8"
  left_shift_active :: bool
  right_shift_active :: bool
  control_active :: bool
  alt_active :: bool
  caps_lock_active :: bool
  extended_prefix :: bool
  input_buffer :: bytes
  input_head :: u32
  input_tail :: u32
  dropped_input_count :: u32

definition key_is_letter :: "u8 \<Rightarrow> keyboard \<Rightarrow> bool" where
  "key_is_letter key_code k =
     (let c = active_keymap k key_code
      in (c \<ge> 97 \<and> c \<le> 122) \<or> c = 0xFD \<or> c = 0xF0 \<or> c = 0xFC \<or> c = 0xFE \<or> c = 0xF6 \<or> c = 0xE7)"

definition enqueue_character :: "u8 \<Rightarrow> keyboard \<Rightarrow> keyboard" where
  "enqueue_character c k =
     (let next_head = (input_head k + 1) AND 127 in
      if next_head = input_tail k then
        (if dropped_input_count k \<noteq> 0xFFFFFFFF
         then k\<lparr>dropped_input_count := dropped_input_count k + 1\<rparr> else k)
      else k\<lparr>input_buffer := (input_buffer k)[unat (input_head k) := c], input_head := next_head\<rparr>)"

definition keyboard_set_layout :: "keyboard_layout \<Rightarrow> keyboard \<Rightarrow> keyboard" where
  "keyboard_set_layout layout k =
     (if layout = KEYBOARD_LAYOUT_TURKISH
      then k\<lparr>active_keymap := turkish_keymap, active_shift_keymap := turkish_shift_keymap\<rparr>
      else k\<lparr>active_keymap := english_keymap, active_shift_keymap := english_shift_keymap\<rparr>)"

definition keyboard_init :: "keyboard \<Rightarrow> keyboard" where
  "keyboard_init k = (keyboard_set_layout KEYBOARD_LAYOUT_ENGLISH k)
     \<lparr>left_shift_active := False, right_shift_active := False, control_active := False,
      alt_active := False, caps_lock_active := False, extended_prefix := False,
      input_head := 0, input_tail := 0, dropped_input_count := 0\<rparr>"

definition keyboard_irq_handler :: "u8 \<Rightarrow> keyboard \<Rightarrow> keyboard" where
  "keyboard_irq_handler scan_code k =
     (let key_code = scan_code AND 0x7F;
          pressed = (scan_code AND 0x80 = 0)
      in if scan_code = 0xE0 then k\<lparr>extended_prefix := True\<rparr>
         else if extended_prefix k then
           (if key_code = 0x1D then k\<lparr>control_active := pressed\<rparr>
            else if key_code = 0x38 then k\<lparr>alt_active := pressed\<rparr> else k)\<lparr>extended_prefix := False\<rparr>
         else if key_code = 0x2A then k\<lparr>left_shift_active := pressed\<rparr>
         else if key_code = 0x36 then k\<lparr>right_shift_active := pressed\<rparr>
         else if key_code = 0x1D then k\<lparr>control_active := pressed, extended_prefix := False\<rparr>
         else if key_code = 0x38 then k\<lparr>alt_active := pressed, extended_prefix := False\<rparr>
         else if \<not> pressed then k
         else if key_code = 0x3A then k\<lparr>caps_lock_active := \<not> caps_lock_active k\<rparr>
         else
           let shift0 = left_shift_active k \<or> right_shift_active k;
               shift_active = (if caps_lock_active k \<and> key_is_letter key_code k then \<not> shift0 else shift0);
               character = (if shift_active then active_shift_keymap k key_code
                            else active_keymap k key_code)
           in if character \<noteq> 0 \<and> \<not> control_active k \<and> \<not> alt_active k
              then enqueue_character character k else k)"

definition keyboard_has_pending :: "keyboard \<Rightarrow> bool" where
  "keyboard_has_pending k \<longleftrightarrow> input_head k \<noteq> input_tail k"

text \<open>The argument tells whether the caller's pointer is not null.\<close>

definition keyboard_read_char :: "bool \<Rightarrow> keyboard \<Rightarrow> u8 option \<times> keyboard" where
  "keyboard_read_char has_pointer k =
     (if \<not> has_pointer \<or> input_tail k = input_head k then (None, k)
      else (Some (input_buffer k ! unat (input_tail k)),
            k\<lparr>input_tail := (input_tail k + 1) AND 127\<rparr>))"

definition keyboard_dropped_input_count :: "keyboard \<Rightarrow> u32" where
  "keyboard_dropped_input_count k = dropped_input_count k"

section \<open>The buffer as a list\<close>

definition kb_wf :: "keyboard \<Rightarrow> bool" where
  "kb_wf k \<longleftrightarrow> length (input_buffer k) = KEYBOARD_BUFFER_SIZE \<and>
     unat (input_head k) < KEYBOARD_BUFFER_SIZE \<and> unat (input_tail k) < KEYBOARD_BUFFER_SIZE"

definition kb_count :: "keyboard \<Rightarrow> nat" where
  "kb_count k = (unat (input_head k) + KEYBOARD_BUFFER_SIZE - unat (input_tail k)) mod KEYBOARD_BUFFER_SIZE"

definition pending :: "keyboard \<Rightarrow> u8 list" where
  "pending k = ring_list KEYBOARD_BUFFER_SIZE (input_buffer k) (unat (input_tail k)) (kb_count k)"

lemma unat_next: "unat ((w + 1) AND (127::u32)) = (unat w + 1) mod 128"
proof -
  have "(127::u32) = mask 7" by (simp add: mask_eq_exp_minus_1)
  then have "(w + 1) AND 127 = take_bit 7 (w + 1)" by (simp only: take_bit_eq_mask)
  then have "unat ((w + 1) AND 127) = unat (w + 1) mod 128"
    by (simp add: take_bit_eq_mod unat_mod_distrib)
  also have "\<dots> = (unat w + 1) mod 128"
    by (simp add: unat_word_ariths(1) mod_mod_cancel)
  finally show ?thesis .
qed

lemma ring_full:
  assumes "h < 128" "t < 128"
  shows "(h + 1) mod 128 = t \<longleftrightarrow> (h + 128 - t) mod 128 = (127::nat)"
    and "h = t \<longleftrightarrow> (h + 128 - t) mod 128 = (0::nat)"
    and "(t + (h + 128 - t) mod 128) mod 128 = h"
  using assms by (auto simp: mod_if split: if_splits)

lemma ring_advance:
  assumes "h < 128" "t < 128"
  shows "(h + 1) mod 128 \<noteq> t \<Longrightarrow>
      ((h + 1) mod 128 + 128 - t) mod 128 = Suc ((h + 128 - t) mod (128::nat))"
    and "h \<noteq> t \<Longrightarrow> (h + 128 - (t + 1) mod 128) mod 128 = (h + 128 - t) mod 128 - (1::nat)"
  using assms by (auto simp: mod_if split: if_splits)

lemma enqueue_pending:
  assumes "kb_wf k"
  shows "kb_wf (enqueue_character c k)"
    and "pending (enqueue_character c k) =
      (if length (pending k) < KEYBOARD_BUFFER_SIZE - 1 then pending k @ [c] else pending k)"
proof -
  let ?h = "unat (input_head k)" and ?t = "unat (input_tail k)"
  have b: "length (input_buffer k) = 128" "?h < 128" "?t < 128" using assms by (auto simp: kb_wf_def)
  have full: "(input_head k + 1) AND 127 = input_tail k \<longleftrightarrow> kb_count k = 127"
    using ring_full(1) [OF b(2,3)] by (simp add: word_unat_eq_iff unat_next kb_count_def)
  have lt: "kb_count k < 128" by (simp add: kb_count_def)
  have len: "length (pending k) = kb_count k" by (simp add: pending_def)
  show "kb_wf (enqueue_character c k)"
    using b by (simp add: enqueue_character_def Let_def kb_wf_def unat_next)
  show "pending (enqueue_character c k) =
      (if length (pending k) < KEYBOARD_BUFFER_SIZE - 1 then pending k @ [c] else pending k)"
  proof (cases "kb_count k = 127")
    case True
    then show ?thesis using full len
      by (auto simp: enqueue_character_def Let_def pending_def kb_count_def)
  next
    case False
    let ?k = "k\<lparr>input_buffer := (input_buffer k)[?h := c], input_head := (input_head k + 1) AND 127\<rparr>"
    have e: "enqueue_character c k = ?k" using False full by (simp add: enqueue_character_def Let_def)
    have ne: "(?h + 1) mod 128 \<noteq> ?t" using False ring_full(1) [OF b(2,3)] by (simp add: kb_count_def)
    have "kb_count ?k = Suc (kb_count k)"
      using ring_advance(1) [OF b(2,3) ne] unat_next [of "input_head k"] by (simp add: kb_count_def)
    moreover have "?h = (?t + kb_count k) mod 128" using ring_full(3) [OF b(2,3)] by (simp add: kb_count_def)
    ultimately have "pending ?k = pending k @ [c]"
      using ring_push [OF b(1), of "kb_count k" ?t c] lt by (simp add: pending_def)
    then show ?thesis using e len False lt by simp
  qed
qed

lemma read_pending:
  assumes "kb_wf k" and "keyboard_read_char True k = (r, k')"
  shows "kb_wf k' \<and> r = (if pending k = [] then None else Some (hd (pending k))) \<and>
    pending k' = tl (pending k)"
proof -
  let ?h = "unat (input_head k)" and ?t = "unat (input_tail k)"
  have b: "length (input_buffer k) = 128" "?h < 128" "?t < 128" using assms by (auto simp: kb_wf_def)
  have empty: "input_tail k = input_head k \<longleftrightarrow> kb_count k = 0"
    using ring_full(2) [OF b(2,3)] by (auto simp: word_unat_eq_iff kb_count_def)
  have len: "length (pending k) = kb_count k" by (simp add: pending_def)
  show ?thesis
  proof (cases "kb_count k = 0")
    case True
    then have "pending k = []" using len by simp
    with True show ?thesis using assms empty by (simp add: keyboard_read_char_def)
  next
    case False
    let ?k = "k\<lparr>input_tail := (input_tail k + 1) AND 127\<rparr>"
    have k': "k' = ?k" "r = Some (input_buffer k ! ?t)"
      using assms(2) False empty by (auto simp: keyboard_read_char_def)
    have "?h \<noteq> ?t" using False ring_full(2) [OF b(2,3)] by (simp add: kb_count_def)
    then have "kb_count ?k = kb_count k - 1"
      using ring_advance(2) [OF b(2,3)] unat_next [of "input_tail k"] by (simp add: kb_count_def)
    then have "pending ?k = tl (pending k)"
      using ring_pop [of "kb_count k" 128 "input_buffer k" ?t] False unat_next [of "input_tail k"]
      by (simp add: pending_def kb_count_def less_imp_le)
    moreover have "hd (pending k) = input_buffer k ! ?t"
      using ring_hd [of "kb_count k" ?t 128] False b by (simp add: pending_def)
    moreover have "pending k \<noteq> []" using len False by auto
    moreover have "kb_wf ?k" using b by (simp add: kb_wf_def unat_next)
    ultimately show ?thesis using k' by simp
  qed
qed

section \<open>The queue contract\<close>

definition kb_push :: "u8 \<Rightarrow> keyboard \<Rightarrow> bool \<times> keyboard" where
  "kb_push c k = ((input_head k + 1) AND 127 \<noteq> input_tail k, enqueue_character c k)"

interpretation kb_fifo: fifo_queue kb_push "keyboard_read_char True" pending kb_wf "\<lambda>_. True"
  "KEYBOARD_BUFFER_SIZE - 1"
proof unfold_locales
  fix k c b k' assume wf: "kb_wf k" and p: "kb_push c k = (b, k')"
  have "b \<longleftrightarrow> kb_count k \<noteq> 127"
    using p wf ring_full(1) [of "unat (input_head k)" "unat (input_tail k)"]
    by (auto simp: kb_push_def word_unat_eq_iff unat_next kb_count_def kb_wf_def)
  moreover have "kb_count k < 128" "length (pending k) = kb_count k"
    by (simp_all add: kb_count_def pending_def)
  ultimately show "kb_wf k' \<and> (b \<longleftrightarrow> True \<and> length (pending k) < KEYBOARD_BUFFER_SIZE - 1) \<and>
      pending k' = (if b then pending k @ [c] else pending k)"
    using enqueue_pending [OF wf, of c] p by (auto simp: kb_push_def)
qed (rule read_pending)

section \<open>Properties\<close>

definition kb_reset :: keyboard where
  "kb_reset = keyboard_init \<lparr>active_keymap = english_keymap, active_shift_keymap = english_shift_keymap,
     left_shift_active = False, right_shift_active = False, control_active = False,
     alt_active = False, caps_lock_active = False, extended_prefix = False,
     input_buffer = replicate 128 0, input_head = 0, input_tail = 0, dropped_input_count = 0\<rparr>"

lemma kb_reset_wf: "kb_wf kb_reset" and kb_reset_pending: "pending kb_reset = []"
  by (simp_all add: kb_reset_def keyboard_init_def keyboard_set_layout_def kb_wf_def pending_def
      kb_count_def ring_list_def)

text \<open>C20: The keyboard ring is a first-in first-out queue of at most 127 characters: along every
  interleaving of enqueued characters and reads, the characters pending before followed by
  those accepted are the characters delivered followed by those still pending.\<close>

theorem keyboard_fifo:
  assumes "kb_wf k" and "kb_fifo.run ops k = (accepted, delivered, k')"
  shows "pending k @ accepted = delivered @ pending k' \<and>
    length (pending k') \<le> KEYBOARD_BUFFER_SIZE - 1"
proof -
  have "kb_count k < 128" by (simp add: kb_count_def)
  then have "length (pending k) \<le> KEYBOARD_BUFFER_SIZE - 1" by (simp add: pending_def)
  then show ?thesis using kb_fifo.delivery [OF assms] kb_fifo.bounded [OF assms(1) _ assms(2)] by simp
qed

theorem keyboard_fifo_witness:
  "\<exists>a d k'. kb_fifo.run [Push 104, Push 105, Pop] kb_reset = (a, d, k') \<and> a = d @ pending k'"
proof -
  obtain a d k' where r: "kb_fifo.run [Push 104, Push 105, Pop] kb_reset = (a, d, k')"
    by (metis surj_pair)
  show ?thesis using keyboard_fifo [OF kb_reset_wf r] r by (simp add: kb_reset_pending)
qed

text \<open>One interrupt adds at most one character to the buffer, and only for the press of a key
  outside an extended sequence while neither Control nor Alt is held; the character is the
  shifted one exactly when Shift is held, or Caps Lock is on for a letter, but not both.
  Every other scan code leaves the pending characters as they are.\<close>

theorem keyboard_irq_appends:
  assumes "kb_wf k"
  shows "kb_wf (keyboard_irq_handler scan k) \<and>
    (pending (keyboard_irq_handler scan k) = pending k \<or>
     (\<exists>c. pending (keyboard_irq_handler scan k) = pending k @ [c] \<and>
        scan AND 0x80 = 0 \<and> \<not> extended_prefix k \<and> \<not> control_active k \<and> \<not> alt_active k \<and> c \<noteq> 0 \<and>
        c = (if (left_shift_active k \<or> right_shift_active k) \<noteq>
               (caps_lock_active k \<and> key_is_letter (scan AND 0x7F) k)
             then active_shift_keymap k (scan AND 0x7F) else active_keymap k (scan AND 0x7F))))"
proof -
  have same: "pending (k\<lparr>extended_prefix := a\<rparr>) = pending k"
    "pending (k\<lparr>control_active := b\<rparr>) = pending k" "pending (k\<lparr>alt_active := b\<rparr>) = pending k"
    "pending (k\<lparr>left_shift_active := b\<rparr>) = pending k" "pending (k\<lparr>right_shift_active := b\<rparr>) = pending k"
    "pending (k\<lparr>caps_lock_active := b\<rparr>) = pending k"
    "pending (k\<lparr>control_active := b, extended_prefix := a\<rparr>) = pending k"
    "pending (k\<lparr>alt_active := b, extended_prefix := a\<rparr>) = pending k" for a b
    by (simp_all add: pending_def kb_count_def)
  show ?thesis
    using assms enqueue_pending [OF assms]
    unfolding keyboard_irq_handler_def Let_def
    by (simp add: same split del: if_split) (auto simp: same kb_wf_def)
qed

theorem keyboard_irq_appends_witness:
  "pending (keyboard_irq_handler 0x1E kb_reset) = [] \<or> pending (keyboard_irq_handler 0x1E kb_reset) = [97]"
  using keyboard_irq_appends [OF kb_reset_wf, of "0x1E"]
  by (auto simp: kb_reset_pending) (simp add: kb_reset_def keyboard_init_def keyboard_set_layout_def
      english_keymap_def lookup_key_def)

end
