(* ===== verification/Journal.thy ===== *)
theory Journal
  imports Prelude
begin

text \<open>
  The transactional journal (\<open>fs/journal.c\<close>): the one-sector record with its checksum and
  commit marker, the superblock, the scan that accepts a contiguous log and at most one torn
  record behind it, replay in two passes, and the two-phase append. The block device enters
  through the callbacks \<open>read\<close> and \<open>write\<close>, which thread the state of the device.
\<close>

section \<open>Constants and data\<close>

abbreviation JOURNAL_MAGIC :: u32 where "JOURNAL_MAGIC \<equiv> 0x314A5346"
abbreviation JOURNAL_VERSION :: u32 where "JOURNAL_VERSION \<equiv> 1"
abbreviation JOURNAL_COMMIT :: u32 where "JOURNAL_COMMIT \<equiv> 0xC0DE17ED"
abbreviation JOURNAL_SECTOR_SIZE :: nat where "JOURNAL_SECTOR_SIZE \<equiv> 512"
abbreviation JOURNAL_NAME_MAX :: nat where "JOURNAL_NAME_MAX \<equiv> 32"
abbreviation JOURNAL_CONTENT_MAX :: nat where "JOURNAL_CONTENT_MAX \<equiv> 256"
abbreviation JOURNAL_MAX_DATA_SECTORS :: nat where "JOURNAL_MAX_DATA_SECTORS \<equiv> 1024"
abbreviation JOURNAL_HEADER_SIZE :: nat where "JOURNAL_HEADER_SIZE \<equiv> 20"
abbreviation JOURNAL_CONTENT_OFFSET :: nat where "JOURNAL_CONTENT_OFFSET \<equiv> 52"
abbreviation JOURNAL_PAYLOAD_END :: nat where "JOURNAL_PAYLOAD_END \<equiv> 308"
abbreviation JOURNAL_COMMIT_OFFSET :: nat where "JOURNAL_COMMIT_OFFSET \<equiv> 508"
abbreviation JOURNAL_OPERATION_WRITE :: u32 where "JOURNAL_OPERATION_WRITE \<equiv> 1"
abbreviation JOURNAL_OPERATION_REMOVE :: u32 where "JOURNAL_OPERATION_REMOVE \<equiv> 2"

record journal_entry =
  operation :: u32
  sequence :: u32
  name_length :: u32
  content_length :: u32
  entry_name :: bytes
  entry_content :: bytes

section \<open>Checksum\<close>

definition crc32_step :: "u32 \<Rightarrow> u32" where
  "crc32_step crc = drop_bit 1 crc XOR (if crc AND 1 \<noteq> 0 then 0xEDB88320 else 0)"

definition crc32_update :: "u32 \<Rightarrow> bytes \<Rightarrow> u32" where
  "crc32_update crc data = fold (\<lambda>b c. (crc32_step ^^ 8) (c XOR ucast b)) data crc"

definition record_crc :: "bytes \<Rightarrow> u32" where
  "record_crc sector =
     NOT (crc32_update (crc32_update 0xFFFFFFFF (take 16 sector))
            (take 288 (drop JOURNAL_HEADER_SIZE sector)))"

definition superblock_crc :: "bytes \<Rightarrow> u32" where
  "superblock_crc sector = NOT (crc32_update 0xFFFFFFFF (take 12 sector))"

section \<open>Records\<close>

definition name_byte_ok :: "u8 \<Rightarrow> bool" where
  "name_byte_ok c \<longleftrightarrow> \<not> (c < 33 \<or> c = 47 \<or> c = 92)"

text \<open>The second argument is the length found or stated for the name.\<close>

definition valid_name :: "bytes option \<Rightarrow> nat \<Rightarrow> bool" where
  "valid_name name len =
     (case name of None \<Rightarrow> False
      | Some s \<Rightarrow> if len = 0 \<or> len \<ge> JOURNAL_NAME_MAX then False else list_all name_byte_ok (take len s))"

definition zero_from :: "bytes \<Rightarrow> nat \<Rightarrow> nat \<Rightarrow> bool" where
  "zero_from sector a b \<longleftrightarrow> list_all (\<lambda>i. sector ! i = 0) [a ..< b]"

text \<open>
  The result is the filled sector, \<open>None\<close> when the request is refused (the sector buffer is
  never null in the callers).
\<close>

definition journal_encode_internal ::
    "u32 \<Rightarrow> u32 \<Rightarrow> bytes option \<Rightarrow> bytes option \<Rightarrow> u32 \<Rightarrow> bool \<Rightarrow> bytes option" where
  "journal_encode_internal oper seq nm content clen committed =
     (if seq = 0 \<or> (oper \<noteq> JOURNAL_OPERATION_WRITE \<and> oper \<noteq> JOURNAL_OPERATION_REMOVE) \<or>
         unat clen > JOURNAL_CONTENT_MAX \<or> (clen \<noteq> 0 \<and> content = None) then None
      else
        let nlen = bounded_length nm JOURNAL_NAME_MAX in
        if \<not> valid_name nm nlen \<or> (oper = JOURNAL_OPERATION_REMOVE \<and> clen \<noteq> 0) then None
        else
          let s0 = replicate JOURNAL_SECTOR_SIZE 0;
              s1 = put32 s0 0 JOURNAL_MAGIC;
              s2 = put16 s1 4 JOURNAL_VERSION;
              s3 = put16 s2 6 oper;
              s4 = put32 s3 8 seq;
              s5 = put16 s4 12 (of_nat nlen);
              s6 = put16 s5 14 clen;
              s7 = copy_into s6 JOURNAL_HEADER_SIZE (take nlen (the nm));
              s8 = copy_into s7 JOURNAL_CONTENT_OFFSET
                     (case content of None \<Rightarrow> [] | Some c \<Rightarrow> take (unat clen) c);
              s9 = put32 s8 16 (record_crc s8)
          in Some (if committed then put32 s9 JOURNAL_COMMIT_OFFSET JOURNAL_COMMIT else s9))"

definition journal_encode ::
    "u32 \<Rightarrow> u32 \<Rightarrow> bytes option \<Rightarrow> bytes option \<Rightarrow> u32 \<Rightarrow> bytes option" where
  "journal_encode oper seq nm content clen = journal_encode_internal oper seq nm content clen True"

definition journal_decode_internal :: "bytes \<Rightarrow> bool \<Rightarrow> journal_entry option" where
  "journal_decode_internal sector require_commit =
     (let nlen = unat (le16 sector 12); clen = unat (le16 sector 14); oper = le16 sector 6 in
      if le32 sector 0 \<noteq> JOURNAL_MAGIC \<or> le16 sector 4 \<noteq> JOURNAL_VERSION \<or> le32 sector 8 = 0 \<or>
         le32 sector JOURNAL_COMMIT_OFFSET \<noteq> (if require_commit then JOURNAL_COMMIT else 0) then None
      else if oper \<noteq> JOURNAL_OPERATION_WRITE \<and> oper \<noteq> JOURNAL_OPERATION_REMOVE then None
      else if \<not> valid_name (Some (drop JOURNAL_HEADER_SIZE sector)) nlen \<or>
              clen > JOURNAL_CONTENT_MAX \<or> (oper = JOURNAL_OPERATION_REMOVE \<and> clen \<noteq> 0) \<or>
              le32 sector 16 \<noteq> record_crc sector then None
      else if sector ! (JOURNAL_HEADER_SIZE + nlen) \<noteq> 0 \<or>
              \<not> zero_from sector (JOURNAL_HEADER_SIZE + nlen + 1) JOURNAL_CONTENT_OFFSET \<or>
              \<not> zero_from sector (JOURNAL_CONTENT_OFFSET + clen) JOURNAL_PAYLOAD_END \<or>
              \<not> zero_from sector JOURNAL_PAYLOAD_END JOURNAL_COMMIT_OFFSET then None
      else Some \<lparr>operation = oper, sequence = le32 sector 8,
             name_length = le16 sector 12, content_length = le16 sector 14,
             entry_name = take JOURNAL_NAME_MAX (drop JOURNAL_HEADER_SIZE sector),
             entry_content = take JOURNAL_CONTENT_MAX (drop JOURNAL_CONTENT_OFFSET sector)\<rparr>)"

definition journal_decode :: "bytes \<Rightarrow> journal_entry option" where
  "journal_decode sector = journal_decode_internal sector True"

definition journal_decode_prepared :: "bytes \<Rightarrow> journal_entry option" where
  "journal_decode_prepared sector = journal_decode_internal sector False"

section \<open>Superblock\<close>

definition journal_superblock_encode :: "u32 \<Rightarrow> bytes option" where
  "journal_superblock_encode data_sectors =
     (if data_sectors = 0 \<or> unat data_sectors > JOURNAL_MAX_DATA_SECTORS then None
      else
        let s0 = replicate JOURNAL_SECTOR_SIZE 0;
            s1 = put32 s0 0 JOURNAL_MAGIC;
            s2 = put16 s1 4 JOURNAL_VERSION;
            s3 = put16 s2 6 data_sectors;
            s4 = put32 s3 8 0;
            s5 = put32 s4 12 (superblock_crc s4)
        in Some (put32 s5 JOURNAL_COMMIT_OFFSET JOURNAL_COMMIT))"

definition journal_superblock_decode :: "bytes \<Rightarrow> nat option" where
  "journal_superblock_decode sector =
     (let cnt = unat (le16 sector 6) in
      if le32 sector 0 \<noteq> JOURNAL_MAGIC \<or> le16 sector 4 \<noteq> JOURNAL_VERSION \<or>
         le32 sector JOURNAL_COMMIT_OFFSET \<noteq> JOURNAL_COMMIT then None
      else if cnt = 0 \<or> cnt > JOURNAL_MAX_DATA_SECTORS \<or> le32 sector 8 \<noteq> 0 \<or>
              le32 sector 12 \<noteq> superblock_crc sector then None
      else if \<not> zero_from sector 16 JOURNAL_COMMIT_OFFSET then None
      else Some cnt)"

definition sector_is_empty :: "bytes \<Rightarrow> bool" where
  "sector_is_empty sector = zero_from sector 0 JOURNAL_SECTOR_SIZE"

definition sequence_is_newer :: "u32 \<Rightarrow> u32 \<Rightarrow> bool" where
  "sequence_is_newer seq previous \<longleftrightarrow> seq \<noteq> 0 \<and> seq > previous"

definition region_fits :: "u64 \<Rightarrow> nat \<Rightarrow> bool" where
  "region_fits start_lba sector_count \<longleftrightarrow>
     sector_count \<noteq> 0 \<and> start_lba \<le> 0xFFFFFFFFFFFFFFFF - (of_nat sector_count - 1)"

section \<open>Scanning, replaying and appending\<close>

type_synonym 'd reader = "u64 \<Rightarrow> 'd \<Rightarrow> bytes option \<times> 'd"
type_synonym 'd writer = "u64 \<Rightarrow> bytes \<Rightarrow> 'd \<Rightarrow> bool \<times> 'd"

definition is_torn_tail :: "bytes \<Rightarrow> u32 \<Rightarrow> bool" where
  "is_torn_tail sector previous \<longleftrightarrow>
     le32 sector JOURNAL_COMMIT_OFFSET = 0 \<and>
     (case journal_decode_prepared sector of None \<Rightarrow> False
      | Some prepared \<Rightarrow> sequence_is_newer (sequence prepared) previous)"

text \<open>
  The first loop of \<open>scan_log\<close>, over the indices still to visit: the remaining indices, the
  last sequence and the number of records, or \<open>None\<close> when the scan fails.
\<close>

fun scan_records :: "'d reader \<Rightarrow> u64 \<Rightarrow> nat list \<Rightarrow> u32 \<Rightarrow> nat \<Rightarrow> 'd \<Rightarrow>
    (nat list \<times> u32 \<times> nat) option \<times> 'd" where
  "scan_records read start [] previous cnt d = (Some ([], previous, cnt), d)"
| "scan_records read start (index # rest) previous cnt d =
     (case read (start + 1 + of_nat index) d of
        (None, d1) \<Rightarrow> (None, d1)
      | (Some sector, d1) \<Rightarrow>
          if sector_is_empty sector then (Some (index # rest, previous, cnt), d1)
          else case journal_decode sector of
              Some entry \<Rightarrow>
                if sequence_is_newer (sequence entry) previous
                then scan_records read start rest (sequence entry) (cnt + 1) d1
                else if is_torn_tail sector previous then (Some (rest, previous, cnt), d1)
                else (None, d1)
            | None \<Rightarrow>
                if is_torn_tail sector previous then (Some (rest, previous, cnt), d1)
                else (None, d1))"

fun scan_rest :: "'d reader \<Rightarrow> u64 \<Rightarrow> nat list \<Rightarrow> 'd \<Rightarrow> bool \<times> 'd" where
  "scan_rest read start [] d = (True, d)"
| "scan_rest read start (index # rest) d =
     (case read (start + 1 + of_nat index) d of
        (None, d1) \<Rightarrow> (False, d1)
      | (Some sector, d1) \<Rightarrow>
          if \<not> sector_is_empty sector then (False, d1) else scan_rest read start rest d1)"

definition scan_log :: "'d reader \<Rightarrow> u64 \<Rightarrow> nat \<Rightarrow> 'd \<Rightarrow> (nat \<times> u32) option \<times> 'd" where
  "scan_log read start data_sectors d =
     (case scan_records read start [0 ..< data_sectors] 0 0 d of
        (None, d1) \<Rightarrow> (None, d1)
      | (Some (rest, last_seq, cnt), d1) \<Rightarrow>
          (case scan_rest read start rest d1 of
             (False, d2) \<Rightarrow> (None, d2)
           | (True, d2) \<Rightarrow> (Some (cnt, last_seq), d2)))"

text \<open>The guards the three entry points share: the number of data sectors when they pass.\<close>

definition open_region :: "'d reader \<Rightarrow> u64 \<Rightarrow> nat \<Rightarrow> 'd \<Rightarrow> nat option \<times> 'd" where
  "open_region read start sector_count d =
     (if sector_count < 2 \<or> sector_count > JOURNAL_MAX_DATA_SECTORS + 1 \<or>
         \<not> region_fits start sector_count then (None, d)
      else case read start d of
          (None, d1) \<Rightarrow> (None, d1)
        | (Some sector, d1) \<Rightarrow>
            (case journal_superblock_decode sector of
               None \<Rightarrow> (None, d1)
             | Some data_sectors \<Rightarrow>
                 if data_sectors + 1 > sector_count then (None, d1) else (Some data_sectors, d1)))"

fun apply_records :: "'d reader \<Rightarrow> (journal_entry \<Rightarrow> 'a \<Rightarrow> bool \<times> 'a) \<Rightarrow> u64 \<Rightarrow> nat list \<Rightarrow>
    'd \<times> 'a \<Rightarrow> bool \<times> 'd \<times> 'a" where
  "apply_records read apply_fn start [] st = (True, st)"
| "apply_records read apply_fn start (index # rest) (d, a) =
     (case read (start + 1 + of_nat index) d of
        (None, d1) \<Rightarrow> (False, d1, a)
      | (Some sector, d1) \<Rightarrow>
          (case journal_decode sector of
             None \<Rightarrow> (False, d1, a)
           | Some entry \<Rightarrow>
               (case apply_fn entry a of
                  (False, a1) \<Rightarrow> (False, d1, a1)
                | (True, a1) \<Rightarrow> apply_records read apply_fn start rest (d1, a1))))"

text \<open>The number stored through \<open>applied\<close> is the second component.\<close>

definition journal_replay :: "'d reader \<Rightarrow> u64 \<Rightarrow> nat \<Rightarrow> (journal_entry \<Rightarrow> 'a \<Rightarrow> bool \<times> 'a) \<Rightarrow>
    'd \<times> 'a \<Rightarrow> bool \<times> nat \<times> 'd \<times> 'a" where
  "journal_replay read start sector_count apply_fn st =
     (case open_region read start sector_count (fst st) of
        (None, d1) \<Rightarrow> (False, 0, d1, snd st)
      | (Some data_sectors, d1) \<Rightarrow>
          (case scan_log read start data_sectors d1 of
             (None, d2) \<Rightarrow> (False, 0, d2, snd st)
           | (Some (record_count, _), d2) \<Rightarrow>
               (case apply_records read apply_fn start [0 ..< record_count] (d2, snd st) of
                  (False, st') \<Rightarrow> (False, 0, st')
                | (True, st') \<Rightarrow> (True, record_count, st'))))"

definition journal_next_sequence :: "'d reader \<Rightarrow> u64 \<Rightarrow> nat \<Rightarrow> 'd \<Rightarrow> u32 option \<times> 'd" where
  "journal_next_sequence read start sector_count d =
     (case open_region read start sector_count d of
        (None, d1) \<Rightarrow> (None, d1)
      | (Some data_sectors, d1) \<Rightarrow>
          (case scan_log read start data_sectors d1 of
             (None, d2) \<Rightarrow> (None, d2)
           | (Some (_, last_seq), d2) \<Rightarrow>
               if last_seq = 0xFFFFFFFF then (None, d2) else (Some (last_seq + 1), d2)))"

definition journal_append :: "'d reader \<Rightarrow> 'd writer \<Rightarrow> u64 \<Rightarrow> nat \<Rightarrow> u32 \<Rightarrow> u32 \<Rightarrow>
    bytes option \<Rightarrow> bytes option \<Rightarrow> u32 \<Rightarrow> 'd \<Rightarrow> bool \<times> 'd" where
  "journal_append read write_fn start sector_count oper seq nm content clen d =
     (case open_region read start sector_count d of
        (None, d1) \<Rightarrow> (False, d1)
      | (Some data_sectors, d1) \<Rightarrow>
          (case scan_log read start data_sectors d1 of
             (None, d2) \<Rightarrow> (False, d2)
           | (Some (record_count, last_seq), d2) \<Rightarrow>
               if record_count \<ge> data_sectors \<or> \<not> sequence_is_newer seq last_seq then (False, d2)
               else case journal_encode_internal oper seq nm content clen False of
                   None \<Rightarrow> (False, d2)
                 | Some sector \<Rightarrow>
                     let target = start + 1 + of_nat record_count in
                     (case write_fn target sector d2 of
                        (False, d3) \<Rightarrow> (False, d3)
                      | (True, d3) \<Rightarrow>
                          (case write_fn target (put32 sector JOURNAL_COMMIT_OFFSET JOURNAL_COMMIT) d3 of
                             (False, d4) \<Rightarrow> (False, d4)
                           | (True, d4) \<Rightarrow>
                               (case read target d4 of
                                  (None, d5) \<Rightarrow> (False, d5)
                                | (Some back, d5) \<Rightarrow> (journal_decode back \<noteq> None, d5))))))"

section \<open>The layout of a record\<close>

lemma zero_from_iff: "zero_from s a b \<longleftrightarrow> (\<forall>i. a \<le> i \<and> i < b \<longrightarrow> s ! i = 0)"
  by (auto simp: zero_from_def list_all_iff)

lemma take_put32: "n \<le> i \<Longrightarrow> take n (put32 d i v) = take n d"
  by (simp add: put32_def put16_def)

lemma drop_put32: "i + 3 < n \<Longrightarrow> drop n (put32 d i v) = drop n d"
  by (simp add: put32_def put16_def)

lemma take_drop_put32: "n + m \<le> i \<Longrightarrow> take m (drop n (put32 d i v)) = take m (drop n d)"
  using take_put32 [of "n + m" i d v] by (metis take_drop add.commute)

text \<open>The sector a record occupies, without and with its checksum and commit marker.\<close>

definition record_body :: "u32 \<Rightarrow> u32 \<Rightarrow> bytes \<Rightarrow> bytes \<Rightarrow> bytes" where
  "record_body oper seq nb cb =
     copy_into (copy_into (put16 (put16 (put32 (put16 (put16 (put32 (replicate 512 0)
       0 JOURNAL_MAGIC) 4 JOURNAL_VERSION) 6 oper) 8 seq) 12 (of_nat (length nb))) 14 (of_nat (length cb)))
       JOURNAL_HEADER_SIZE nb) JOURNAL_CONTENT_OFFSET cb"

definition record_sector :: "u32 \<Rightarrow> u32 \<Rightarrow> bytes \<Rightarrow> bytes \<Rightarrow> bool \<Rightarrow> bytes" where
  "record_sector oper seq nb cb committed =
     (let s9 = put32 (record_body oper seq nb cb) 16 (record_crc (record_body oper seq nb cb))
      in if committed then put32 s9 JOURNAL_COMMIT_OFFSET JOURNAL_COMMIT else s9)"

definition record_ok :: "u32 \<Rightarrow> u32 \<Rightarrow> bytes \<Rightarrow> bytes \<Rightarrow> bool" where
  "record_ok oper seq nb cb \<longleftrightarrow>
     seq \<noteq> 0 \<and> (oper = JOURNAL_OPERATION_WRITE \<or> oper = JOURNAL_OPERATION_REMOVE \<and> cb = []) \<and>
     0 < length nb \<and> length nb < JOURNAL_NAME_MAX \<and> list_all name_byte_ok nb \<and>
     length cb \<le> JOURNAL_CONTENT_MAX"

lemma record_ok_bounds:
  assumes "record_ok oper seq nb cb"
  shows "length nb < 32" "length cb \<le> 256" "unat oper < 65536"
    "unat (of_nat (length nb) :: u32) = length nb" "unat (of_nat (length cb) :: u32) = length cb"
  using assms by (auto simp: record_ok_def unat_of_nat take_bit_eq_mod)

lemma length_record_body [simp]:
  "length nb < 32 \<Longrightarrow> length cb \<le> 256 \<Longrightarrow> length (record_body oper seq nb cb) = 512"
  by (simp add: record_body_def)

lemma length_record_sector [simp]:
  "length nb < 32 \<Longrightarrow> length cb \<le> 256 \<Longrightarrow> length (record_sector oper seq nb cb c) = 512"
  by (simp add: record_sector_def Let_def)

lemma record_crc_sector:
  assumes "length nb < 32" "length cb \<le> 256"
  shows "record_crc (record_sector oper seq nb cb c) = record_crc (record_body oper seq nb cb)"
  using assms by (simp add: record_sector_def Let_def record_crc_def take_put32 drop_put32 take_drop_put32)

lemma record_fields:
  assumes "record_ok oper seq nb cb"
  shows "le32 (record_sector oper seq nb cb c) 0 = JOURNAL_MAGIC"
    "le16 (record_sector oper seq nb cb c) 4 = JOURNAL_VERSION"
    "le16 (record_sector oper seq nb cb c) 6 = oper"
    "le32 (record_sector oper seq nb cb c) 8 = seq"
    "le16 (record_sector oper seq nb cb c) 12 = of_nat (length nb)"
    "le16 (record_sector oper seq nb cb c) 14 = of_nat (length cb)"
    "le32 (record_sector oper seq nb cb c) 16 = record_crc (record_sector oper seq nb cb c)"
    "le32 (record_sector oper seq nb cb c) 508 = (if c then JOURNAL_COMMIT else 0)"
proof -
  note b = record_ok_bounds [OF assms]
  have z: "le32 (replicate 512 0) 508 = 0" by (simp add: le32_def)
  show "le32 (record_sector oper seq nb cb c) 0 = JOURNAL_MAGIC"
    "le16 (record_sector oper seq nb cb c) 4 = JOURNAL_VERSION"
    "le16 (record_sector oper seq nb cb c) 6 = oper"
    "le32 (record_sector oper seq nb cb c) 8 = seq"
    "le16 (record_sector oper seq nb cb c) 12 = of_nat (length nb)"
    "le16 (record_sector oper seq nb cb c) 14 = of_nat (length cb)"
    "le32 (record_sector oper seq nb cb c) 508 = (if c then JOURNAL_COMMIT else 0)"
    using b z by (simp_all add: record_sector_def record_body_def Let_def le_simps)
  show "le32 (record_sector oper seq nb cb c) 16 = record_crc (record_sector oper seq nb cb c)"
    using b by (simp add: record_crc_sector) (simp add: record_sector_def Let_def le_simps)
qed

lemma record_nth:
  assumes "length nb < 32" "length cb \<le> 256" "20 \<le> i" "i < 508"
  shows "record_sector oper seq nb cb c ! i =
    (if i < 20 + length nb then nb ! (i - 20)
     else if 52 \<le> i \<and> i < 52 + length cb then cb ! (i - 52) else 0)"
  using assms
  by (simp add: record_sector_def record_body_def Let_def nth_put32 nth_put16 nth_copy_into)

section \<open>Encoding and decoding are inverse\<close>

lemma encode_cases:
  "journal_encode_internal oper seq nm content clen c = Some s \<Longrightarrow>
   (\<And>b. content = Some b \<Longrightarrow> unat clen \<le> length b) \<Longrightarrow>
   \<exists>n. nm = Some n \<and>
     record_ok oper seq (cstring n) (case content of None \<Rightarrow> [] | Some b \<Rightarrow> take (unat clen) b) \<and>
     s = record_sector oper seq (cstring n) (case content of None \<Rightarrow> [] | Some b \<Rightarrow> take (unat clen) b) c"
proof -
  assume e: "journal_encode_internal oper seq nm content clen c = Some s"
    and buf: "\<And>b. content = Some b \<Longrightarrow> unat clen \<le> length b"
  let ?cb = "case content of None \<Rightarrow> [] | Some b \<Rightarrow> take (unat clen) b"
  let ?nlen = "bounded_length nm JOURNAL_NAME_MAX"
  from e have g: "seq \<noteq> 0" "oper = 1 \<or> oper = 2" "unat clen \<le> 256" "clen = 0 \<or> content \<noteq> None"
      "valid_name nm ?nlen" "oper = 2 \<longrightarrow> clen = 0"
    by (auto simp: journal_encode_internal_def Let_def split: if_splits)
  obtain n where n: "nm = Some n" using g(5) by (auto simp: valid_name_def split: option.splits)
  have v: "0 < ?nlen" "?nlen < 32" "list_all name_byte_ok (take ?nlen n)"
    using g(5) n by (auto simp: valid_name_def split: if_splits)
  then have nl: "?nlen = length (cstring n)" using n by (simp add: bounded_length_eq min_def split: if_splits)
  have tk: "take ?nlen n = cstring n"
    unfolding nl by (rule take_cstring)
  have cl: "length ?cb = unat clen" using g(4) buf by (cases content) auto
  then have clen: "(of_nat (length ?cb) :: u32) = clen" by simp
  have "record_ok oper seq (cstring n) ?cb"
    using g v nl tk cl by (auto simp: record_ok_def)
  moreover have "s = record_sector oper seq (cstring n) ?cb c"
    using e g n nl tk clen
    by (auto simp: journal_encode_internal_def Let_def record_sector_def record_body_def
        split: if_splits)
  ultimately show ?thesis using n by blast
qed

lemma encode_succeeds:
  assumes "record_ok oper seq (cstring n) cb" and "unat clen = length cb"
    and "(\<exists>c. content = Some c \<and> take (length cb) c = cb) \<or> content = None \<and> cb = []"
  shows "journal_encode_internal oper seq (Some n) content clen c =
    Some (record_sector oper seq (cstring n) cb c)"
proof -
  have b: "bounded_length (Some n) 32 = length (cstring n)"
    using assms(1) by (simp add: bounded_length_eq record_ok_def)
  have tk: "take (length (cstring n)) n = cstring n" by (rule take_cstring)
  have clen: "clen = of_nat (length cb)" by (simp flip: assms(2))
  show ?thesis using assms b tk
    by (auto simp: journal_encode_internal_def Let_def valid_name_def record_ok_def record_sector_def
        record_body_def clen)
qed

definition padded :: "nat \<Rightarrow> bytes \<Rightarrow> bytes" where
  "padded n xs = xs @ replicate (n - length xs) 0"

definition entry_of :: "u32 \<Rightarrow> u32 \<Rightarrow> bytes \<Rightarrow> bytes \<Rightarrow> journal_entry" where
  "entry_of oper seq nb cb =
     \<lparr>operation = oper, sequence = seq, name_length = of_nat (length nb),
      content_length = of_nat (length cb), entry_name = padded 32 nb, entry_content = padded 256 cb\<rparr>"

lemma record_name_area:
  assumes "length nb < 32" "length cb \<le> 256"
  shows "take 32 (drop 20 (record_sector oper seq nb cb c)) = padded 32 nb"
    and "take 256 (drop 52 (record_sector oper seq nb cb c)) = padded 256 cb"
  by (rule nth_equalityI; use assms in \<open>auto simp: padded_def record_nth nth_append\<close>)+

lemma decode_record:
  assumes ok: "record_ok oper seq nb cb"
  shows "journal_decode_internal (record_sector oper seq nb cb c) rc =
    (if rc = c then Some (entry_of oper seq nb cb) else None)"
proof -
  let ?s = "record_sector oper seq nb cb c"
  note b = record_ok_bounds [OF ok] and f = record_fields [OF ok, of c]
  have nm: "take (length nb) (drop 20 ?s) = nb"
    by (rule nth_equalityI) (use b in \<open>auto simp: record_nth\<close>)
  have z: "?s ! (20 + length nb) = 0" "zero_from ?s (20 + length nb + 1) 52"
      "zero_from ?s (52 + length cb) 308" "zero_from ?s 308 508"
    using b by (auto simp: zero_from_iff record_nth)
  have v: "valid_name (Some (drop 20 ?s)) (length nb)"
    using ok nm by (auto simp: valid_name_def record_ok_def)
  have o: "seq \<noteq> 0" "\<not> (oper \<noteq> 1 \<and> oper \<noteq> 2)" "\<not> (oper = 2 \<and> length cb \<noteq> 0)" "\<not> length cb > 256"
    using ok by (auto simp: record_ok_def)
  show ?thesis
    by (simp only: journal_decode_internal_def Let_def f)
      (simp only: b(4,5) record_name_area [OF b(1,2)], simp only: o z v simp_thms if_False,
       simp add: entry_of_def)
qed

lemma le32_eq_bytes:
  "le32 x i = le32 y i \<Longrightarrow>
   x ! i = y ! i \<and> x ! (i + 1) = y ! (i + 1) \<and> x ! (i + 2) = y ! (i + 2) \<and> x ! (i + 3) = y ! (i + 3)"
  by (metis byte_of_le32)

lemma le16_eq_bytes: "le16 x i = le16 y i \<Longrightarrow> x ! i = y ! i \<and> x ! (i + 1) = y ! (i + 1)"
  by (metis byte_of_le16)

lemma record_unique:
  assumes len: "length s = 512" and ok: "record_ok oper seq nb cb"
    and f: "le32 s 0 = JOURNAL_MAGIC" "le16 s 4 = JOURNAL_VERSION" "le16 s 6 = oper" "le32 s 8 = seq"
      "le16 s 12 = of_nat (length nb)" "le16 s 14 = of_nat (length cb)"
      "le32 s 16 = record_crc s" "le32 s 508 = (if c then JOURNAL_COMMIT else 0)"
    and mid: "\<And>i. 20 \<le> i \<Longrightarrow> i < 508 \<Longrightarrow> s ! i =
      (if i < 20 + length nb then nb ! (i - 20)
       else if 52 \<le> i \<and> i < 52 + length cb then cb ! (i - 52) else 0)"
  shows "s = record_sector oper seq nb cb c"
proof -
  let ?r = "record_sector oper seq nb cb c"
  note b = record_ok_bounds(1,2) [OF ok] and r = record_fields [OF ok, of c]
  have ln: "length ?r = 512" using b by simp
  have h: "?r ! 0 = s ! 0" "?r ! 1 = s ! 1" "?r ! 2 = s ! 2" "?r ! 3 = s ! 3" "?r ! 4 = s ! 4"
    "?r ! 5 = s ! 5" "?r ! 6 = s ! 6" "?r ! 7 = s ! 7" "?r ! 8 = s ! 8" "?r ! 9 = s ! 9"
    "?r ! 10 = s ! 10" "?r ! 11 = s ! 11" "?r ! 12 = s ! 12" "?r ! 13 = s ! 13" "?r ! 14 = s ! 14"
    "?r ! 15 = s ! 15"
    using le32_eq_bytes [of ?r 0 s] le16_eq_bytes [of ?r 4 s] le16_eq_bytes [of ?r 6 s]
      le32_eq_bytes [of ?r 8 s] le16_eq_bytes [of ?r 12 s] le16_eq_bytes [of ?r 14 s]
    unfolding f r by (simp_all add: numeral_2_eq_2)
  have low: "?r ! i = s ! i" if "i < 16" for i
  proof -
    have "list_all (\<lambda>i. ?r ! i = s ! i) [0 ..< 16]" using h by (simp add: upt_conv_Cons Suc_numeral flip: numeral_2_eq_2)
    then show ?thesis using that by (simp add: list_all_iff)
  qed
  have mid': "?r ! i = s ! i" if "20 \<le> i" "i < 508" for i
    using record_nth [OF b that] mid [OF that] by simp
  have "take 16 ?r = take 16 s" "take 288 (drop 20 ?r) = take 288 (drop 20 s)"
    by (rule nth_equalityI; use len ln low mid' in simp)+
  then have "record_crc ?r = record_crc s" by (simp only: record_crc_def)
  then have f16: "le32 ?r 16 = le32 s 16" using r(7) f(7) by simp
  have f508: "le32 ?r 508 = le32 s 508" using r(8) f(8) by simp
  show ?thesis
  proof (rule nth_equalityI)
    fix i assume i: "i < length s"
    consider "i < 16" | "i \<in> {16, 17, 18, 19}" | "20 \<le> i" "i < 508" | "i \<in> {508, 509, 510, 511}"
      using i len by fastforce
    then show "s ! i = ?r ! i"
      using low mid' le32_eq_bytes [OF f16] le32_eq_bytes [OF f508] by cases auto
  qed (simp only: len ln)
qed

lemma decode_canonical:
  assumes len: "length s = 512" and d: "journal_decode_internal s c = Some e"
  shows "\<exists>nb cb. record_ok (operation e) (sequence e) nb cb \<and>
    s = record_sector (operation e) (sequence e) nb cb c \<and>
    e = entry_of (operation e) (sequence e) nb cb"
proof -
  define nl where "nl = unat (le16 s 12)"
  define cl where "cl = unat (le16 s 14)"
  define nb where "nb = take nl (drop 20 s)"
  define cb where "cb = take cl (drop 52 s)"
  have g: "le32 s 0 = JOURNAL_MAGIC" "le16 s 4 = JOURNAL_VERSION" "le32 s 8 \<noteq> 0"
      "le32 s 508 = (if c then JOURNAL_COMMIT else 0)" "le16 s 6 = 1 \<or> le16 s 6 = 2"
      "valid_name (Some (drop 20 s)) nl" "cl \<le> 256" "le16 s 6 = 2 \<longrightarrow> cl = 0"
      "le32 s 16 = record_crc s" "s ! (20 + nl) = 0" "zero_from s (20 + nl + 1) 52"
      "zero_from s (52 + cl) 308" "zero_from s 308 508"
    and e: "operation e = le16 s 6" "sequence e = le32 s 8"
    using d unfolding journal_decode_internal_def Let_def nl_def [symmetric] cl_def [symmetric]
    by (auto split: if_splits)
  have v: "0 < nl" "nl < 32" "list_all name_byte_ok nb"
    using g(6) by (auto simp: valid_name_def nb_def split: if_splits)
  have l: "length nb = nl" "length cb = cl" using v g(7) len by (auto simp: nb_def cb_def)
  have ok: "record_ok (le16 s 6) (le32 s 8) nb cb"
    using g v l by (auto simp: record_ok_def)
  have s: "s = record_sector (le16 s 6) (le32 s 8) nb cb c"
  proof (rule record_unique [OF len ok])
    fix i :: nat assume i: "20 \<le> i" "i < 508"
    have "s ! i = 0" if "20 + nl \<le> i" "i < 52"
      using that g(10,11) by (cases "i = 20 + nl") (auto simp: zero_from_iff)
    moreover have "s ! i = 0" if "52 + cl \<le> i"
      using that g(12,13) i by (cases "i < 308") (auto simp: zero_from_iff)
    moreover have "nb ! (i - 20) = s ! i" if "i < 20 + nl"
      using that i len v by (simp add: nb_def)
    moreover have "cb ! (i - 52) = s ! i" if "52 \<le> i" "i < 52 + cl"
      using that i len g(7) by (simp add: cb_def)
    ultimately show "s ! i = (if i < 20 + length nb then nb ! (i - 20)
        else if 52 \<le> i \<and> i < 52 + length cb then cb ! (i - 52) else 0)"
      using l by auto
  qed (simp_all add: g l, simp_all add: nl_def cl_def)
  moreover have "e = entry_of (le16 s 6) (le32 s 8) nb cb"
    using d decode_record [OF ok, of c c] s by simp
  ultimately show ?thesis using ok e by metis
qed

section \<open>The superblock\<close>

definition superblock_sector :: "u32 \<Rightarrow> bytes" where
  "superblock_sector n =
     (let s4 = put32 (put16 (put16 (put32 (replicate 512 0) 0 JOURNAL_MAGIC) 4 JOURNAL_VERSION) 6 n) 8 0
      in put32 (put32 s4 12 (superblock_crc s4)) 508 JOURNAL_COMMIT)"

lemma superblock_roundtrip:
  assumes "journal_superblock_encode n = Some s"
  shows "length s = 512 \<and> journal_superblock_decode s = Some (unat n)"
proof -
  have n: "n \<noteq> 0" "unat n \<le> 1024" and s: "s = superblock_sector n"
    using assms by (auto simp: journal_superblock_encode_def superblock_sector_def Let_def split: if_splits)
  let ?s4 = "put32 (put16 (put16 (put32 (replicate 512 0) 0 JOURNAL_MAGIC) 4 JOURNAL_VERSION) 6 n) 8 0"
  have crc: "superblock_crc s = superblock_crc ?s4"
    by (simp add: s superblock_sector_def Let_def superblock_crc_def take_put32)
  have f: "le32 s 0 = JOURNAL_MAGIC" "le16 s 4 = JOURNAL_VERSION" "le16 s 6 = n" "le32 s 8 = 0"
    "le32 s 508 = JOURNAL_COMMIT"
    using n by (simp_all add: s superblock_sector_def Let_def le_simps)
  have g: "le32 s 12 = superblock_crc s"
    by (simp add: crc) (simp add: s superblock_sector_def Let_def le_simps)
  have "zero_from s 16 508"
    by (simp add: zero_from_iff s superblock_sector_def Let_def nth_put32 nth_put16)
  then show ?thesis using n
    by (simp add: journal_superblock_decode_def Let_def f g unat_gt_0) (simp add: s superblock_sector_def Let_def)
qed

section \<open>The log as a list of entries\<close>

lemma empty_not_decodable:
  assumes "sector_is_empty s"
  shows "journal_decode_internal s c = None" "le32 s 508 = 0" "journal_superblock_decode s = None"
proof -
  have "\<forall>i < 512. s ! i = 0" using assms by (simp add: sector_is_empty_def zero_from_iff)
  then have "le32 s 0 = 0" "le32 s 508 = 0" by (simp_all add: le32_def)
  then show "journal_decode_internal s c = None" "le32 s 508 = 0" "journal_superblock_decode s = None"
    by (simp_all add: journal_decode_internal_def journal_superblock_decode_def Let_def)
qed

lemma torn_not_committed: "is_torn_tail s p \<Longrightarrow> journal_decode s = None"
  by (simp add: is_torn_tail_def journal_decode_def journal_decode_internal_def Let_def)

definition last_sequence :: "u32 \<Rightarrow> journal_entry list \<Rightarrow> u32" where
  "last_sequence previous es = (if es = [] then previous else sequence (last es))"

fun newer_chain :: "u32 \<Rightarrow> journal_entry list \<Rightarrow> bool" where
  "newer_chain previous [] \<longleftrightarrow> True"
| "newer_chain previous (e # es) \<longleftrightarrow> sequence_is_newer (sequence e) previous \<and> newer_chain (sequence e) es"

lemma last_sequence_Cons [simp]: "last_sequence p (e # es) = last_sequence (sequence e) es"
  by (simp add: last_sequence_def)

lemma last_sequence_append [simp]: "last_sequence p (es @ [e]) = sequence e"
  by (simp add: last_sequence_def)

lemma newer_chain_append [simp]:
  "newer_chain p (es @ [e]) \<longleftrightarrow> newer_chain p es \<and> sequence_is_newer (sequence e) (last_sequence p es)"
  by (induction es arbitrary: p) (auto simp: last_sequence_def)

text \<open>
  The sectors at indices \<open>j\<close>, \<open>j + 1\<close>, \<dots> below \<open>n\<close> hold the committed entries \<open>es\<close>, then nothing but
  empty sectors, except for at most one prepared record right behind the entries.
\<close>

definition log_from :: "(nat \<Rightarrow> bytes) \<Rightarrow> nat \<Rightarrow> nat \<Rightarrow> u32 \<Rightarrow> journal_entry list \<Rightarrow> bool" where
  "log_from at j n previous es \<longleftrightarrow>
     j + length es \<le> n \<and> newer_chain previous es \<and>
     (\<forall>i < length es. journal_decode (at (j + i)) = Some (es ! i)) \<and>
     (j + length es < n \<longrightarrow> sector_is_empty (at (j + length es)) \<or>
        is_torn_tail (at (j + length es)) (last_sequence previous es)) \<and>
     (\<forall>i. j + length es < i \<and> i < n \<longrightarrow> sector_is_empty (at i))"

abbreviation log_holds :: "(nat \<Rightarrow> bytes) \<Rightarrow> nat \<Rightarrow> journal_entry list \<Rightarrow> bool" where
  "log_holds at n es \<equiv> log_from at 0 n 0 es"

lemma log_from_Cons:
  assumes "journal_decode (at j) = Some e" "sequence_is_newer (sequence e) p" "j < n"
  shows "log_from at j n p (e # es) \<longleftrightarrow> log_from at (Suc j) n (sequence e) es"
  using assms by (auto simp: log_from_def nth_Cons' all_conj_distrib) (metis Suc_pred add_Suc_right Suc_less_eq)+

section \<open>Properties of the record format\<close>

text \<open>C8: Round trip. Whatever \<open>journal_encode\<close> accepts, \<open>journal_decode\<close> reads back: the same
  operation and sequence number, the name up to its terminator and exactly the content bytes,
  both padded with zeros. The uncommitted image of the same record is never decoded as
  committed, only as prepared.\<close>

theorem journal_roundtrip:
  assumes "journal_encode_internal oper seq nm content clen committed = Some sector"
    and "\<And>b. content = Some b \<Longrightarrow> unat clen \<le> length b"
  shows "length sector = JOURNAL_SECTOR_SIZE \<and>
    (\<exists>n. nm = Some n \<and>
      (let entry = entry_of oper seq (cstring n)
                     (case content of None \<Rightarrow> [] | Some b \<Rightarrow> take (unat clen) b)
       in journal_decode sector = (if committed then Some entry else None) \<and>
          journal_decode_prepared sector = (if committed then None else Some entry)))"
  using encode_cases [OF assms] decode_record record_ok_bounds(1,2)
  by (fastforce simp: journal_decode_def journal_decode_prepared_def Let_def)

lemma example_encodes:
  "journal_encode_internal 1 7 (Some [78, 79, 84, 69]) (Some [115, 97, 102, 101]) 4 True =
   Some (record_sector 1 7 [78, 79, 84, 69] [115, 97, 102, 101] True)"
  using encode_succeeds [of 1 7 "[78, 79, 84, 69]" "[115, 97, 102, 101]" 4 "Some [115, 97, 102, 101]" True]
  by (simp add: record_ok_def cstring_def name_byte_ok_def)

theorem journal_roundtrip_witness:
  "\<exists>sector. journal_encode_internal 1 7 (Some [78, 79, 84, 69]) (Some [115, 97, 102, 101]) 4 True =
     Some sector \<and>
   journal_decode sector = Some (entry_of 1 7 [78, 79, 84, 69] [115, 97, 102, 101])"
  using journal_roundtrip [OF example_encodes] example_encodes by (simp add: cstring_def Let_def)

text \<open>C9: The format is canonical: a sector that decodes is, byte for byte, the sector that
  \<open>journal_encode\<close> produces for the decoded entry. No two different sectors decode to the same
  entry, and a decoded entry always satisfies the limits of the encoder.\<close>

theorem journal_decode_is_canonical:
  assumes "length sector = JOURNAL_SECTOR_SIZE" and "journal_decode sector = Some entry"
  shows "unat (name_length entry) < JOURNAL_NAME_MAX \<and>
    unat (content_length entry) \<le> JOURNAL_CONTENT_MAX \<and>
    journal_encode (operation entry) (sequence entry) (Some (entry_name entry))
      (Some (entry_content entry)) (content_length entry) = Some sector"
proof -
  obtain nb cb where ok: "record_ok (operation entry) (sequence entry) nb cb"
    and s: "sector = record_sector (operation entry) (sequence entry) nb cb True"
    and e: "entry = entry_of (operation entry) (sequence entry) nb cb"
    using decode_canonical [OF assms(1) assms(2) [unfolded journal_decode_def]] by blast
  note b = record_ok_bounds [OF ok]
  have nz: "\<forall>x \<in> set nb. x \<noteq> 0" using ok by (auto simp: record_ok_def list_all_iff name_byte_ok_def)
  have n: "cstring (entry_name entry) = nb"
    unfolding cstring_def by (subst e) (use nz b(1) in \<open>simp add: entry_of_def padded_def takeWhile_append2\<close>)
  have l: "unat (content_length entry) = length cb" "unat (name_length entry) = length nb"
    by (subst e, simp add: entry_of_def b)+
  have t: "take (length cb) (entry_content entry) = cb"
    by (subst e) (simp add: entry_of_def padded_def)
  show ?thesis
    using l b s ok t encode_succeeds [of "operation entry" "sequence entry" "entry_name entry" cb
      "content_length entry" "Some (entry_content entry)" True]
    by (simp add: journal_encode_def n)
qed

theorem journal_decode_is_canonical_witness:
  "journal_encode 1 7 (Some (padded 32 [78, 79, 84, 69])) (Some (padded 256 [115, 97, 102, 101])) 4 =
   Some (record_sector 1 7 [78, 79, 84, 69] [115, 97, 102, 101] True)"
proof -
  let ?s = "record_sector 1 7 [78, 79, 84, 69] [115, 97, 102, 101] True"
  have ok: "record_ok 1 7 [78, 79, 84, 69] [115, 97, 102, 101]"
    by (simp add: record_ok_def name_byte_ok_def)
  have "journal_decode ?s = Some (entry_of 1 7 [78, 79, 84, 69] [115, 97, 102, 101])"
    using decode_record [OF ok, of True True] by (simp add: journal_decode_def)
  moreover have "length ?s = JOURNAL_SECTOR_SIZE" by simp
  ultimately show ?thesis using journal_decode_is_canonical [of ?s] by (simp add: entry_of_def)
qed

text \<open>The superblock round trip: what \<open>journal_superblock_encode\<close> accepts decodes to the same
  number of data sectors, and encoding is refused exactly for zero or more than 1024 sectors.\<close>

theorem journal_superblock_roundtrip:
  "case journal_superblock_encode n of
     None \<Rightarrow> n = 0 \<or> unat n > JOURNAL_MAX_DATA_SECTORS
   | Some sector \<Rightarrow> 0 < unat n \<and> unat n \<le> JOURNAL_MAX_DATA_SECTORS \<and>
       length sector = JOURNAL_SECTOR_SIZE \<and> journal_superblock_decode sector = Some (unat n)"
proof (cases "journal_superblock_encode n")
  case None
  then show ?thesis by (auto simp: journal_superblock_encode_def Let_def split: if_splits)
next
  case (Some sector)
  then have "0 < unat n \<and> unat n \<le> JOURNAL_MAX_DATA_SECTORS"
    by (auto simp: journal_superblock_encode_def unat_gt_0 split: if_splits)
  then show ?thesis using superblock_roundtrip [OF Some] Some by simp
qed

end
