(* ===== verification/JournalLog.thy ===== *)
theory JournalLog
  imports Journal
begin

text \<open>
  What the journal of \<open>fs/journal.c\<close> guarantees on a block device: the scan accepts exactly the
  logs described by \<open>log_from\<close>, an append that is interrupted at any point leaves the old log or
  the log with the new entry, and replay applies the entries of the log in order or nothing of
  an invalid log. The device is the locale \<open>sector_device\<close>.
\<close>

section \<open>Scanning a device whose reads succeed\<close>

definition pure_reader :: "(u64 \<Rightarrow> bytes) \<Rightarrow> unit reader" where
  "pure_reader c lba d = (Some (c lba), d)"

abbreviation log_at :: "(u64 \<Rightarrow> bytes) \<Rightarrow> u64 \<Rightarrow> nat \<Rightarrow> bytes" where
  "log_at c start i \<equiv> c (start + 1 + of_nat i)"

definition pure_scan :: "(u64 \<Rightarrow> bytes) \<Rightarrow> u64 \<Rightarrow> nat list \<Rightarrow> u32 \<Rightarrow> nat \<Rightarrow>
    (nat list \<times> u32 \<times> nat) option" where
  "pure_scan c start is p cnt = fst (scan_records (pure_reader c) start is p cnt ())"

lemma pure_scan_Nil [simp]: "pure_scan c start [] p cnt = Some ([], p, cnt)"
  by (simp add: pure_scan_def)

lemma pure_scan_Cons:
  "pure_scan c start (j # js) p cnt =
     (if sector_is_empty (log_at c start j) then Some (j # js, p, cnt)
      else case journal_decode (log_at c start j) of
          Some e \<Rightarrow> if sequence_is_newer (sequence e) p then pure_scan c start js (sequence e) (cnt + 1)
            else None
        | None \<Rightarrow> if is_torn_tail (log_at c start j) p then Some (js, p, cnt) else None)"
  using torn_not_committed [of "log_at c start j" p]
  by (auto simp: pure_scan_def pure_reader_def split: option.splits)

definition pure_log :: "(u64 \<Rightarrow> bytes) \<Rightarrow> u64 \<Rightarrow> nat \<Rightarrow> (nat \<times> u32) option" where
  "pure_log c start n =
     (case pure_scan c start [0 ..< n] 0 0 of None \<Rightarrow> None
      | Some (rest, l, cnt) \<Rightarrow>
          if list_all (\<lambda>i. sector_is_empty (log_at c start i)) rest then Some (cnt, l) else None)"

lemma log_from_Nil:
  "log_from at j n p [] \<longleftrightarrow> j \<le> n \<and> (j < n \<longrightarrow> sector_is_empty (at j) \<or> is_torn_tail (at j) p) \<and>
     (\<forall>i. j < i \<and> i < n \<longrightarrow> sector_is_empty (at i))"
  by (simp add: log_from_def last_sequence_def)

lemma pure_scan_log:
  assumes "j \<le> n"
  shows "(\<exists>rest. pure_scan c start [j ..< n] p cnt = Some (rest, l, cnt') \<and>
      (\<forall>i \<in> set rest. sector_is_empty (log_at c start i))) \<longleftrightarrow>
    (\<exists>es. log_from (log_at c start) j n p es \<and> l = last_sequence p es \<and> cnt' = cnt + length es)"
  using assms
proof (induction "n - j" arbitrary: j p cnt)
  case 0
  then have "log_from (log_at c start) j n p es \<longleftrightarrow> es = []" for es
    by (auto simp: log_from_def)
  then show ?case using 0 by (auto simp: last_sequence_def)
next
  case (Suc m)
  then have j: "j < n" "[j ..< n] = j # [Suc j ..< n]" "m = n - Suc j" "Suc j \<le> n"
    by (auto simp: upt_conv_Cons)
  let ?s = "log_at c start j"
  have nil: "log_from (log_at c start) j n p (e # es) \<Longrightarrow> journal_decode ?s = Some e" for e es
    by (auto simp: log_from_def)
  have nil': "log_from (log_at c start) j n p (e # es) \<Longrightarrow> sequence_is_newer (sequence e) p" for e es
    by (auto simp: log_from_def)
  consider (empty) "sector_is_empty ?s" "journal_decode ?s = None"
    | (dec) e where "\<not> sector_is_empty ?s" "journal_decode ?s = Some e"
    | (other) "\<not> sector_is_empty ?s" "journal_decode ?s = None"
    using empty_not_decodable(1) [of ?s True] by (fastforce simp: journal_decode_def)
  then show ?case
  proof cases
    case empty
    have l: "log_from (log_at c start) j n p es \<longleftrightarrow> es = [] \<and> (\<forall>i \<in> {Suc j ..< n}. sector_is_empty (log_at c start i))" for es
      using empty nil j(1) by (cases es) (auto simp: log_from_Nil Suc_le_eq)
    show ?thesis using empty by (auto simp: j(2) pure_scan_Cons l last_sequence_def)
  next
    case (dec e)
    have nn: "\<not> log_from (log_at c start) j n p []"
      using dec j(1) torn_not_committed [of ?s p] by (auto simp: log_from_Nil)
    show ?thesis
    proof (cases "sequence_is_newer (sequence e) p")
      case True
      have ex: "(\<exists>es. log_from (log_at c start) j n p es \<and> l = last_sequence p es \<and> cnt' = cnt + length es) \<longleftrightarrow>
          (\<exists>es. log_from (log_at c start) (Suc j) n (sequence e) es \<and> l = last_sequence (sequence e) es \<and>
            cnt' = cnt + 1 + length es)"
        (is "?L = ?R")
      proof
        assume ?L
        then obtain es where es: "log_from (log_at c start) j n p es" "l = last_sequence p es"
          "cnt' = cnt + length es" by blast
        obtain es' where "es = e # es'" using es(1) nn nil [of _ "tl es"] dec(2)
          by (cases es) auto
        then show ?R using es log_from_Cons [of "log_at c start" j e p n es', OF dec(2) True j(1)]
          by auto
      next
        assume ?R
        then obtain es where es: "log_from (log_at c start) (Suc j) n (sequence e) es"
          "l = last_sequence (sequence e) es" "cnt' = cnt + 1 + length es" by blast
        then show ?L using log_from_Cons [of "log_at c start" j e p n es, OF dec(2) True j(1)]
          by (intro exI [of _ "e # es"]) simp
      qed
      show ?thesis
        unfolding ex using Suc.hyps(1) [OF j(3,4), of "sequence e" "cnt + 1"] dec True
        by (simp add: j(2) pure_scan_Cons)
    next
      case False
      have "\<not> log_from (log_at c start) j n p es" for es
        using nn nil nil' False dec(2) by (cases es) fastforce+
      then show ?thesis using dec False by (simp add: j(2) pure_scan_Cons)
    qed
  next
    case other
    have l: "log_from (log_at c start) j n p es \<longleftrightarrow> es = [] \<and> is_torn_tail ?s p \<and>
        (\<forall>i \<in> {Suc j ..< n}. sector_is_empty (log_at c start i))" for es
      using other nil j(1) by (cases es) (auto simp: log_from_Nil Suc_le_eq)
    show ?thesis using other by (auto simp: j(2) pure_scan_Cons l last_sequence_def)
  qed
qed

lemma pure_log_iff:
  "pure_log c start n = Some (cnt, l) \<longleftrightarrow>
   (\<exists>es. log_holds (log_at c start) n es \<and> l = last_sequence 0 es \<and> cnt = length es)"
  using pure_scan_log [of 0 n c start 0 0 l cnt]
  by (auto simp: pure_log_def list_all_iff split: option.splits if_splits)

lemma log_from_cong:
  assumes "\<And>i. i < n \<Longrightarrow> at i = at' i" and "log_from at j n p es"
  shows "log_from at' j n p es"
  using assms by (auto simp: log_from_def)

section \<open>Publishing a record\<close>

lemma publish_prepared:
  assumes "log_holds at n es" "length es < n" "record_ok oper seq nb cb"
    and "sequence_is_newer seq (last_sequence 0 es)"
  shows "log_holds (at(length es := record_sector oper seq nb cb False)) n es"
proof -
  let ?s = "record_sector oper seq nb cb False"
  have "journal_decode_prepared ?s = Some (entry_of oper seq nb cb)"
    using decode_record [OF assms(3), of False False] by (simp add: journal_decode_prepared_def)
  then have "is_torn_tail ?s (last_sequence 0 es)"
    using record_fields(8) [OF assms(3), of False] assms(4) by (simp add: is_torn_tail_def entry_of_def)
  then show ?thesis using assms(1,2) by (auto simp: log_from_def)
qed

lemma publish_committed:
  assumes "log_holds at n es" "length es < n" "record_ok oper seq nb cb"
    and "sequence_is_newer seq (last_sequence 0 es)"
  shows "log_holds (at(length es := record_sector oper seq nb cb True)) n (es @ [entry_of oper seq nb cb])"
proof -
  have "journal_decode (record_sector oper seq nb cb True) = Some (entry_of oper seq nb cb)"
    using decode_record [OF assms(3), of True True] by (simp add: journal_decode_def)
  then show ?thesis using assms
    by (auto simp: log_from_def nth_append less_Suc_eq entry_of_def)
qed

lemma commit_prepared:
  "put32 (record_sector oper seq nb cb False) 508 JOURNAL_COMMIT = record_sector oper seq nb cb True"
  by (simp add: record_sector_def Let_def)

section \<open>Regions\<close>

definition region_log :: "(u64 \<Rightarrow> bytes) \<Rightarrow> u64 \<Rightarrow> nat \<Rightarrow> nat \<Rightarrow> journal_entry list \<Rightarrow> bool" where
  "region_log c start sector_count n es \<longleftrightarrow>
     journal_superblock_decode (c start) = Some n \<and> n + 1 \<le> sector_count \<and>
     sector_count \<le> JOURNAL_MAX_DATA_SECTORS + 1 \<and> log_holds (log_at c start) n es"

lemma log_address_inj:
  "i < 2 ^ 64 \<Longrightarrow> k < 2 ^ 64 \<Longrightarrow> start + 1 + (of_nat i :: u64) = start + 1 + of_nat k \<Longrightarrow> i = k"
  by (simp only: add_left_cancel) (simp add: word_unat_eq_iff unat_of_nat take_bit_eq_mod)

lemma log_address_super: "i < 2 ^ 64 - 1 \<Longrightarrow> start + 1 + (of_nat i :: u64) \<noteq> start"
proof
  assume i: "i < 2 ^ 64 - 1" and "start + 1 + (of_nat i :: u64) = start"
  then have "(of_nat (Suc i) :: u64) = 0" by (simp add: algebra_simps)
  then have "unat (of_nat (Suc i) :: u64) = 0" by simp
  then show False using i by (simp add: unat_of_nat take_bit_eq_mod del: of_nat_Suc)
qed

text \<open>Replacing the sector at index \<open>k\<close> of the log.\<close>

lemma region_update:
  assumes "region_log c start sc n es" and "k < n"
    and c': "\<And>l. l \<noteq> start + 1 + of_nat k \<Longrightarrow> c' l = c l"
    and h: "log_holds ((log_at c start)(k := c' (start + 1 + of_nat k))) n es'"
  shows "region_log c' start sc n es'"
proof -
  have n: "n \<le> 1024" using assms(1) by (auto simp: region_log_def)
  have "c' start = c start" using c' [of start] log_address_super [of k start] n assms(2) by force
  moreover have same: "((log_at c start)(k := c' (start + 1 + of_nat k))) i = log_at c' start i"
    if "i < n" for i
  proof (cases "i = k")
    case False
    then have "start + 1 + of_nat i \<noteq> (start + 1 + of_nat k :: u64)"
      using log_address_inj [of i k start] that n assms(2) by fastforce
    then show ?thesis using c' False by simp
  qed simp
  have "log_holds (log_at c' start) n es'" by (rule log_from_cong [OF same h])
  ultimately show ?thesis using assms(1) by (simp add: region_log_def)
qed

text \<open>Applying a list of entries, stopping at the first refusal.\<close>

fun apply_all :: "(journal_entry \<Rightarrow> 'a \<Rightarrow> bool \<times> 'a) \<Rightarrow> journal_entry list \<Rightarrow> 'a \<Rightarrow> bool \<times> 'a" where
  "apply_all f [] a = (True, a)"
| "apply_all f (e # es) a = (case f e a of (False, a1) \<Rightarrow> (False, a1) | (True, a1) \<Rightarrow> apply_all f es a1)"

lemma unat_succ_below: "(w::u32) \<noteq> 0xFFFFFFFF \<Longrightarrow> unat (w + 1) = unat w + 1"
proof -
  assume "w \<noteq> 0xFFFFFFFF"
  then have "unat w \<noteq> 2 ^ 32 - 1" by (auto simp: word_unat_eq_iff)
  then have "unat w + 1 < 2 ^ 32" using unsigned_less [of w, where 'a = nat] by simp
  then show ?thesis using unat_inc by simp
qed

section \<open>The contract of the block device\<close>

text \<open>
  What the journal relies on: a read that succeeds returns the sector's contents and no read
  changes them; a write that succeeds stores the sector, a write that fails leaves the sector
  old or new, and no write touches another sector.
\<close>

locale sector_device =
  fixes rd :: "'d reader"
    and wr :: "'d writer"
    and content :: "'d \<Rightarrow> u64 \<Rightarrow> bytes"
    and ok :: "'d \<Rightarrow> bool"
  assumes read_law: "ok d \<Longrightarrow> rd lba d = (r, d') \<Longrightarrow>
      ok d' \<and> content d' = content d \<and> (r = None \<or> r = Some (content d lba))"
    and write_law: "ok d \<Longrightarrow> length s = JOURNAL_SECTOR_SIZE \<Longrightarrow> wr lba s d = (b, d') \<Longrightarrow>
      ok d' \<and> (\<forall>l. l \<noteq> lba \<longrightarrow> content d' l = content d l) \<and>
      (content d' lba = s \<or> \<not> b \<and> content d' lba = content d lba)"
begin

lemma scan_records_pure:
  "ok d \<Longrightarrow> scan_records rd start is p cnt d = (r, d') \<Longrightarrow>
   ok d' \<and> content d' = content d \<and> (r = None \<or> r = pure_scan (content d) start is p cnt)"
proof (induction "is" arbitrary: p cnt d)
  case (Cons j js)
  obtain x d1 where x: "rd (start + 1 + of_nat j) d = (x, d1)" by fastforce
  note rl = read_law [OF Cons.prems(1) x]
  show ?case
    using Cons.prems(2) Cons.IH [of d1] x rl torn_not_committed [of "log_at (content d) start j" p]
    by (auto simp: pure_scan_Cons split: option.splits if_splits)
qed auto

lemma scan_rest_pure:
  "ok d \<Longrightarrow> scan_rest rd start is d = (b, d') \<Longrightarrow>
   ok d' \<and> content d' = content d \<and>
   (b \<longrightarrow> list_all (\<lambda>i. sector_is_empty (log_at (content d) start i)) is)"
proof (induction "is" arbitrary: d)
  case (Cons j js)
  obtain x d1 where x: "rd (start + 1 + of_nat j) d = (x, d1)" by fastforce
  note rl = read_law [OF Cons.prems(1) x]
  show ?case using Cons.prems(2) Cons.IH [of d1] x rl by (auto split: option.splits if_splits)
qed auto

lemma scan_log_sound:
  assumes "ok d" and "scan_log rd start n d = (r, d')"
  shows "ok d' \<and> content d' = content d \<and>
    (\<forall>cnt l. r = Some (cnt, l) \<longrightarrow>
      (\<exists>es. log_holds (log_at (content d) start) n es \<and> cnt = length es \<and> l = last_sequence 0 es))"
proof -
  obtain x d1 where x: "scan_records rd start [0 ..< n] 0 0 d = (x, d1)" by fastforce
  note sr = scan_records_pure [OF assms(1) x]
  show ?thesis
  proof (cases x)
    case (Some t)
    obtain rest l cnt where t: "t = (rest, l, cnt)" by (metis surj_pair)
    obtain b d2 where b: "scan_rest rd start rest d1 = (b, d2)" by fastforce
    have rr: "ok d2 \<and> content d2 = content d1 \<and>
        (b \<longrightarrow> list_all (\<lambda>i. sector_is_empty (log_at (content d1) start i)) rest)"
      using scan_rest_pure [of d1 start rest b d2] sr b by blast
    have p: "pure_scan (content d) start [0 ..< n] 0 0 = Some (rest, l, cnt)"
      using sr Some t by simp
    show ?thesis
    proof (cases b)
      case True
      then have "pure_log (content d) start n = Some (cnt, l)" using rr sr p by (simp add: pure_log_def)
      then obtain es where "log_holds (log_at (content d) start) n es" "l = last_sequence 0 es"
        "cnt = length es" using pure_log_iff by blast
      moreover have "r = Some (cnt, l)" "d' = d2"
        using assms(2) x Some t b True by (auto simp: scan_log_def)
      ultimately show ?thesis using rr sr by auto
    next
      case False
      then have "r = None" "d' = d2" using assms(2) x Some t b by (auto simp: scan_log_def)
      then show ?thesis using rr sr by simp
    qed
  qed (use assms x sr in \<open>auto simp: scan_log_def\<close>)
qed

lemma open_region_sound:
  assumes "ok d" and "open_region rd start sc d = (r, d')"
  shows "ok d' \<and> content d' = content d \<and>
    (\<forall>n. r = Some n \<longrightarrow> journal_superblock_decode (content d start) = Some n \<and> n + 1 \<le> sc \<and>
      sc \<le> JOURNAL_MAX_DATA_SECTORS + 1 \<and> region_fits start sc)"
proof -
  obtain x d1 where x: "rd start d = (x, d1)" by fastforce
  show ?thesis using assms read_law [OF assms(1) x] x
    by (auto simp: open_region_def split: if_splits option.splits prod.splits)
qed

text \<open>The two writes of an append and its verification, as they are issued.\<close>

lemma append_writes:
  assumes "ok d" and "length sec = JOURNAL_SECTOR_SIZE"
    and "(case wr t sec d of
        (False, d3) \<Rightarrow> (False, d3)
      | (True, d3) \<Rightarrow>
          (case wr t (put32 sec JOURNAL_COMMIT_OFFSET JOURNAL_COMMIT) d3 of
             (False, d4) \<Rightarrow> (False, d4)
           | (True, d4) \<Rightarrow>
               (case rd t d4 of
                  (None, d5) \<Rightarrow> (False, d5)
                | (Some back, d5) \<Rightarrow> (journal_decode back \<noteq> None, d5)))) = (res, d')"
  shows "ok d' \<and> (\<forall>l. l \<noteq> t \<longrightarrow> content d' l = content d l) \<and>
    (content d' = content d \<and> \<not> res \<or> \<not> res \<and> content d' t = sec \<or>
     content d' t = put32 sec JOURNAL_COMMIT_OFFSET JOURNAL_COMMIT)"
proof -
  obtain b3 d3 where w: "wr t sec d = (b3, d3)" by fastforce
  note w1 = write_law [OF assms(1,2) w]
  have old: "content d3 = content d" if "content d3 t = content d t"
    using that w1 by (metis ext)
  show ?thesis
  proof (cases b3)
    case False
    then show ?thesis using assms(3) w w1 old by auto
  next
    case True
    obtain b4 d4 where v: "wr t (put32 sec JOURNAL_COMMIT_OFFSET JOURNAL_COMMIT) d3 = (b4, d4)"
      by fastforce
    have w2: "ok d4 \<and> (\<forall>l. l \<noteq> t \<longrightarrow> content d4 l = content d3 l) \<and>
        (content d4 t = put32 sec JOURNAL_COMMIT_OFFSET JOURNAL_COMMIT \<or>
         \<not> b4 \<and> content d4 t = content d3 t)"
      using write_law [OF _ _ v] w1 assms(2) by simp
    show ?thesis
    proof (cases b4)
      case False
      then show ?thesis using assms(3) w v True w1 w2 by auto
    next
      case b4: True
      obtain x d5 where x: "rd t d4 = (x, d5)" by fastforce
      have "ok d5 \<and> content d5 = content d4" using read_law [OF _ x] w2 by blast
      moreover have "d' = d5" using assms(3) w v True b4 x by (auto split: option.splits)
      ultimately show ?thesis using w1 w2 b4 by auto
    qed
  qed
qed

text \<open>The caller's view of one append, whatever the device does along the way.\<close>

lemma append_atomic:
  assumes d: "ok d" and buf: "\<And>b. content_ptr = Some b \<Longrightarrow> unat clen \<le> length b"
    and a: "journal_append rd wr start sc oper seq nm content_ptr clen d = (res, d')"
  shows "ok d' \<and>
    ((\<not> res \<and> content d' = content d) \<or>
     (\<exists>n es nb cb. region_log (content d) start sc n es \<and> nm = Some nb \<and> region_fits start sc \<and>
        cb = (case content_ptr of None \<Rightarrow> [] | Some b \<Rightarrow> take (unat clen) b) \<and>
        length es < n \<and> record_ok oper seq (cstring nb) cb \<and>
        sequence_is_newer seq (last_sequence 0 es) \<and>
        (\<forall>l. l \<noteq> start + 1 + of_nat (length es) \<longrightarrow> content d' l = content d l) \<and>
        (region_log (content d') start sc n (es @ [entry_of oper seq (cstring nb) cb]) \<or>
         \<not> res \<and> region_log (content d') start sc n es)))"
proof -
  obtain r1 d1 where o: "open_region rd start sc d = (r1, d1)" by fastforce
  note os = open_region_sound [OF d o]
  show ?thesis
  proof (cases r1)
    case None
    then show ?thesis using a o os by (auto simp: journal_append_def)
  next
    case (Some n)
    obtain r2 d2 where l: "scan_log rd start n d1 = (r2, d2)" by fastforce
    have ls: "ok d2 \<and> content d2 = content d1 \<and>
        (\<forall>cnt l. r2 = Some (cnt, l) \<longrightarrow>
          (\<exists>es. log_holds (log_at (content d1) start) n es \<and> cnt = length es \<and> l = last_sequence 0 es))"
      using scan_log_sound [OF _ l] os by blast
    show ?thesis
    proof (cases r2)
      case None
      then show ?thesis using a o Some l os ls by (auto simp: journal_append_def)
    next
      case c: (Some t)
      obtain cnt lst where t: "t = (cnt, lst)" by (metis surj_pair)
      then obtain es where es: "log_holds (log_at (content d) start) n es" "cnt = length es"
        "lst = last_sequence 0 es"
        using ls c os by auto
      have reg: "region_log (content d) start sc n es" using es(1) os Some by (auto simp: region_log_def)
      have same: "content d2 = content d" using ls os by simp
      let ?enc = "journal_encode_internal oper seq nm content_ptr clen False"
      show ?thesis
      proof (cases "cnt \<ge> n \<or> \<not> sequence_is_newer seq lst \<or> ?enc = None")
        case True
        then have "\<not> res \<and> d' = d2"
          using a o Some l c t by (auto simp: journal_append_def split: if_splits)
        then show ?thesis using ls same by simp
      next
        case False
        then obtain sec where sec: "?enc = Some sec" by auto
        obtain nb where nb: "nm = Some nb" and rok: "record_ok oper seq (cstring nb)
              (case content_ptr of None \<Rightarrow> [] | Some b \<Rightarrow> take (unat clen) b)"
          and img: "sec = record_sector oper seq (cstring nb)
              (case content_ptr of None \<Rightarrow> [] | Some b \<Rightarrow> take (unat clen) b) False"
          using encode_cases [OF sec buf] by blast
        define cb where "cb = (case content_ptr of None \<Rightarrow> [] | Some b \<Rightarrow> take (unat clen) b)"
        note rok = rok [folded cb_def] and img = img [folded cb_def]
        have pub: "ok d' \<and> (\<forall>l. l \<noteq> start + 1 + of_nat (length es) \<longrightarrow> content d' l = content d l) \<and>
            (content d' = content d \<and> \<not> res \<or>
             \<not> res \<and> content d' (start + 1 + of_nat (length es)) = sec \<or>
             content d' (start + 1 + of_nat (length es)) = put32 sec 508 JOURNAL_COMMIT)"
        proof -
          have "length sec = JOURNAL_SECTOR_SIZE" using img record_ok_bounds(1,2) [OF rok] by simp
          from append_writes [OF _ this, of d2 "start + 1 + of_nat (length es)" res d'] ls same
          show ?thesis
            using a o Some l c t False sec es(2) by (simp add: journal_append_def Let_def)
        qed
        have lt: "length es < n" and nw: "sequence_is_newer seq (last_sequence 0 es)"
          using False es by auto
        have "region_log (content d') start sc n (es @ [entry_of oper seq (cstring nb) cb]) \<or>
            \<not> res \<and> region_log (content d') start sc n es"
        proof -
          have up: "region_log (content d') start sc n es'"
            if "log_holds ((log_at (content d) start)(length es := content d' (start + 1 + of_nat (length es)))) n es'"
            for es'
            using region_update [where c' = "content d'", OF reg lt _ that] pub by blast
          consider "content d' = content d" "\<not> res"
            | "\<not> res" "content d' (start + 1 + of_nat (length es)) = sec"
            | "content d' (start + 1 + of_nat (length es)) = put32 sec 508 JOURNAL_COMMIT"
            using pub by blast
          then show ?thesis
          proof cases
            case 1
            then show ?thesis using reg by simp
          next
            case 2
            then show ?thesis using up [of es] publish_prepared [OF es(1) lt rok nw] img by simp
          next
            case 3
            then show ?thesis
              using up [of "es @ [entry_of oper seq (cstring nb) cb]"]
                publish_committed [OF es(1) lt rok nw] img commit_prepared by simp
          qed
        qed
        then show ?thesis using pub reg nb rok lt nw os Some cb_def by blast
      qed
    qed
  qed
qed

text \<open>Replay hands the entries of the log to the consumer, in order.\<close>

lemma apply_records_log:
  assumes "ok d" and "apply_records rd f start is (d, a) = (res, d', a')"
    and "list_all2 (\<lambda>i e. journal_decode (log_at (content d) start i) = Some e) is es"
  shows "ok d' \<and> content d' = content d \<and> (res \<longrightarrow> apply_all f es a = (True, a'))"
  using assms
proof (induction "is" arbitrary: d a es)
  case (Cons j js)
  obtain e es' where e: "es = e # es'" "journal_decode (log_at (content d) start j) = Some e"
    "list_all2 (\<lambda>i e. journal_decode (log_at (content d) start i) = Some e) js es'"
    using Cons.prems(3) by (cases es) auto
  obtain x d1 where x: "rd (start + 1 + of_nat j) d = (x, d1)" by fastforce
  note rl = read_law [OF Cons.prems(1) x]
  show ?case
  proof (cases x)
    case None
    then show ?thesis using Cons.prems(2) x rl by auto
  next
    case (Some s)
    obtain b a1 where b: "f e a = (b, a1)" by fastforce
    show ?thesis
    proof (cases b)
      case False
      then show ?thesis using Cons.prems(2) x Some rl e b by auto
    next
      case True
      then have "apply_records rd f start js (d1, a1) = (res, d', a')"
        using Cons.prems(2) x Some rl e b by auto
      then show ?thesis using Cons.IH [of d1 a1 es'] rl e b True by simp
    qed
  qed
qed (use assms in auto)

lemma replay_in_order:
  assumes d: "ok d" and r: "journal_replay rd start sc f (d, a) = (res, cnt, d', a')"
  shows "ok d' \<and> content d' = content d \<and>
    (res \<longrightarrow> (\<exists>n es. region_log (content d) start sc n es \<and> cnt = length es \<and>
       apply_all f es a = (True, a'))) \<and>
    ((\<nexists>n es. region_log (content d) start sc n es) \<longrightarrow> \<not> res \<and> a' = a)"
proof -
  obtain r1 d1 where o: "open_region rd start sc d = (r1, d1)" by fastforce
  note os = open_region_sound [OF d o]
  show ?thesis
  proof (cases r1)
    case None
    then show ?thesis using r o os by (auto simp: journal_replay_def)
  next
    case (Some n)
    obtain r2 d2 where l: "scan_log rd start n d1 = (r2, d2)" by fastforce
    have ls: "ok d2 \<and> content d2 = content d1 \<and>
        (\<forall>cnt l. r2 = Some (cnt, l) \<longrightarrow>
          (\<exists>es. log_holds (log_at (content d1) start) n es \<and> cnt = length es \<and> l = last_sequence 0 es))"
      using scan_log_sound [OF _ l] os by blast
    show ?thesis
    proof (cases r2)
      case None
      then show ?thesis using r o Some l os ls by (auto simp: journal_replay_def)
    next
      case c: (Some t)
      obtain k lst where t: "t = (k, lst)" by (metis surj_pair)
      then obtain es where es: "log_holds (log_at (content d) start) n es" "k = length es"
        using ls c os by auto
      have reg: "region_log (content d) start sc n es" using es(1) os Some by (auto simp: region_log_def)
      obtain b d3 a3 where b: "apply_records rd f start [0 ..< k] (d2, a) = (b, d3, a3)"
        by (metis surj_pair)
      have "list_all2 (\<lambda>i e. journal_decode (log_at (content d2) start i) = Some e) [0 ..< k] es"
        using es ls os by (auto simp: list_all2_conv_all_nth log_from_def)
      from apply_records_log [OF _ b this] ls os
      have ap: "ok d3 \<and> content d3 = content d \<and> (b \<longrightarrow> apply_all f es a = (True, a3))" by simp
      have "res = b \<and> d' = d3 \<and> a' = a3 \<and> (b \<longrightarrow> cnt = k)"
        using r o Some l c t b by (cases b) (auto simp: journal_replay_def)
      then show ?thesis using ap reg es(2) by blast
    qed
  qed
qed

lemma next_sequence_sound:
  assumes d: "ok d" and r: "journal_next_sequence rd start sc d = (res, d')"
  shows "ok d' \<and> content d' = content d \<and>
    (\<forall>s. res = Some s \<longrightarrow> (\<exists>n es. region_log (content d) start sc n es \<and>
       sequence_is_newer s (last_sequence 0 es) \<and> unat s = unat (last_sequence 0 es) + 1))"
proof -
  obtain r1 d1 where o: "open_region rd start sc d = (r1, d1)" by fastforce
  note os = open_region_sound [OF d o]
  show ?thesis
  proof (cases r1)
    case None
    then show ?thesis using r o os by (auto simp: journal_next_sequence_def)
  next
    case (Some n)
    obtain r2 d2 where l: "scan_log rd start n d1 = (r2, d2)" by fastforce
    have ls: "ok d2 \<and> content d2 = content d1 \<and>
        (\<forall>cnt l. r2 = Some (cnt, l) \<longrightarrow>
          (\<exists>es. log_holds (log_at (content d1) start) n es \<and> cnt = length es \<and> l = last_sequence 0 es))"
      using scan_log_sound [OF _ l] os by blast
    have same: "content d2 = content d" "ok d2" using ls os by auto
    show ?thesis
    proof (cases "\<exists>k lst. r2 = Some (k, lst) \<and> lst \<noteq> 0xFFFFFFFF")
      case True
      then obtain k lst where k: "r2 = Some (k, lst)" "lst \<noteq> 0xFFFFFFFF" by blast
      then obtain es where es: "log_holds (log_at (content d) start) n es" "lst = last_sequence 0 es"
        using ls os by auto
      have "region_log (content d) start sc n es" using es(1) os Some by (auto simp: region_log_def)
      moreover have "unat (lst + 1) = unat lst + 1" using unat_succ_below [OF k(2)] .
      moreover have "sequence_is_newer (lst + 1) lst"
        using calculation(2) by (auto simp: sequence_is_newer_def word_less_nat_alt)
      moreover have "res = Some (lst + 1)" "d' = d2"
        using r o Some l k by (auto simp: journal_next_sequence_def)
      ultimately show ?thesis using same es(2) by auto
    next
      case False
      then have "res = None" "d' = d2"
        using r o Some l by (auto simp: journal_next_sequence_def split: option.splits prod.splits if_splits)
      then show ?thesis using same by simp
    qed
  qed
qed

end

section \<open>The in-memory device of the host test\<close>

text \<open>
  \<open>tests/journal_host_test.c\<close> runs the journal on an array of sectors whose \<open>n\<close>-th write can be
  made to fail.
\<close>

record test_disk =
  disk :: bytes
  write_count :: u32
  fail_write_number :: u32

definition test_sector :: "test_disk \<Rightarrow> u64 \<Rightarrow> bytes" where
  "test_sector d lba = take JOURNAL_SECTOR_SIZE (drop (JOURNAL_SECTOR_SIZE * unat lba) (disk d))"

definition read_disk :: "test_disk reader" where
  "read_disk lba d =
     (if unat lba \<ge> JOURNAL_MAX_DATA_SECTORS + 1 then (None, d)
      else (Some (take JOURNAL_SECTOR_SIZE (drop (JOURNAL_SECTOR_SIZE * unat lba) (disk d))), d))"

definition write_disk :: "test_disk writer" where
  "write_disk lba s d =
     (if unat lba \<ge> JOURNAL_MAX_DATA_SECTORS + 1 then (False, d)
      else let d1 = d\<lparr>write_count := write_count d + 1\<rparr> in
           if fail_write_number d1 \<noteq> 0 \<and> write_count d1 = fail_write_number d1 then (False, d1)
           else (True, d1\<lparr>disk := copy_into (disk d1) (JOURNAL_SECTOR_SIZE * unat lba) s\<rparr>))"

definition test_disk_ok :: "test_disk \<Rightarrow> bool" where
  "test_disk_ok d = (length (disk d) = (JOURNAL_MAX_DATA_SECTORS + 1) * JOURNAL_SECTOR_SIZE)"

lemma sector_update_other:
  assumes ij: "(i::nat) \<noteq> j" and s: "length s = n" and fits: "n * j + n \<le> length xs"
  shows "take n (drop (n * i) (copy_into xs (n * j) s)) = take n (drop (n * i) xs)"
proof (rule nth_equalityI)
  have len: "length (copy_into xs (n * j) s) = length xs" using s fits by simp
  then show "length (take n (drop (n * i) (copy_into xs (n * j) s))) = length (take n (drop (n * i) xs))"
    by simp
  fix k assume "k < length (take n (drop (n * i) (copy_into xs (n * j) s)))"
  then have k: "k < n" "n * i + k < length xs" using len by auto
  have away: "\<not> (n * j \<le> n * i + k \<and> n * i + k < n * j + length s)"
  proof (cases "i < j")
    case True
    then have "n * i + n \<le> n * j" using mult_le_mono2 [of "i + 1" j n] by simp
    then show ?thesis using k by simp
  next
    case False
    then have "n * j + n \<le> n * i" using ij mult_le_mono2 [of "j + 1" i n] by simp
    then show ?thesis using s by simp
  qed
  have "copy_into xs (n * j) s ! (n * i + k) = xs ! (n * i + k)"
    using nth_copy_into [of "n * j" s xs "n * i + k"] away s fits k(2) by presburger
  then show "take n (drop (n * i) (copy_into xs (n * j) s)) ! k = take n (drop (n * i) xs) ! k"
    using k len by simp
qed

lemma sector_update_same:
  "length s = n \<Longrightarrow> n * j + n \<le> length xs \<Longrightarrow> take n (drop (n * j) (copy_into xs (n * j) s)) = s"
  by (simp add: copy_into_def)

interpretation host_test: sector_device read_disk write_disk test_sector test_disk_ok
proof
  fix d lba r d'
  assume "test_disk_ok d" "read_disk lba d = (r, d')"
  then show "test_disk_ok d' \<and> test_sector d' = test_sector d \<and> (r = None \<or> r = Some (test_sector d lba))"
    by (auto simp: read_disk_def test_sector_def split: if_splits)
next
  fix d lba b d' and s :: bytes
  assume a: "test_disk_ok d" "length s = JOURNAL_SECTOR_SIZE" "write_disk lba s d = (b, d')"
  show "test_disk_ok d' \<and> (\<forall>l. l \<noteq> lba \<longrightarrow> test_sector d' l = test_sector d l) \<and>
      (test_sector d' lba = s \<or> \<not> b \<and> test_sector d' lba = test_sector d lba)"
  proof (cases "b")
    case True
    then have d': "disk d' = copy_into (disk d) (JOURNAL_SECTOR_SIZE * unat lba) s" and l: "unat lba < JOURNAL_MAX_DATA_SECTORS + 1"
      using a(3) by (auto simp: write_disk_def Let_def split: if_splits)
    have fits: "JOURNAL_SECTOR_SIZE * unat lba + JOURNAL_SECTOR_SIZE \<le> length (disk d)"
      using l a(1) by (simp add: test_disk_ok_def)
    show ?thesis
      using fits a d' sector_update_other [OF _ a(2) fits] sector_update_same [OF a(2) fits]
      by (auto simp: test_sector_def test_disk_ok_def copy_into_def word_unat_eq_iff)
  next
    case False
    then show ?thesis
      using a by (auto simp: write_disk_def test_sector_def test_disk_ok_def Let_def fun_eq_iff split: if_splits)
  qed
qed

section \<open>Properties of the log\<close>

text \<open>C1: journal_append is crash-atomic on every device that writes a sector entirely or not at
  all: either nothing changes and the call fails, or only the first free log sector changes and
  the region afterwards holds the old log, or the old log followed by exactly the new entry; it
  reports success only in the last case.\<close>
theorem journal_append_atomic:
  assumes "sector_device rd wr content ok" and "ok d"
    and "\<And>b. content_ptr = Some b \<Longrightarrow> unat clen \<le> length b"
    and "journal_append rd wr start sc oper seq nm content_ptr clen d = (res, d')"
  shows "ok d' \<and>
    ((\<not> res \<and> content d' = content d) \<or>
     (\<exists>n es nb cb. region_log (content d) start sc n es \<and> nm = Some nb \<and> region_fits start sc \<and>
        cb = (case content_ptr of None \<Rightarrow> [] | Some b \<Rightarrow> take (unat clen) b) \<and>
        length es < n \<and> record_ok oper seq (cstring nb) cb \<and>
        sequence_is_newer seq (last_sequence 0 es) \<and>
        (\<forall>l. l \<noteq> start + 1 + of_nat (length es) \<longrightarrow> content d' l = content d l) \<and>
        (region_log (content d') start sc n (es @ [entry_of oper seq (cstring nb) cb]) \<or>
         \<not> res \<and> region_log (content d') start sc n es)))"
  using assms by (rule sector_device.append_atomic)

definition blank_disk :: test_disk where
  "blank_disk = \<lparr>disk = replicate ((JOURNAL_MAX_DATA_SECTORS + 1) * JOURNAL_SECTOR_SIZE) 0,
     write_count = 0, fail_write_number = 2\<rparr>"

lemma blank_disk_ok: "test_disk_ok blank_disk"
  by (simp add: blank_disk_def test_disk_ok_def)

theorem journal_append_atomic_witness:
  "test_disk_ok (snd (journal_append read_disk write_disk 0 65 1 7 (Some [67]) (Some [1, 2]) 2 blank_disk))"
  using journal_append_atomic [OF host_test.sector_device_axioms blank_disk_ok,
      of "Some [1, 2]" 2 0 65 1 7 "Some [67]"
        "fst (journal_append read_disk write_disk 0 65 1 7 (Some [67]) (Some [1, 2]) 2 blank_disk)"
        "snd (journal_append read_disk write_disk 0 65 1 7 (Some [67]) (Some [1, 2]) 2 blank_disk)"]
  by simp

text \<open>C4: journal_replay never writes; when it succeeds it has applied exactly the entries of the
  region's log, in log order and each of them successfully, and reports their number; on a region
  with no valid log it fails without having applied anything.\<close>
theorem journal_replay_in_order:
  assumes "sector_device rd wr content ok" and "ok d"
    and "journal_replay rd start sc f (d, a) = (res, cnt, d', a')"
  shows "ok d' \<and> content d' = content d \<and>
    (res \<longrightarrow> (\<exists>n es. region_log (content d) start sc n es \<and> cnt = length es \<and>
       apply_all f es a = (True, a'))) \<and>
    ((\<nexists>n es. region_log (content d) start sc n es) \<longrightarrow> \<not> res \<and> a' = a)"
  using assms by (rule sector_device.replay_in_order)

theorem journal_replay_in_order_witness:
  "test_sector (fst (snd (snd (journal_replay read_disk 0 65 (\<lambda>e a. (True, a @ [e])) (blank_disk, []))))) 0
     = test_sector blank_disk 0"
  using journal_replay_in_order [OF host_test.sector_device_axioms blank_disk_ok,
      of 0 65 "\<lambda>e a. (True, a @ [e])" "[]"]
  by (metis prod.collapse)

text \<open>The sequence number journal_next_sequence hands out is the successor of the last entry's
  in the log and is newer in the journal's order, so the append that uses it is not refused for
  its sequence.\<close>
theorem journal_next_sequence_fresh:
  assumes "sector_device rd wr content ok" and "ok d"
    and "journal_next_sequence rd start sc d = (res, d')"
  shows "ok d' \<and> content d' = content d \<and>
    (\<forall>s. res = Some s \<longrightarrow> (\<exists>n es. region_log (content d) start sc n es \<and>
       sequence_is_newer s (last_sequence 0 es) \<and> unat s = unat (last_sequence 0 es) + 1))"
  using assms by (rule sector_device.next_sequence_sound)

theorem journal_next_sequence_fresh_witness:
  "test_sector (snd (journal_next_sequence read_disk 0 65 blank_disk)) 3 = test_sector blank_disk 3"
  using journal_next_sequence_fresh [OF host_test.sector_device_axioms blank_disk_ok, of 0 65]
  by (metis prod.collapse)

end
