(* ===== verification/Ramfs.thy ===== *)
theory Ramfs
  imports Journal "HOL-Library.AList"
begin

text \<open>
  The RAM file system of \<open>fs/ramfs.c\<close>: sixteen slots with fixed name and content buffers. The
  directory it represents is an association list; the locale \<open>text_store\<close> states what the file
  operations promise about it, and the slots are shown to keep that promise.
\<close>

section \<open>State\<close>

abbreviation RAMFS_MAX_FILES :: nat where "RAMFS_MAX_FILES \<equiv> 16"
abbreviation RAMFS_NAME_MAX :: nat where "RAMFS_NAME_MAX \<equiv> 32"
abbreviation RAMFS_CONTENT_MAX :: nat where "RAMFS_CONTENT_MAX \<equiv> 256"

record ramfs_file =
  file_name :: bytes
  file_contents :: bytes

record ramfs =
  files :: "ramfs_file list"
  file_count :: nat

section \<open>Strings\<close>

text \<open>The character a pointer points to; at the end of the list that is the terminator.\<close>

definition deref :: "bytes \<Rightarrow> u8" where
  "deref s = (case s of [] \<Rightarrow> 0 | c # _ \<Rightarrow> c)"

function same_text :: "bytes \<Rightarrow> bytes \<Rightarrow> bool" where
  "same_text left right =
     (if deref left \<noteq> 0 \<and> deref right \<noteq> 0 then
        if deref left \<noteq> deref right then False else same_text (tl left) (tl right)
      else deref left = deref right)"
  by pat_completeness auto
termination
  by (relation "measure (\<lambda>(l, r). length l)") (auto simp: deref_def split: list.splits)

declare same_text.simps [simp del]

definition string_equals :: "bytes option \<Rightarrow> bytes option \<Rightarrow> bool" where
  "string_equals left right =
     (case (left, right) of (Some l, Some r) \<Rightarrow> same_text l r | _ \<Rightarrow> False)"

definition string_length :: "bytes option \<Rightarrow> nat \<Rightarrow> nat" where
  "string_length value limit = bounded_length value limit"

definition ramfs_valid_name :: "bytes option \<Rightarrow> bool" where
  "ramfs_valid_name nm =
     (let len = string_length nm RAMFS_NAME_MAX in
      if len = 0 \<or> len \<ge> RAMFS_NAME_MAX then False
      else case nm of None \<Rightarrow> False | Some s \<Rightarrow> list_all name_byte_ok (take len s))"

text \<open>The destination buffer is walked together with the source; what lies behind the
  terminator keeps its old value.\<close>

fun copy_string :: "bytes \<Rightarrow> bytes \<Rightarrow> nat \<Rightarrow> bytes" where
  "copy_string [] source capacity = []"
| "copy_string (d # ds) source capacity =
     (if 1 < capacity \<and> deref source \<noteq> 0
      then deref source # copy_string ds (tl source) (capacity - 1)
      else 0 # ds)"

definition ascii :: "string \<Rightarrow> bytes" where
  "ascii s = map of_char s"

section \<open>File operations\<close>

definition store_name :: "bytes \<Rightarrow> ramfs_file \<Rightarrow> ramfs_file" where
  "store_name s f = f\<lparr>file_name := copy_string (file_name f) s RAMFS_NAME_MAX\<rparr>"

definition store_contents :: "bytes \<Rightarrow> ramfs_file \<Rightarrow> ramfs_file" where
  "store_contents s f = f\<lparr>file_contents := copy_string (file_contents f) s RAMFS_CONTENT_MAX\<rparr>"

definition add_file :: "bytes \<Rightarrow> bytes \<Rightarrow> ramfs \<Rightarrow> ramfs" where
  "add_file nm contents r =
     (if file_count r = RAMFS_MAX_FILES then r
      else r\<lparr>files := (files r)[file_count r :=
               store_contents contents (store_name nm (files r ! file_count r))],
             file_count := file_count r + 1\<rparr>)"

definition ramfs_init :: "ramfs \<Rightarrow> ramfs" where
  "ramfs_init r =
     add_file (ascii ''EFES'') (ascii ''EfesOS RAM filesystem entry.\<newline>'')
       (add_file (ascii ''MOTD'') (ascii ''Build, learn, and drink responsibly.\<newline>'')
         (add_file (ascii ''README'') (ascii ''EfesOS RAM filesystem\<newline>'')
           (r\<lparr>file_count := 0\<rparr>)))"

definition ramfs_file_count :: "ramfs \<Rightarrow> nat" where
  "ramfs_file_count r = file_count r"

definition ramfs_is_pristine :: "ramfs \<Rightarrow> bool" where
  "ramfs_is_pristine r \<longleftrightarrow>
     file_count r = 3 \<and>
     string_equals (Some (file_name (files r ! 0))) (Some (ascii ''README'')) \<and>
     string_equals (Some (file_name (files r ! 1))) (Some (ascii ''MOTD'')) \<and>
     string_equals (Some (file_name (files r ! 2))) (Some (ascii ''EFES''))"

definition ramfs_file_name :: "nat \<Rightarrow> ramfs \<Rightarrow> bytes" where
  "ramfs_file_name index r =
     (if index \<ge> file_count r then [] else file_name (files r ! index))"

text \<open>The search every operation starts with: the first slot holding the name.\<close>

definition slot_of :: "bytes option \<Rightarrow> ramfs \<Rightarrow> nat option" where
  "slot_of nm r =
     find (\<lambda>index. string_equals nm (Some (file_name (files r ! index)))) [0 ..< file_count r]"

definition ramfs_file_contents :: "bytes option \<Rightarrow> ramfs \<Rightarrow> bytes option" where
  "ramfs_file_contents nm r =
     (if \<not> ramfs_valid_name nm then None
      else case slot_of nm r of None \<Rightarrow> None
           | Some index \<Rightarrow> Some (file_contents (files r ! index)))"

text \<open>The content length is only stored once the length is known to fit.\<close>

definition ramfs_can_write_file :: "bytes option \<Rightarrow> bytes option \<Rightarrow> ramfs \<Rightarrow> bool \<times> nat option" where
  "ramfs_can_write_file nm contents r =
     (if \<not> ramfs_valid_name nm \<or> contents = None then (False, None)
      else let len = string_length contents RAMFS_CONTENT_MAX in
           if len \<ge> RAMFS_CONTENT_MAX then (False, None)
           else case slot_of nm r of
                  Some index \<Rightarrow> (True, Some len)
                | None \<Rightarrow> (file_count r \<noteq> RAMFS_MAX_FILES, Some len))"

definition ramfs_write_file :: "bytes option \<Rightarrow> bytes option \<Rightarrow> ramfs \<Rightarrow> bool \<times> ramfs" where
  "ramfs_write_file nm contents r =
     (if \<not> fst (ramfs_can_write_file nm contents r) then (False, r)
      else case slot_of nm r of
             Some index \<Rightarrow>
               (True, r\<lparr>files := (files r)[index := store_contents (the contents) (files r ! index)]\<rparr>)
           | None \<Rightarrow> (True, add_file (the nm) (the contents) r))"

definition move_down :: "nat \<Rightarrow> ramfs_file list \<Rightarrow> ramfs_file list" where
  "move_down move fs =
     (let fs1 = fs[move - 1 := store_name (file_name (fs ! move)) (fs ! (move - 1))]
      in fs1[move - 1 := store_contents (file_contents (fs1 ! move)) (fs1 ! (move - 1))])"

definition ramfs_remove_file :: "bytes option \<Rightarrow> ramfs \<Rightarrow> bool \<times> ramfs" where
  "ramfs_remove_file nm r =
     (if \<not> ramfs_valid_name nm then (False, r)
      else case slot_of nm r of
             None \<Rightarrow> (False, r)
           | Some index \<Rightarrow>
               (True, r\<lparr>files := fold move_down [index + 1 ..< file_count r] (files r),
                        file_count := file_count r - 1\<rparr>))"

definition ramfs_apply_journal_entry :: "journal_entry \<Rightarrow> ramfs \<Rightarrow> bool \<times> ramfs" where
  "ramfs_apply_journal_entry e r =
     (if name_length e = 0 \<or> unat (name_length e) \<ge> RAMFS_NAME_MAX \<or>
         unat (content_length e) \<ge> RAMFS_CONTENT_MAX \<or>
         entry_name e ! unat (name_length e) \<noteq> 0 \<or> \<not> ramfs_valid_name (Some (entry_name e))
      then (False, r)
      else if operation e = JOURNAL_OPERATION_REMOVE then
        if content_length e \<noteq> 0 then (False, r)
        else if ramfs_file_contents (Some (entry_name e)) r = None then (True, r)
        else ramfs_remove_file (Some (entry_name e)) r
      else if operation e \<noteq> JOURNAL_OPERATION_WRITE then (False, r)
      else if list_ex (\<lambda>c. c = 0) (take (unat (content_length e)) (entry_content e)) then (False, r)
      else ramfs_write_file (Some (entry_name e))
             (Some (take (unat (content_length e)) (entry_content e) @ [0])) r)"

definition ramfs_self_test :: "ramfs \<Rightarrow> bool \<times> ramfs" where
  "ramfs_self_test r =
     (let test = Some (ascii ''TEST'');
          long = Some (ascii ''TOO_LONG_NAME_THAT_EXCEEDS_THE_LIMIT'');
          rejected = Some (ascii ''rejected'');
          (w, r1) = ramfs_write_file test (Some (ascii ''safe write\<newline>'')) r
      in if \<not> w then (False, r1)
      else let contents = ramfs_file_contents test r1 in
        if contents = None \<or> \<not> string_equals contents (Some (ascii ''safe write\<newline>'')) then (False, r1)
        else let (w2, r2) = ramfs_write_file (Some (ascii ''bad/name'')) rejected r1 in
          if w2 then (False, r2)
          else let (w3, r3) = ramfs_write_file long rejected r2 in
            if w3 \<or> ramfs_file_contents long r3 \<noteq> None then (False, r3)
            else let (w4, r4) = ramfs_remove_file test r3 in
              if \<not> w4 \<or> ramfs_file_contents test r4 \<noteq> None then (False, r4) else (True, r4))"

section \<open>Strings as lists of bytes\<close>

lemma deref_simps [simp]: "deref [] = 0" "deref (c # s) = c"
  by (simp_all add: deref_def)

lemma cstring_simps [simp]: "cstring [] = []" "cstring (c # s) = (if c = 0 then [] else c # cstring s)"
  by (simp_all add: cstring_def)

lemma same_text_iff: "same_text l r \<longleftrightarrow> cstring l = cstring r"
proof (induction l r rule: same_text.induct)
  case (1 l r)
  then show ?case
    by (subst same_text.simps) (cases l; cases r; auto)
qed

lemma string_equals_iff [simp]: "string_equals (Some l) (Some r) \<longleftrightarrow> cstring l = cstring r"
  by (simp add: string_equals_def same_text_iff)

lemma string_equals_None [simp]: "\<not> string_equals None r" "\<not> string_equals l None"
  by (auto simp: string_equals_def split: option.splits)

lemma length_copy_string [simp]: "length (copy_string d s n) = length d"
  by (induction d s n rule: copy_string.induct) auto

lemma cstring_copy_string:
  "0 < n \<Longrightarrow> n \<le> length d \<Longrightarrow> cstring (copy_string d s n) = take (n - 1) (cstring s)"
proof (induction d s n rule: copy_string.induct)
  case (2 d ds s n)
  show ?case
  proof (cases "1 < n \<and> deref s \<noteq> 0")
    case True
    then obtain c s' where s: "s = c # s'" "c \<noteq> 0" by (cases s) auto
    have "n = Suc (Suc (n - 2))" using True by arith
    then obtain m where "n = Suc (Suc m)" by blast
    then show ?thesis using 2 s True by simp
  next
    case False
    then show ?thesis using 2 by (cases s) auto
  qed
qed simp

lemma copy_string_fits:
  "n \<le> length d \<Longrightarrow> length (cstring s) < n \<Longrightarrow> cstring (copy_string d s n) = cstring s"
  by (simp add: cstring_copy_string)

lemma cstring_cstring [simp]: "cstring (cstring s) = cstring s"
  by (induction s) auto

lemma cstring_nonzero: "list_all (\<lambda>c. c \<noteq> 0) s \<Longrightarrow> cstring s = s"
  by (induction s) auto

lemma cstring_terminated: "list_all (\<lambda>c. c \<noteq> 0) s \<Longrightarrow> cstring (s @ 0 # t) = s"
  by (induction s) auto

text \<open>The names and texts a file may have.\<close>

definition name_ok :: "bytes \<Rightarrow> bool" where
  "name_ok n \<longleftrightarrow> n \<noteq> [] \<and> length n < RAMFS_NAME_MAX \<and> list_all name_byte_ok n"

definition text_ok :: "bytes \<Rightarrow> bool" where
  "text_ok c \<longleftrightarrow> length c < RAMFS_CONTENT_MAX"

lemma name_byte_nonzero: "name_byte_ok c \<Longrightarrow> c \<noteq> 0"
  by (auto simp: name_byte_ok_def)

lemma name_ok_nonzero: "name_ok n \<Longrightarrow> list_all (\<lambda>c. c \<noteq> 0) n"
  by (auto simp: name_ok_def list_all_iff dest: name_byte_nonzero)

lemma valid_name_None [simp]: "\<not> ramfs_valid_name None"
  by (simp add: ramfs_valid_name_def string_length_def bounded_length_def)

lemma valid_name_iff [simp]: "ramfs_valid_name (Some s) \<longleftrightarrow> name_ok (cstring s)"
proof (cases "length (cstring s) < RAMFS_NAME_MAX")
  case True
  then show ?thesis
    by (auto simp: ramfs_valid_name_def string_length_def bounded_length_eq name_ok_def Let_def take_cstring)
next
  case False
  then show ?thesis
    by (simp add: ramfs_valid_name_def string_length_def bounded_length_eq name_ok_def)
qed

section \<open>The directory\<close>

type_synonym directory = "(bytes \<times> bytes) list"

definition slot_text :: "ramfs_file \<Rightarrow> bytes \<times> bytes" where
  "slot_text f = (cstring (file_name f), cstring (file_contents f))"

definition directory :: "ramfs \<Rightarrow> directory" where
  "directory r = map slot_text (take (file_count r) (files r))"

definition slot_wf :: "ramfs_file \<Rightarrow> bool" where
  "slot_wf f \<longleftrightarrow> length (file_name f) = RAMFS_NAME_MAX \<and> length (file_contents f) = RAMFS_CONTENT_MAX"

definition ramfs_wf :: "ramfs \<Rightarrow> bool" where
  "ramfs_wf r \<longleftrightarrow>
     length (files r) = RAMFS_MAX_FILES \<and> file_count r \<le> RAMFS_MAX_FILES \<and>
     list_all slot_wf (files r) \<and> distinct (map fst (directory r)) \<and>
     list_all (\<lambda>(n, c). name_ok n \<and> text_ok c) (directory r)"

lemma length_directory [simp]: "ramfs_wf r \<Longrightarrow> length (directory r) = file_count r"
  by (simp add: ramfs_wf_def directory_def)

lemma directory_nth: "ramfs_wf r \<Longrightarrow> i < file_count r \<Longrightarrow> directory r ! i = slot_text (files r ! i)"
  by (simp add: ramfs_wf_def directory_def)

lemma directory_entry_ok:
  assumes "ramfs_wf r" "j < file_count r"
  shows "name_ok (fst (directory r ! j)) \<and> text_ok (snd (directory r ! j))"
  using assms length_directory [OF assms(1)] by (simp add: ramfs_wf_def list_all_length case_prod_beta)

lemma slot_wf_nth: "ramfs_wf r \<Longrightarrow> i < RAMFS_MAX_FILES \<Longrightarrow> slot_wf (files r ! i)"
  by (simp add: ramfs_wf_def list_all_length)

lemma slot_of_None [simp]: "slot_of None r = None"
  by (simp add: slot_of_def find_None_iff)

lemma slot_of_find:
  assumes "ramfs_wf r"
  shows "slot_of (Some s) r = find (\<lambda>i. fst (directory r ! i) = cstring s) [0 ..< file_count r]"
  unfolding slot_of_def
  by (rule find_cong [OF refl]) (use assms in \<open>auto simp: directory_nth slot_text_def\<close>)

lemma slot_of_Some:
  assumes "ramfs_wf r"
  shows "slot_of (Some s) r = Some i \<longleftrightarrow> i < file_count r \<and> fst (directory r ! i) = cstring s"
proof -
  have "fst (directory r ! j) \<noteq> fst (directory r ! i)" if "i < file_count r" "j < i" for j
    using assms that nth_eq_iff_index_eq [of "map fst (directory r)" j i] by (auto simp: ramfs_wf_def)
  then show ?thesis unfolding slot_of_find [OF assms] find_upt_Some by auto
qed

lemma slot_of_absent:
  assumes "ramfs_wf r"
  shows "slot_of (Some s) r = None \<longleftrightarrow> cstring s \<notin> fst ` set (directory r)"
proof -
  have "fst ` set (directory r) = {fst (directory r ! i) |i. i < file_count r}"
    using assms by (auto simp: set_conv_nth)
  then show ?thesis unfolding slot_of_find [OF assms] find_upt_None by auto
qed

section \<open>Association lists with distinct keys\<close>

lemma update_nth:
  "distinct (map fst d) \<Longrightarrow> i < length d \<Longrightarrow> fst (d ! i) = k \<Longrightarrow> d[i := (k, v)] = AList.update k v d"
proof (induction d arbitrary: i)
  case (Cons p d)
  then show ?case by (cases p; cases i) (auto simp: image_iff)
qed simp

lemma update_new: "k \<notin> fst ` set d \<Longrightarrow> AList.update k v d = d @ [(k, v)]"
  by (induction d) auto

lemma delete_nth:
  "distinct (map fst d) \<Longrightarrow> i < length d \<Longrightarrow> fst (d ! i) = k \<Longrightarrow> take i d @ drop (Suc i) d = AList.delete k d"
proof (induction d arbitrary: i)
  case (Cons p d)
  then show ?case by (cases p; cases i) (auto simp: image_iff delete_id)
qed simp

lemma length_delete_nth:
  "distinct (map fst d) \<Longrightarrow> k \<in> fst ` set d \<Longrightarrow> Suc (length (AList.delete k d)) = length d"
  by (induction d) (auto simp: delete_id)

section \<open>What the operations do to the directory\<close>

lemma slot_text_store:
  assumes "slot_wf f"
  shows "length (cstring s) < RAMFS_NAME_MAX \<Longrightarrow> slot_text (store_name s f) = (cstring s, cstring (file_contents f))"
    and "length (cstring s) < RAMFS_CONTENT_MAX \<Longrightarrow> slot_text (store_contents s f) = (cstring (file_name f), cstring s)"
    and "slot_wf (store_name s f)" and "slot_wf (store_contents s f)"
  using assms by (auto simp: slot_text_def store_name_def store_contents_def slot_wf_def copy_string_fits)

lemma slot_text_both:
  assumes "slot_wf f" "length (cstring n) < RAMFS_NAME_MAX" "length (cstring c) < RAMFS_CONTENT_MAX"
  shows "slot_text (store_contents c (store_name n f)) = (cstring n, cstring c)"
  using assms by (auto simp: slot_text_def store_name_def store_contents_def slot_wf_def copy_string_fits)

lemma list_all_update: "list_all P xs \<Longrightarrow> P x \<Longrightarrow> list_all P (xs[i := x])"
  by (auto simp: list_all_iff dest!: set_update_subset_insert [THEN subsetD])

text \<open>A state whose directory is \<open>d\<close> is well-formed when \<open>d\<close> is.\<close>

definition directory_ok :: "directory \<Rightarrow> bool" where
  "directory_ok d \<longleftrightarrow> length d \<le> RAMFS_MAX_FILES \<and> distinct (map fst d) \<and>
     list_all (\<lambda>(n, c). name_ok n \<and> text_ok c) d"

lemma ramfs_wf_iff:
  "ramfs_wf r \<longleftrightarrow> length (files r) = RAMFS_MAX_FILES \<and> file_count r \<le> RAMFS_MAX_FILES \<and>
     list_all slot_wf (files r) \<and> directory_ok (directory r)"
  by (auto simp: ramfs_wf_def directory_ok_def directory_def)

lemma directory_ok_update:
  assumes "directory_ok d" "name_ok k" "text_ok v" "k \<in> fst ` set d \<or> length d < RAMFS_MAX_FILES"
  shows "directory_ok (AList.update k v d)"
proof -
  have "length (AList.update k v d) \<le> RAMFS_MAX_FILES"
  proof (cases "k \<in> fst ` set d")
    case True
    then have "length (AList.update k v d) = length d" by (induction d) auto
    then show ?thesis using assms by (simp add: directory_ok_def)
  next
    case False
    then show ?thesis using assms by (simp add: update_new)
  qed
  moreover have "distinct (map fst (AList.update k v d))"
    using assms by (intro distinct_update) (simp add: directory_ok_def)
  moreover have "set (AList.update k v d) \<subseteq> insert (k, v) (set d)" by (induction d) auto
  ultimately show ?thesis using assms by (auto simp: directory_ok_def list_all_iff dest!: subsetD)
qed

lemma directory_ok_delete: "directory_ok d \<Longrightarrow> directory_ok (AList.delete k d)"
  by (auto simp: directory_ok_def AList.delete_eq list_all_iff
      intro!: distinct_map_filter order_trans [OF length_filter_le])

lemma add_file_effect:
  assumes r: "ramfs_wf r" and n: "name_ok (cstring n)" and c: "text_ok (cstring c)"
    and new: "cstring n \<notin> fst ` set (directory r)" and room: "file_count r < RAMFS_MAX_FILES"
  shows "ramfs_wf (add_file n c r) \<and> directory (add_file n c r) = AList.update (cstring n) (cstring c) (directory r)"
proof -
  let ?f = "store_contents c (store_name n (files r ! file_count r))"
  have old: "slot_wf (files r ! file_count r)" by (rule slot_wf_nth [OF r room])
  have f: "slot_wf ?f" "slot_text ?f = (cstring n, cstring c)"
    using slot_text_both [OF old, of n c] slot_text_store(3,4) old n c
    by (simp_all add: name_ok_def text_ok_def)
  have len: "length (files r) = RAMFS_MAX_FILES" using r by (simp add: ramfs_wf_def)
  have dir: "directory (add_file n c r) = directory r @ [(cstring n, cstring c)]"
    using room len f by (simp add: add_file_def directory_def take_Suc_conv_app_nth)
  have ok: "directory_ok (directory (add_file n c r))"
    unfolding dir update_new [OF new, symmetric]
    using r n c room by (intro directory_ok_update) (auto simp: ramfs_wf_iff directory_def)
  have "ramfs_wf (add_file n c r)"
    using ok r room f(1) by (auto simp: ramfs_wf_iff add_file_def list_all_update)
  then show ?thesis using dir update_new [OF new] by simp
qed

lemma can_write_iff:
  assumes "ramfs_wf r"
  shows "fst (ramfs_can_write_file nm cp r) \<longleftrightarrow>
    (\<exists>n c. nm = Some n \<and> cp = Some c \<and> name_ok (cstring n) \<and> text_ok (cstring c) \<and>
      (cstring n \<in> fst ` set (directory r) \<or> length (directory r) < RAMFS_MAX_FILES))"
proof (cases nm; cases cp)
  fix n c assume s: "nm = Some n" "cp = Some c"
  have "file_count r \<le> RAMFS_MAX_FILES" using assms by (simp add: ramfs_wf_def)
  then show ?thesis
    using assms s slot_of_absent [OF assms, of n]
    by (auto simp: ramfs_can_write_file_def Let_def string_length_def bounded_length_eq text_ok_def split: option.splits)
qed (auto simp: ramfs_can_write_file_def)

lemma write_effect:
  assumes r: "ramfs_wf r" and w: "ramfs_write_file (Some n) (Some c) r = (b, r')"
  shows "ramfs_wf r' \<and>
    (b \<longleftrightarrow> name_ok (cstring n) \<and> text_ok (cstring c) \<and>
      (cstring n \<in> fst ` set (directory r) \<or> length (directory r) < RAMFS_MAX_FILES)) \<and>
    directory r' = (if b then AList.update (cstring n) (cstring c) (directory r) else directory r)"
proof (cases "fst (ramfs_can_write_file (Some n) (Some c) r)")
  case False
  then show ?thesis using w r can_write_iff [OF r, of "Some n" "Some c"] by (auto simp: ramfs_write_file_def)
next
  case True
  then have ok: "name_ok (cstring n)" "text_ok (cstring c)"
    "cstring n \<in> fst ` set (directory r) \<or> length (directory r) < RAMFS_MAX_FILES"
    using can_write_iff [OF r, of "Some n" "Some c"] by auto
  show ?thesis
  proof (cases "slot_of (Some n) r")
    case None
    then have new: "cstring n \<notin> fst ` set (directory r)" using slot_of_absent [OF r] by simp
    then have "file_count r < RAMFS_MAX_FILES" using ok r by simp
    then show ?thesis
      using add_file_effect [OF r ok(1,2) new] True None w ok by (auto simp: ramfs_write_file_def)
  next
    case (Some i)
    then have i: "i < file_count r" "fst (directory r ! i) = cstring n" using slot_of_Some [OF r] by auto
    then have b: "i < RAMFS_MAX_FILES" using r by (simp add: ramfs_wf_def)
    let ?f = "store_contents c (files r ! i)"
    have f: "slot_wf ?f" "slot_text ?f = (cstring n, cstring c)"
      using slot_text_store(2,4) [OF slot_wf_nth [OF r b], of c] ok(2) i(2) directory_nth [OF r i(1)]
      by (simp_all add: text_ok_def slot_text_def [of "files r ! i"])
    have r': "b" "r' = r\<lparr>files := (files r)[i := ?f]\<rparr>" using w True Some by (auto simp: ramfs_write_file_def)
    have "directory r' = (directory r)[i := (cstring n, cstring c)]"
      using r' f i by (simp add: directory_def take_update_swap map_update)
    also have "\<dots> = AList.update (cstring n) (cstring c) (directory r)"
      using r i by (intro update_nth) (auto simp: ramfs_wf_def)
    finally have dir: "directory r' = AList.update (cstring n) (cstring c) (directory r)" .
    have "directory_ok (directory r')"
      unfolding dir using r ok by (intro directory_ok_update) (auto simp: ramfs_wf_iff)
    then have "ramfs_wf r'" using r r' f(1) by (auto simp: ramfs_wf_iff list_all_update)
    then show ?thesis using dir r' ok by simp
  qed
qed

lemma move_down_effect:
  assumes "length fs = RAMFS_MAX_FILES" "list_all slot_wf fs" "0 < move" "move < RAMFS_MAX_FILES"
    "length (fst (slot_text (fs ! move))) < RAMFS_NAME_MAX" "length (snd (slot_text (fs ! move))) < RAMFS_CONTENT_MAX"
  shows "list_all slot_wf (move_down move fs) \<and>
    map slot_text (move_down move fs) = (map slot_text fs)[move - 1 := slot_text (fs ! move)]"
proof -
  let ?g = "store_contents (file_contents (fs ! move)) (store_name (file_name (fs ! move)) (fs ! (move - 1)))"
  have wf: "slot_wf (fs ! (move - 1))" using assms by (simp add: list_all_length)
  have ne: "move - 1 \<noteq> move" using assms(3) by simp
  have m: "move_down move fs = fs[move - 1 := ?g]"
    using ne assms(1,4) by (simp add: move_down_def Let_def)
  have "slot_text ?g = slot_text (fs ! move)"
    using slot_text_both [OF wf] assms(5,6) by (simp add: slot_text_def)
  moreover have "slot_wf ?g" using wf by (simp add: slot_text_store)
  ultimately show ?thesis unfolding m using assms(2) by (simp add: map_update list_all_update)
qed

text \<open>A buffer text that fits is one that \<open>copy_string\<close> copies entirely.\<close>

definition slot_fits :: "ramfs_file \<Rightarrow> bool" where
  "slot_fits f \<longleftrightarrow> length (fst (slot_text f)) < RAMFS_NAME_MAX \<and> length (snd (slot_text f)) < RAMFS_CONTENT_MAX"

lemma moves_effect:
  assumes fs: "length fs = RAMFS_MAX_FILES" "list_all slot_wf fs"
  shows "Suc i \<le> n \<Longrightarrow> n \<le> RAMFS_MAX_FILES \<Longrightarrow> \<forall>j < n. slot_fits (fs ! j) \<Longrightarrow>
    list_all slot_wf (fold move_down [i + 1 ..< n] fs) \<and>
    length (fold move_down [i + 1 ..< n] fs) = RAMFS_MAX_FILES \<and>
    (\<forall>j < RAMFS_MAX_FILES. slot_text (fold move_down [i + 1 ..< n] fs ! j) =
       slot_text (fs ! (if i \<le> j \<and> Suc j < n then Suc j else j)))"
proof (induction n rule: nat_induct_at_least)
  case base
  then show ?case using fs by auto
next
  case (Suc n)
  let ?g = "fold move_down [i + 1 ..< n] fs"
  have IH: "list_all slot_wf ?g" "length ?g = RAMFS_MAX_FILES"
    "\<forall>j < RAMFS_MAX_FILES. slot_text (?g ! j) = slot_text (fs ! (if i \<le> j \<and> Suc j < n then Suc j else j))"
    using Suc.IH Suc.prems by auto
  have n: "0 < n" "n < RAMFS_MAX_FILES" using Suc.hyps Suc.prems by auto
  have at: "slot_text (?g ! n) = slot_text (fs ! n)" using IH(3) n by simp
  have fits: "length (fst (slot_text (?g ! n))) < RAMFS_NAME_MAX"
    "length (snd (slot_text (?g ! n))) < RAMFS_CONTENT_MAX"
    using Suc.prems unfolding at by (auto simp: slot_fits_def)
  have m: "list_all slot_wf (move_down n ?g)" 
    "map slot_text (move_down n ?g) = (map slot_text ?g)[n - 1 := slot_text (?g ! n)]"
    using move_down_effect [OF IH(2,1) n fits] by auto
  have len: "length (move_down n ?g) = RAMFS_MAX_FILES"
    using m(2) IH(2) by (metis length_list_update length_map)
  have "slot_text (move_down n ?g ! j) = slot_text (fs ! (if i \<le> j \<and> Suc j < Suc n then Suc j else j))"
    if j: "j < RAMFS_MAX_FILES" for j
  proof -
    have "slot_text (move_down n ?g ! j) = ((map slot_text ?g)[n - 1 := slot_text (?g ! n)]) ! j"
      using m(2) j len by (metis nth_map)
    moreover have "i \<le> n - 1" "Suc (n - 1) = n" using Suc.hyps n by arith+
    moreover have "(Suc j < Suc n) = (j = n - 1 \<or> Suc j < n)" using n by arith
    moreover have "slot_text (?g ! j) = slot_text (fs ! (if i \<le> j \<and> Suc j < n then Suc j else j))"
      using IH(3) j by blast
    ultimately show ?thesis
      using j IH(2) at n by (cases "j = n - 1") simp_all
  qed
  moreover have "fold move_down [i + 1 ..< Suc n] fs = move_down n ?g" using Suc.hyps by simp
  ultimately show ?case using m(1) len by simp
qed

lemma remove_effect:
  assumes r: "ramfs_wf r" and w: "ramfs_remove_file (Some n) r = (b, r')"
  shows "ramfs_wf r' \<and> (b \<longleftrightarrow> cstring n \<in> fst ` set (directory r)) \<and>
    directory r' = (if b then AList.delete (cstring n) (directory r) else directory r)"
proof (cases "slot_of (Some n) r")
  case None
  then have "\<not> b" "r' = r" using w by (auto simp: ramfs_remove_file_def split: if_splits)
  then show ?thesis using r None slot_of_absent [OF r, of n] by simp
next
  case (Some i)
  then have i: "i < file_count r" "fst (directory r ! i) = cstring n" using slot_of_Some [OF r] by auto
  have wf: "length (files r) = RAMFS_MAX_FILES" "list_all slot_wf (files r)" "file_count r \<le> RAMFS_MAX_FILES"
    using r by (auto simp: ramfs_wf_def)
  have valid: "name_ok (cstring n)" using directory_entry_ok [OF r i(1)] i(2) by simp
  have "slot_fits (files r ! j)" if "j < file_count r" for j
    using directory_entry_ok [OF r that] directory_nth [OF r that]
    by (simp add: slot_fits_def name_ok_def text_ok_def)
  then have "\<forall>j < file_count r. slot_fits (files r ! j)" by blast
  note mv = moves_effect [OF wf(1,2) _ wf(3) this, of i]
  have r': "b" "r' = r\<lparr>files := fold move_down [i + 1 ..< file_count r] (files r), file_count := file_count r - 1\<rparr>"
    using w Some valid by (auto simp: ramfs_remove_file_def)
  have mem: "cstring n \<in> fst ` set (directory r)" using i length_directory [OF r] by (metis nth_mem imageI)
  have "directory r' = take i (directory r) @ drop (Suc i) (directory r)"
  proof (rule nth_equalityI)
    show len: "length (directory r') = length (take i (directory r) @ drop (Suc i) (directory r))"
      using r' mv i wf length_directory [OF r] by (simp add: directory_def)
    fix j assume "j < length (directory r')"
    then have j: "j < file_count r - 1" using r' mv i wf by (simp add: directory_def)
    have "directory r' ! j = slot_text (files r ! (if i \<le> j \<and> Suc j < file_count r then Suc j else j))"
      using r' mv i wf j by (simp add: directory_def)
    then show "directory r' ! j = (take i (directory r) @ drop (Suc i) (directory r)) ! j"
      using j i length_directory [OF r] directory_nth [OF r] by (auto simp: nth_append min_def)
  qed
  also have "\<dots> = AList.delete (cstring n) (directory r)"
    using r i by (intro delete_nth) (auto simp: ramfs_wf_def)
  finally have d: "directory r' = AList.delete (cstring n) (directory r)" .
  have "directory_ok (directory r')" unfolding d using r by (simp add: ramfs_wf_iff directory_ok_delete)
  then have "ramfs_wf r'" using r' mv i wf by (simp add: ramfs_wf_iff)
  then show ?thesis using d r' mem by simp
qed

lemma contents_effect:
  assumes "ramfs_wf r"
  shows "map_option cstring (ramfs_file_contents (Some n) r) = map_of (directory r) (cstring n)"
proof (cases "slot_of (Some n) r")
  case None
  then have "map_of (directory r) (cstring n) = None"
    using slot_of_absent [OF assms] by (simp add: map_of_eq_None_iff)
  then show ?thesis using None by (simp add: ramfs_file_contents_def)
next
  case (Some i)
  then have i: "i < file_count r" "fst (directory r ! i) = cstring n" using slot_of_Some [OF assms] by auto
  then have "directory r ! i \<in> set (directory r)" using assms by simp
  then have "map_of (directory r) (cstring n) = Some (snd (directory r ! i))"
    using assms i by (metis map_of_is_SomeI prod.collapse ramfs_wf_def)
  moreover have "name_ok (cstring n)"
    using directory_entry_ok [OF assms i(1)] i(2) by simp
  ultimately show ?thesis using Some directory_nth [OF assms i(1)] by (simp add: ramfs_file_contents_def slot_text_def)
qed

section \<open>The contract of a text store\<close>

datatype file_op = Write_file bytes bytes | Remove_file bytes

fun store_step :: "file_op \<Rightarrow> directory \<Rightarrow> bool \<times> directory" where
  "store_step (Write_file n c) d =
     (if name_ok n \<and> text_ok c \<and> (n \<in> fst ` set d \<or> length d < RAMFS_MAX_FILES)
      then (True, AList.update n c d) else (False, d))"
| "store_step (Remove_file n) d =
     (if n \<in> fst ` set d then (True, AList.delete n d) else (False, d))"

fun run_ops :: "('o \<Rightarrow> 's \<Rightarrow> bool \<times> 's) \<Rightarrow> 'o list \<Rightarrow> 's \<Rightarrow> bool list \<times> 's" where
  "run_ops f [] s = ([], s)"
| "run_ops f (x # xs) s = (let (b, s1) = f x s; (bs, s2) = run_ops f xs s1 in (b # bs, s2))"

definition do_op :: "(bytes \<Rightarrow> bytes \<Rightarrow> 's \<Rightarrow> bool \<times> 's) \<Rightarrow> (bytes \<Rightarrow> 's \<Rightarrow> bool \<times> 's) \<Rightarrow>
    file_op \<Rightarrow> 's \<Rightarrow> bool \<times> 's" where
  "do_op put del x s = (case x of Write_file n c \<Rightarrow> put n c s | Remove_file n \<Rightarrow> del n s)"

definition abs_op :: "file_op \<Rightarrow> file_op" where
  "abs_op x = (case x of Write_file n c \<Rightarrow> Write_file (cstring n) (cstring c) | Remove_file n \<Rightarrow> Remove_file (cstring n))"

locale text_store =
  fixes put :: "bytes \<Rightarrow> bytes \<Rightarrow> 's \<Rightarrow> bool \<times> 's"
    and del :: "bytes \<Rightarrow> 's \<Rightarrow> bool \<times> 's"
    and get :: "bytes \<Rightarrow> 's \<Rightarrow> bytes option"
    and dir :: "'s \<Rightarrow> directory"
    and ok :: "'s \<Rightarrow> bool"
  assumes write_law: "ok s \<Longrightarrow> put n c s = (b, s') \<Longrightarrow>
      ok s' \<and> (b, dir s') = store_step (Write_file (cstring n) (cstring c)) (dir s)"
    and remove_law: "ok s \<Longrightarrow> del n s = (b, s') \<Longrightarrow>
      ok s' \<and> (b, dir s') = store_step (Remove_file (cstring n)) (dir s)"
    and lookup_law: "ok s \<Longrightarrow> get n s = map_of (dir s) (cstring n)"
begin

lemma op_refines:
  "ok s \<Longrightarrow> do_op put del x s = (b, s') \<Longrightarrow> ok s' \<and> (b, dir s') = store_step (abs_op x) (dir s)"
  by (cases x) (auto simp: do_op_def abs_op_def dest: write_law remove_law simp del: store_step.simps)

lemma ops_refine:
  "ok s \<Longrightarrow> run_ops (do_op put del) xs s = (bs, s') \<Longrightarrow>
   ok s' \<and> (bs, dir s') = run_ops store_step (map abs_op xs) (dir s)"
proof (induction xs arbitrary: s bs s')
  case (Cons x xs)
  obtain b s1 where 1: "do_op put del x s = (b, s1)" by fastforce
  obtain bs1 s2 where 2: "run_ops (do_op put del) xs s1 = (bs1, s2)" by fastforce
  have st: "ok s1" "store_step (abs_op x) (dir s) = (b, dir s1)" using op_refines [OF Cons.prems(1) 1] by auto
  have "ok s2" "run_ops store_step (map abs_op xs) (dir s1) = (bs1, dir s2)"
    using Cons.IH [OF st(1) 2] by auto
  then show ?case using Cons.prems(2) 1 2 st by (simp del: store_step.simps)
qed simp

lemma read_back:
  assumes "ok s" "put n c s = (True, s')"
  shows "get m s' = (if cstring m = cstring n then Some (cstring c) else get m s)"
proof -
  have "ok s'" "dir s' = AList.update (cstring n) (cstring c) (dir s)"
    using write_law [OF assms] by (auto split: if_splits)
  then show ?thesis using assms(1) by (simp add: lookup_law update_conv)
qed

lemma read_removed:
  assumes "ok s" "del n s = (True, s')"
  shows "get m s' = (if cstring m = cstring n then None else get m s)"
proof -
  have "ok s'" "dir s' = AList.delete (cstring n) (dir s)"
    using remove_law [OF assms] by (auto split: if_splits)
  then show ?thesis using assms(1) by (simp add: lookup_law delete_conv)
qed

lemma write_remove:
  assumes "ok s" "put n c s = (True, s')" "cstring n \<notin> fst ` set (dir s)"
  shows "\<exists>s''. del n s' = (True, s'') \<and> ok s'' \<and> dir s'' = dir s"
proof -
  have w: "ok s'" "dir s' = dir s @ [(cstring n, cstring c)]"
    using write_law [OF assms(1,2)] update_new [OF assms(3)] by (auto split: if_splits)
  obtain b s'' where r: "del n s' = (b, s'')" by fastforce
  have "AList.delete (cstring n) (dir s @ [(cstring n, cstring c)]) = dir s"
    using delete_id [OF assms(3)] by (simp add: AList.delete_eq)
  then show ?thesis using remove_law [OF w(1) r] w(2) r by simp
qed

end

definition ramfs_write :: "bytes \<Rightarrow> bytes \<Rightarrow> ramfs \<Rightarrow> bool \<times> ramfs" where
  "ramfs_write n c r = ramfs_write_file (Some n) (Some c) r"

definition ramfs_remove :: "bytes \<Rightarrow> ramfs \<Rightarrow> bool \<times> ramfs" where
  "ramfs_remove n r = ramfs_remove_file (Some n) r"

definition ramfs_lookup :: "bytes \<Rightarrow> ramfs \<Rightarrow> bytes option" where
  "ramfs_lookup n r = map_option cstring (ramfs_file_contents (Some n) r)"

interpretation ramfs_store: text_store ramfs_write ramfs_remove ramfs_lookup directory ramfs_wf
proof
  fix s n c b s'
  assume "ramfs_wf s" "ramfs_write n c s = (b, s')"
  then show "ramfs_wf s' \<and> (b, directory s') = store_step (Write_file (cstring n) (cstring c)) (directory s)"
    using write_effect [of s n c b s'] by (auto simp: ramfs_write_def)
next
  fix s n b s'
  assume "ramfs_wf s" "ramfs_remove n s = (b, s')"
  then show "ramfs_wf s' \<and> (b, directory s') = store_step (Remove_file (cstring n)) (directory s)"
    using remove_effect [of s n b s'] by (auto simp: ramfs_remove_def)
next
  fix s n
  assume "ramfs_wf s"
  then show "ramfs_lookup n s = map_of (directory s) (cstring n)"
    by (simp add: ramfs_lookup_def contents_effect)
qed

section \<open>Journal entries\<close>

text \<open>What a journal record does to the directory; a record the text store cannot hold has none.\<close>

definition entry_step :: "u32 \<Rightarrow> bytes \<Rightarrow> bytes \<Rightarrow> directory \<Rightarrow> directory option" where
  "entry_step oper n c d =
     (if oper = JOURNAL_OPERATION_REMOVE then Some (AList.delete n d)
      else if text_ok c \<and> 0 \<notin> set c \<and> (n \<in> fst ` set d \<or> length d < RAMFS_MAX_FILES)
      then Some (AList.update n c d) else None)"

lemma cstring_padded: "list_all (\<lambda>c. c \<noteq> 0) n \<Longrightarrow> length n < k \<Longrightarrow> cstring (padded k n) = n"
  using cstring_terminated [of n "replicate (k - length n - 1) 0"]
  by (cases "k - length n") (simp_all add: padded_def)

lemma record_ok_name: "record_ok oper seq nb cb \<Longrightarrow> name_ok nb"
  by (simp add: record_ok_def name_ok_def)

lemma entry_guard:
  assumes "record_ok oper seq nb cb"
  shows "name_length (entry_of oper seq nb cb) \<noteq> 0" "unat (name_length (entry_of oper seq nb cb)) = length nb"
    "unat (content_length (entry_of oper seq nb cb)) = length cb"
    "entry_name (entry_of oper seq nb cb) ! length nb = 0"
    "cstring (entry_name (entry_of oper seq nb cb)) = nb"
    "take (length cb) (entry_content (entry_of oper seq nb cb)) = cb"
proof -
  have n: "0 < length nb" "length nb < 32" "length cb \<le> 256" using assms by (auto simp: record_ok_def)
  have small: "m < 2 ^ 32 \<Longrightarrow> unat (of_nat m :: u32) = m" for m by (simp add: unsigned_of_nat take_bit_eq_mod)
  show u: "unat (name_length (entry_of oper seq nb cb)) = length nb"
    "unat (content_length (entry_of oper seq nb cb)) = length cb"
    using n by (auto simp: entry_of_def intro!: small)
  show "name_length (entry_of oper seq nb cb) \<noteq> 0" using u n by (metis unat_0 less_numeral_extra(3))
  show "entry_name (entry_of oper seq nb cb) ! length nb = 0"
    using n by (simp add: entry_of_def padded_def nth_append)
  show "cstring (entry_name (entry_of oper seq nb cb)) = nb"
    using n name_ok_nonzero [OF record_ok_name [OF assms]] by (simp add: entry_of_def cstring_padded)
  show "take (length cb) (entry_content (entry_of oper seq nb cb)) = cb"
    by (simp add: entry_of_def padded_def)
qed

lemma apply_effect:
  assumes r: "ramfs_wf r" and e: "record_ok oper seq nb cb"
    and a: "ramfs_apply_journal_entry (entry_of oper seq nb cb) r = (b, r')"
  shows "ramfs_wf r' \<and>
    (case entry_step oper nb cb (directory r) of
       None \<Rightarrow> \<not> b \<and> directory r' = directory r | Some d \<Rightarrow> b \<and> directory r' = d)"
proof -
  let ?e = "entry_of oper seq nb cb"
  note g = entry_guard [OF e]
  have nm: "name_ok nb" by (rule record_ok_name [OF e])
  have op: "operation ?e = oper" by (simp add: entry_of_def)
  have nlen: "length nb < 32" using e by (simp add: record_ok_def)
  show ?thesis
  proof (cases "oper = JOURNAL_OPERATION_REMOVE")
    case True
    then have "cb = []" using e by (auto simp: record_ok_def)
    then have c0: "content_length ?e = 0" using g(3) by (simp add: unat_eq_0)
    have app: "ramfs_apply_journal_entry ?e r =
        (if ramfs_file_contents (Some (entry_name ?e)) r = None then (True, r)
         else ramfs_remove_file (Some (entry_name ?e)) r)"
      using g nm nlen op True c0 by (simp add: ramfs_apply_journal_entry_def)
    have look: "ramfs_file_contents (Some (entry_name ?e)) r = None \<longleftrightarrow> nb \<notin> fst ` set (directory r)"
      using contents_effect [OF r, of "entry_name ?e"] g(5) by (metis map_of_eq_None_iff option.map_disc_iff)
    show ?thesis
    proof (cases "nb \<in> fst ` set (directory r)")
      case False
      then show ?thesis using app look a r True by (simp add: entry_step_def delete_id)
    next
      case mem: True
      then have "ramfs_remove_file (Some (entry_name ?e)) r = (b, r')" using app look a by simp
      from remove_effect [OF r this] show ?thesis using mem g(5) True by (simp add: entry_step_def)
    qed
  next
    case False
    then have oper: "oper = JOURNAL_OPERATION_WRITE" using e by (auto simp: record_ok_def)
    show ?thesis
    proof (cases "text_ok cb \<and> 0 \<notin> set cb")
      case bad: False
      then have "(b, r') = (False, r)"
        using a g nm nlen op oper
        by (auto simp: ramfs_apply_journal_entry_def text_ok_def list_ex_iff split: if_splits)
      then show ?thesis using bad False r by (auto simp: entry_step_def)
    next
      case good: True
      then have "ramfs_write_file (Some (entry_name ?e)) (Some (cb @ [0])) r = (b, r')"
        using a g nm nlen op oper by (auto simp: ramfs_apply_journal_entry_def text_ok_def list_ex_iff)
      moreover have "cstring (cb @ [0]) = cb"
        using good cstring_terminated [of cb "[]"] by (auto simp: list_all_iff)
      ultimately show ?thesis
        using write_effect [OF r, of "entry_name ?e" "cb @ [0]" b r'] g(5) nm good False
        by (auto simp: entry_step_def)
    qed
  qed
qed

section \<open>Properties\<close>

definition initial_directory :: directory where
  "initial_directory =
     [(ascii ''README'', ascii ''EfesOS RAM filesystem\<newline>''),
      (ascii ''MOTD'', ascii ''Build, learn, and drink responsibly.\<newline>''),
      (ascii ''EFES'', ascii ''EfesOS RAM filesystem entry.\<newline>'')]"

definition ramfs_buffers :: "ramfs \<Rightarrow> bool" where
  "ramfs_buffers r \<longleftrightarrow> length (files r) = RAMFS_MAX_FILES \<and> list_all slot_wf (files r)"

lemma initial_texts:
  "name_ok (cstring (ascii ''README''))" "name_ok (cstring (ascii ''MOTD''))" "name_ok (cstring (ascii ''EFES''))"
  "text_ok (cstring (ascii ''EfesOS RAM filesystem\<newline>''))"
  "text_ok (cstring (ascii ''Build, learn, and drink responsibly.\<newline>''))"
  "text_ok (cstring (ascii ''EfesOS RAM filesystem entry.\<newline>''))"
  by code_simp+

lemma initial_cstrings:
  "cstring (ascii ''README'') = ascii ''README''" "cstring (ascii ''MOTD'') = ascii ''MOTD''"
  "cstring (ascii ''EFES'') = ascii ''EFES''"
  "cstring (ascii ''EfesOS RAM filesystem\<newline>'') = ascii ''EfesOS RAM filesystem\<newline>''"
  "cstring (ascii ''Build, learn, and drink responsibly.\<newline>'') = ascii ''Build, learn, and drink responsibly.\<newline>''"
  "cstring (ascii ''EfesOS RAM filesystem entry.\<newline>'') = ascii ''EfesOS RAM filesystem entry.\<newline>''"
  "ascii ''MOTD'' \<noteq> ascii ''README''" "ascii ''EFES'' \<noteq> ascii ''README''" "ascii ''EFES'' \<noteq> ascii ''MOTD''"
  "ascii ''README'' \<noteq> ascii ''MOTD''" "ascii ''README'' \<noteq> ascii ''EFES''" "ascii ''MOTD'' \<noteq> ascii ''EFES''"
  by code_simp+

lemma init_effect:
  assumes "ramfs_buffers r"
  shows "ramfs_wf (ramfs_init r) \<and> directory (ramfs_init r) = initial_directory"
proof -
  let ?r0 = "r\<lparr>file_count := 0\<rparr>"
  let ?r1 = "add_file (ascii ''README'') (ascii ''EfesOS RAM filesystem\<newline>'') ?r0"
  let ?r2 = "add_file (ascii ''MOTD'') (ascii ''Build, learn, and drink responsibly.\<newline>'') ?r1"
  have 0: "ramfs_wf ?r0" "directory ?r0 = []"
    using assms by (auto simp: ramfs_wf_def ramfs_buffers_def directory_def)
  have 1: "ramfs_wf ?r1" "directory ?r1 = [(ascii ''README'', ascii ''EfesOS RAM filesystem\<newline>'')]"
    using add_file_effect [OF 0(1) initial_texts(1,4)] 0 by (simp_all add: initial_cstrings)
  have 2: "ramfs_wf ?r2" "directory ?r2 = [(ascii ''README'', ascii ''EfesOS RAM filesystem\<newline>''),
      (ascii ''MOTD'', ascii ''Build, learn, and drink responsibly.\<newline>'')]"
    using add_file_effect [OF 1(1) initial_texts(2,5)] 1 length_directory [OF 1(1)]
    by (simp_all add: initial_cstrings)
  show ?thesis
    using add_file_effect [OF 2(1) initial_texts(3,6)] 2 length_directory [OF 2(1)]
    by (simp add: ramfs_init_def initial_cstrings initial_directory_def)
qed

text \<open>C21: After ramfs_init, every sequence of writes and removals returns exactly the results of
  the abstract directory started with the three initial files, and the slots then hold exactly
  that directory, in its order.\<close>
theorem ramfs_refines_directory:
  assumes "ramfs_buffers r"
    and "run_ops (do_op ramfs_write ramfs_remove) xs (ramfs_init r) = (bs, s)"
  shows "ramfs_wf s \<and> (bs, directory s) = run_ops store_step (map abs_op xs) initial_directory"
  using ramfs_store.ops_refine [OF _ assms(2)] init_effect [OF assms(1)] by simp

definition blank_ramfs :: ramfs where
  "blank_ramfs = \<lparr>files = replicate RAMFS_MAX_FILES
     \<lparr>file_name = replicate RAMFS_NAME_MAX 0, file_contents = replicate RAMFS_CONTENT_MAX 0\<rparr>, file_count = 0\<rparr>"

lemma blank_ramfs_buffers: "ramfs_buffers blank_ramfs"
  by (simp add: ramfs_buffers_def blank_ramfs_def slot_wf_def list_all_iff)

theorem ramfs_refines_directory_witness:
  "ramfs_buffers blank_ramfs \<and>
   fst (run_ops (do_op ramfs_write ramfs_remove)
      [Remove_file (ascii ''EFES''), Write_file (ascii ''a/b'') [], Write_file (ascii ''A'') (ascii ''x'')]
      (ramfs_init blank_ramfs)) = [True, False, True]"
proof -
  let ?xs = "[Remove_file (ascii ''EFES''), Write_file (ascii ''a/b'') [], Write_file (ascii ''A'') (ascii ''x'')]"
  have "fst (run_ops store_step (map abs_op ?xs) initial_directory) = [True, False, True]" by code_simp
  then show ?thesis
    using ramfs_refines_directory [OF blank_ramfs_buffers prod.collapse [symmetric], of ?xs] blank_ramfs_buffers
    by (metis fst_conv)
qed

text \<open>C27: A file written is read back under its name, and every other name reads as before.\<close>
theorem ramfs_read_back:
  assumes "ramfs_wf r" and "ramfs_write_file (Some n) (Some c) r = (True, r')"
  shows "map_option cstring (ramfs_file_contents (Some m) r') =
    (if cstring m = cstring n then Some (cstring c)
     else map_option cstring (ramfs_file_contents (Some m) r))"
  using ramfs_store.read_back [of r n c r' m] assms by (simp add: ramfs_lookup_def ramfs_write_def)

lemma ramfs_wf_blank: "ramfs_wf (ramfs_init blank_ramfs)"
  using init_effect [OF blank_ramfs_buffers] by blast

lemma write_accepted:
  assumes "ramfs_wf r" "name_ok (cstring n)" "text_ok (cstring c)" "length (directory r) < RAMFS_MAX_FILES"
  shows "\<exists>r'. ramfs_write_file (Some n) (Some c) r = (True, r')"
proof -
  obtain b r' where w: "ramfs_write_file (Some n) (Some c) r = (b, r')" by fastforce
  then show ?thesis using write_effect [OF assms(1) w] assms by simp
qed

theorem ramfs_read_back_witness:
  "\<exists>r'. ramfs_write_file (Some [65]) (Some [66]) (ramfs_init blank_ramfs) = (True, r') \<and>
     map_option cstring (ramfs_file_contents (Some [65]) r') = Some [66]"
proof -
  have "length (directory (ramfs_init blank_ramfs)) < RAMFS_MAX_FILES"
    using init_effect [OF blank_ramfs_buffers] by (simp add: initial_directory_def)
  then obtain r' where w: "ramfs_write_file (Some [65]) (Some [66]) (ramfs_init blank_ramfs) = (True, r')"
    using write_accepted [OF ramfs_wf_blank, of "[65]" "[66]"]
    by (auto simp: name_ok_def text_ok_def name_byte_ok_def)
  then show ?thesis using ramfs_read_back [OF ramfs_wf_blank w, of "[65]"] by simp
qed

text \<open>C26: Applying a valid journal record: a removal always succeeds and deletes the name if it is
  there, a write succeeds and sets the contents exactly when the contents fit a text file (shorter
  than 256 bytes, no zero byte) and there is a slot; in every other case nothing changes.\<close>
theorem ramfs_apply_exact:
  assumes "ramfs_wf r" and "record_ok oper seq nb cb"
    and "ramfs_apply_journal_entry (entry_of oper seq nb cb) r = (b, r')"
  shows "ramfs_wf r' \<and>
    (case entry_step oper nb cb (directory r) of
       None \<Rightarrow> \<not> b \<and> directory r' = directory r | Some d \<Rightarrow> b \<and> directory r' = d)"
  using assms by (rule apply_effect)

theorem ramfs_apply_exact_witness:
  "\<not> fst (ramfs_apply_journal_entry (entry_of 1 7 [65] [66, 0, 67]) (ramfs_init blank_ramfs))"
proof -
  have ok: "record_ok 1 7 [65] [66, 0, 67]" by (simp add: record_ok_def name_byte_ok_def)
  show ?thesis
    using ramfs_apply_exact [OF ramfs_wf_blank ok prod.collapse [symmetric]] by (simp add: entry_step_def)
qed

text \<open>ramfs_self_test succeeds on every file system with a free slot and no file named TEST,
  and leaves the directory as it found it.\<close>
theorem ramfs_self_test_passes:
  assumes "ramfs_wf r" and "length (directory r) < RAMFS_MAX_FILES"
    and "ascii ''TEST'' \<notin> fst ` set (directory r)"
  shows "\<exists>r'. ramfs_self_test r = (True, r') \<and> ramfs_wf r' \<and> directory r' = directory r"
proof -
  have t: "name_ok (cstring (ascii ''TEST''))" "text_ok (cstring (ascii ''safe write\<newline>''))"
    "cstring (ascii ''TEST'') = ascii ''TEST''" "\<not> name_ok (cstring (ascii ''bad/name''))"
    "\<not> name_ok (cstring (ascii ''TOO_LONG_NAME_THAT_EXCEEDS_THE_LIMIT''))"
    by code_simp+
  obtain r1 where w: "ramfs_write_file (Some (ascii ''TEST'')) (Some (ascii ''safe write\<newline>'')) r = (True, r1)"
    using write_accepted [OF assms(1) t(1,2) assms(2)] by blast
  have r1: "ramfs_wf r1" using write_effect [OF assms(1) w] by blast
  have c: "map_option cstring (ramfs_file_contents (Some (ascii ''TEST'')) r1) = Some (cstring (ascii ''safe write\<newline>''))"
    using ramfs_store.read_back [of r "ascii ''TEST''" "ascii ''safe write\<newline>''" r1 "ascii ''TEST''"] assms(1) w
    by (simp add: ramfs_lookup_def ramfs_write_def)
  obtain r2 where d: "ramfs_remove_file (Some (ascii ''TEST'')) r1 = (True, r2)" "ramfs_wf r2" "directory r2 = directory r"
    using ramfs_store.write_remove [of r "ascii ''TEST''" "ascii ''safe write\<newline>''" r1] assms w t(3)
    by (auto simp: ramfs_write_def ramfs_remove_def)
  have gone: "ramfs_file_contents (Some (ascii ''TEST'')) r2 = None"
    using contents_effect [OF d(2), of "ascii ''TEST''"] d(3) assms(3) t(3)
    by (metis map_of_eq_None_iff option.map_disc_iff)
  show ?thesis
    using w c d gone t
    by (auto simp: ramfs_self_test_def ramfs_write_file_def [of "Some (ascii ''bad/name'')"]
        ramfs_write_file_def [of "Some (ascii ''TOO_LONG_NAME_THAT_EXCEEDS_THE_LIMIT'')"]
        ramfs_can_write_file_def ramfs_file_contents_def [of "Some (ascii ''TOO_LONG_NAME_THAT_EXCEEDS_THE_LIMIT'')"])
qed

theorem ramfs_self_test_passes_witness:
  "fst (ramfs_self_test (ramfs_init blank_ramfs))"
proof -
  have "directory (ramfs_init blank_ramfs) = initial_directory" using init_effect [OF blank_ramfs_buffers] by blast
  moreover have "length initial_directory < RAMFS_MAX_FILES" "ascii ''TEST'' \<notin> fst ` set initial_directory"
    by code_simp+
  ultimately show ?thesis using ramfs_self_test_passes [OF ramfs_wf_blank] by auto
qed

end
