(* ===== verification/Persistent.thy ===== *)
theory Persistent
  imports JournalLog Ramfs
begin

text \<open>
  Persistent files, \<open>fs/persistent.c\<close>: every change of the RAM file system is first committed to
  a journal in the last sectors of the disk and replayed at the next start. The drivers it calls
  (the ATA driver, the file system's region check, the kernel heap) are collected in a record, the
  way \<open>tests/persistent_host_test.c\<close> replaces them at link time; the host test's disk is one
  instance. Messages on the serial line are left out; \<open>kernel_panic\<close> is an outcome.
\<close>

section \<open>State\<close>



record 'd persistent =
  persistent_enabled :: bool
  persistent_region_start :: u64
  persistent_next_sequence :: u32
  persistent_replay_records :: nat
  device :: 'd
  volatile_files :: ramfs




section \<open>Operations\<close>








definition persistent_ramfs_is_enabled :: "'d persistent \<Rightarrow> bool" where
  "persistent_ramfs_is_enabled p = persistent_enabled p"

definition persistent_ramfs_replay_count :: "'d persistent \<Rightarrow> nat" where
  "persistent_ramfs_replay_count p = persistent_replay_records p"




section \<open>The directory a log stands for\<close>

















section \<open>The contract of the drivers below\<close>


section \<open>The drivers of the host test\<close>














section \<open>A formatted disk\<close>












section \<open>Properties\<close>











end
