(* ===== verification/Effects.thy ===== *)
theory Effects
  imports Prelude "HOL-Library.State_Monad"
begin

text \<open>
  The drivers thread a state through many register accesses: they are written in the state monad.
  This theory adds the loops of the sources (a bounded poll and an indexed loop that may return
  early), and a small program logic: \<open>hoare\<close> for results and \<open>keeps\<close> for invariants, with one
  rule per construct.
\<close>

named_theorems keeps_rules

abbreviation return :: "'a \<Rightarrow> ('s, 'a) state" where "return \<equiv> State_Monad.return"

definition gets :: "('s \<Rightarrow> 'a) \<Rightarrow> ('s, 'a) state" where
  "gets f = State (\<lambda>s. (f s, s))"

definition modify :: "('s \<Rightarrow> 's) \<Rightarrow> ('s, unit) state" where
  "modify f = State (\<lambda>s. ((), f s))"

lemma run_gets [simp]: "run_state (gets f) s = (f s, s)"
  by (simp add: gets_def)

lemma run_modify [simp]: "run_state (modify f) s = ((), f s)"
  by (simp add: modify_def)

text \<open>At most \<open>n\<close> rounds of a body; a round that yields a value ends the loop with it.\<close>

primrec poll :: "nat \<Rightarrow> ('s, 'a option) state \<Rightarrow> ('s, 'a option) state" where
  "poll 0 body = return None"
| "poll (Suc n) body = do { r \<leftarrow> body; case r of Some v \<Rightarrow> return (Some v) | None \<Rightarrow> poll n body }"

text \<open>The loop over a list of indices, with the same early exit.\<close>

primrec for_each :: "'x list \<Rightarrow> ('x \<Rightarrow> ('s, 'a option) state) \<Rightarrow> ('s, 'a option) state" where
  "for_each [] body = return None"
| "for_each (x # xs) body =
     do { r \<leftarrow> body x; case r of Some v \<Rightarrow> return (Some v) | None \<Rightarrow> for_each xs body }"

text \<open>The loop over a list of indices that always runs to its end.\<close>

primrec each :: "'x list \<Rightarrow> ('x \<Rightarrow> ('s, unit) state) \<Rightarrow> ('s, unit) state" where
  "each [] body = return ()"
| "each (x # xs) body = do { body x; each xs body }"

text \<open>\<open>a && b\<close> and \<open>!a || ...\<close> evaluate the second operand only when needed.\<close>

definition and_then :: "('s, bool) state \<Rightarrow> ('s, bool) state \<Rightarrow> ('s, bool) state" where
  "and_then a b = do { x \<leftarrow> a; if x then b else return False }"

section \<open>Program logic\<close>

definition hoare :: "('s \<Rightarrow> bool) \<Rightarrow> ('s, 'a) state \<Rightarrow> ('a \<Rightarrow> 's \<Rightarrow> bool) \<Rightarrow> bool" where
  "hoare P m Q \<longleftrightarrow> (\<forall>s. P s \<longrightarrow> (case run_state m s of (a, s') \<Rightarrow> Q a s'))"

definition keeps :: "('s \<Rightarrow> bool) \<Rightarrow> ('s, 'a) state \<Rightarrow> bool" where
  "keeps I m \<longleftrightarrow> (\<forall>s. I s \<longrightarrow> I (snd (run_state m s)))"

lemma hoareI: "(\<And>s a s'. P s \<Longrightarrow> run_state m s = (a, s') \<Longrightarrow> Q a s') \<Longrightarrow> hoare P m Q"
  by (auto simp: hoare_def)

lemma hoareD: "hoare P m Q \<Longrightarrow> P s \<Longrightarrow> run_state m s = (a, s') \<Longrightarrow> Q a s'"
  by (auto simp: hoare_def)

lemma keeps_hoare: "keeps I m \<longleftrightarrow> hoare I m (\<lambda>_. I)"
  by (simp add: keeps_def hoare_def case_prod_beta)

lemma keepsD: "keeps I m \<Longrightarrow> I s \<Longrightarrow> run_state m s = (a, s') \<Longrightarrow> I s'"
  by (metis keeps_def snd_conv)

lemma hoare_bind: "hoare P m R \<Longrightarrow> (\<And>a. hoare (R a) (f a) Q) \<Longrightarrow> hoare P (State_Monad.bind m f) Q"
  by (simp add: hoare_def case_prod_beta)

lemma hoare_return: "(\<And>s. P s \<Longrightarrow> Q x s) \<Longrightarrow> hoare P (return x) Q"
  by (simp add: hoare_def)

lemma hoare_gets: "(\<And>s. P s \<Longrightarrow> Q (f s) s) \<Longrightarrow> hoare P (gets f) Q"
  by (simp add: hoare_def)

lemma hoare_modify: "(\<And>s. P s \<Longrightarrow> Q () (f s)) \<Longrightarrow> hoare P (modify f) Q"
  by (simp add: hoare_def)

lemma hoare_if:
  "(c \<Longrightarrow> hoare P m Q) \<Longrightarrow> (\<not> c \<Longrightarrow> hoare P n Q) \<Longrightarrow> hoare P (if c then m else n) Q"
  by simp

lemma hoare_weaken:
  "hoare P' m Q' \<Longrightarrow> (\<And>s. P s \<Longrightarrow> P' s) \<Longrightarrow> (\<And>a s. Q' a s \<Longrightarrow> Q a s) \<Longrightarrow> hoare P m Q"
  by (simp add: hoare_def case_prod_beta)

lemma hoare_pre: "(\<And>s. P s \<Longrightarrow> P' s) \<Longrightarrow> hoare P' m Q \<Longrightarrow> hoare P m Q"
  by (rule hoare_weaken)

lemma hoare_fact: "(A \<Longrightarrow> hoare P m Q) \<Longrightarrow> hoare (\<lambda>s. A \<and> P s) m Q"
  by (auto simp: hoare_def)

lemma hoare_if_pre: "(\<And>s. P s \<Longrightarrow> hoare P m Q) \<Longrightarrow> hoare P m Q"
  by (cases "\<exists>s. P s") (auto simp: hoare_def)

lemma hoare_value: "hoare P (m e) Q \<Longrightarrow> hoare (\<lambda>s. v = e \<and> P s) (m v) Q"
  by (rule hoare_fact) simp

lemma hoare_and_then:
  "hoare P a (\<lambda>r s. r \<and> R s) \<Longrightarrow> hoare R b Q \<Longrightarrow> hoare P (and_then a b) Q"
  unfolding and_then_def by (auto intro!: hoare_bind [of P a "\<lambda>r s. r \<and> R s"] hoare_fact)

lemma hoare_conj: "hoare P m Q \<Longrightarrow> hoare P m R \<Longrightarrow> hoare P m (\<lambda>a s. Q a s \<and> R a s)"
  by (simp add: hoare_def case_prod_beta)

lemma hoare_let: "(\<And>y. y = x \<Longrightarrow> hoare P (f y) Q) \<Longrightarrow> hoare P (let y = x in f y) Q"
  by simp

lemma keeps_return [keeps_rules]: "keeps I (return x)"
  by (simp add: keeps_def)

lemma keeps_gets [keeps_rules]: "keeps I (gets f)"
  by (simp add: keeps_def)

lemma keeps_modify [keeps_rules]: "(\<And>s. I s \<Longrightarrow> I (f s)) \<Longrightarrow> keeps I (modify f)"
  by (simp add: keeps_def)

lemma keeps_bind [keeps_rules]: "keeps I m \<Longrightarrow> (\<And>a. keeps I (f a)) \<Longrightarrow> keeps I (State_Monad.bind m f)"
  by (simp add: keeps_def case_prod_beta)

lemma keeps_if [keeps_rules]:
  "(c \<Longrightarrow> keeps I m) \<Longrightarrow> (\<not> c \<Longrightarrow> keeps I n) \<Longrightarrow> keeps I (if c then m else n)"
  by simp

lemma keeps_option [keeps_rules]:
  "(x = None \<Longrightarrow> keeps I m) \<Longrightarrow> (\<And>a. x = Some a \<Longrightarrow> keeps I (f a)) \<Longrightarrow>
   keeps I (case x of None \<Rightarrow> m | Some a \<Rightarrow> f a)"
  by (cases x) simp_all

lemma keeps_prod [keeps_rules]: "(\<And>a b. x = (a, b) \<Longrightarrow> keeps I (f a b)) \<Longrightarrow> keeps I (case x of (a, b) \<Rightarrow> f a b)"
  by (cases x) simp

lemma keeps_let [keeps_rules]: "(\<And>a. a = x \<Longrightarrow> keeps I (f a)) \<Longrightarrow> keeps I (let a = x in f a)"
  by simp

lemma keeps_and_then [keeps_rules]: "keeps I a \<Longrightarrow> keeps I b \<Longrightarrow> keeps I (and_then a b)"
  unfolding and_then_def by (intro keeps_rules)

lemma keeps_poll [keeps_rules]: "keeps I body \<Longrightarrow> keeps I (poll n body)"
  by (induction n) (auto intro!: keeps_rules)

lemma keeps_for_each [keeps_rules]:
  "(\<And>x. x \<in> set xs \<Longrightarrow> keeps I (body x)) \<Longrightarrow> keeps I (for_each xs body)"
  by (induction xs) (auto intro!: keeps_rules)

lemma keeps_each [keeps_rules]:
  "(\<And>x. x \<in> set xs \<Longrightarrow> keeps I (body x)) \<Longrightarrow> keeps I (each xs body)"
  by (induction xs) (auto intro!: keeps_rules)

text \<open>A bounded poll and a loop over a list end by construction; a body whose every round keeps
  \<open>P\<close> and establishes \<open>Q\<close> when it exits gives \<open>Q\<close> or all rounds.\<close>

lemma hoare_poll:
  assumes "hoare P body (\<lambda>r s. case r of None \<Rightarrow> P s | Some v \<Rightarrow> Q (Some v) s)"
    and "\<And>s. P s \<Longrightarrow> Q None s"
  shows "hoare P (poll n body) Q"
proof (induction n)
  case 0
  then show ?case using assms(2) by (simp add: hoare_return)
next
  case (Suc n)
  have "hoare (\<lambda>s. case r of None \<Rightarrow> P s | Some v \<Rightarrow> Q (Some v) s)
      (case r of Some v \<Rightarrow> return (Some v) | None \<Rightarrow> poll n body) Q" for r
    using Suc by (cases r) (auto intro: hoare_return)
  then show ?case using assms(1) by (auto intro: hoare_bind)
qed

lemma hoare_each_upt:
  assumes "\<And>i. a \<le> i \<Longrightarrow> i < b \<Longrightarrow> hoare (I i) (body i) (\<lambda>_. I (Suc i))" and "a \<le> b"
  shows "hoare (I a) (each [a ..< b] body) (\<lambda>_. I b)"
  using assms
proof (induction "b - a" arbitrary: a)
  case 0
  then show ?case by (simp add: hoare_return)
next
  case (Suc n)
  then have "[a ..< b] = a # [Suc a ..< b]" "Suc a \<le> b" "n = b - Suc a" by (auto simp: upt_conv_Cons)
  then show ?case using Suc by (auto intro!: hoare_bind [of "I a" "body a" "\<lambda>_. I (Suc a)"])
qed

section \<open>Programs with a fixed result\<close>

text \<open>From every state of \<open>I\<close> the program returns \<open>x\<close> and stays in \<open>I\<close>: a read-only computation over
  a device whose contents do not change.\<close>

named_theorems yields_rules

definition yields :: "('s \<Rightarrow> bool) \<Rightarrow> ('s, 'a) state \<Rightarrow> 'a \<Rightarrow> bool" where
  "yields I m x \<longleftrightarrow> (\<forall>s. I s \<longrightarrow> fst (run_state m s) = x \<and> I (snd (run_state m s)))"

lemma yieldsD: "yields I m x \<Longrightarrow> I s \<Longrightarrow> fst (run_state m s) = x"
  by (simp add: yields_def)

lemma yields_return [yields_rules]: "x = y \<Longrightarrow> yields I (return x) y"
  by (simp add: yields_def)

lemma yields_bind: "yields I m a \<Longrightarrow> yields I (f a) x \<Longrightarrow> yields I (State_Monad.bind m f) x"
  by (auto simp: yields_def case_prod_beta)

lemma yields_eq: "yields I m x \<Longrightarrow> x = y \<Longrightarrow> yields I m y"
  by simp

end
