(* ===== verification/PciMsi.thy ===== *)
theory PciMsi
  imports Effects
begin

text \<open>
  Message-signalled interrupts, \<open>drivers/pci_msi.c\<close>: finding the MSI capability in a copy of the
  configuration space, and programming and restoring its registers through the access functions
  of the caller.
\<close>

section \<open>Layout of the capability\<close>

abbreviation PCI_CONFIGURATION_BYTES :: nat where "PCI_CONFIGURATION_BYTES \<equiv> 256"
abbreviation PCI_CAPABILITY_MAXIMUM_NODES :: nat where "PCI_CAPABILITY_MAXIMUM_NODES \<equiv> 48"
abbreviation PCI_MSI_CONTROL_64_BIT :: u16 where "PCI_MSI_CONTROL_64_BIT \<equiv> 0x80"
abbreviation PCI_MSI_CONTROL_PER_VECTOR_MASKING :: u16 where "PCI_MSI_CONTROL_PER_VECTOR_MASKING \<equiv> 0x100"
abbreviation PCI_MSI_CONTROL_ENABLE :: u16 where "PCI_MSI_CONTROL_ENABLE \<equiv> 1"
abbreviation PCI_MSI_CONTROL_MME_MASK :: u16 where "PCI_MSI_CONTROL_MME_MASK \<equiv> 0x70"
abbreviation PCI_XAPIC_MESSAGE_BASE :: u32 where "PCI_XAPIC_MESSAGE_BASE \<equiv> 0xFEE00000"

record pci_msi_layout =
  capability_offset :: u8
  message_address_offset :: u8
  message_upper_address_offset :: u8
  message_data_offset :: u8
  mask_bits_offset :: u8
  pending_bits_offset :: u8
  multiple_message_capable :: u8
  is_64_bit :: u8
  per_vector_masking :: u8

record pci_msi_saved_state =
  saved_layout :: pci_msi_layout
  saved_control :: u16
  message_address :: u32
  message_upper_address :: u32
  message_data :: u16
  mask_bits :: u32
  saved_valid :: u8

datatype msi_parse = Msi_malformed | Msi_not_found | Msi_found pci_msi_layout

definition msi_read_u16 :: "bytes \<Rightarrow> nat \<Rightarrow> u16" where
  "msi_read_u16 b offset = ucast (b ! offset) OR push_bit 8 (ucast (b ! (offset + 1)))"

definition clear_layout :: pci_msi_layout where
  "clear_layout = \<lparr>capability_offset = 0, message_address_offset = 0, message_upper_address_offset = 0,
     message_data_offset = 0, mask_bits_offset = 0, pending_bits_offset = 0,
     multiple_message_capable = 0, is_64_bit = 0, per_vector_masking = 0\<rparr>"

definition valid_capability_pointer :: "nat \<Rightarrow> bool" where
  "valid_capability_pointer offset \<longleftrightarrow> offset \<ge> 0x40 \<and> offset \<le> 0xFC \<and> offset mod 4 = 0"

definition valid_layout :: "pci_msi_layout \<Rightarrow> bool" where
  "valid_layout l =
     (if \<not> valid_capability_pointer (unat (capability_offset l)) \<or> multiple_message_capable l > 7 \<or>
         is_64_bit l > 1 \<or> per_vector_masking l > 1 \<or>
         message_address_offset l \<noteq> capability_offset l + 4 then False
      else let expected_data = unat (capability_offset l) + (if is_64_bit l \<noteq> 0 then 12 else 8) in
        if expected_data + 1 \<ge> PCI_CONFIGURATION_BYTES \<or> unat (message_data_offset l) \<noteq> expected_data \<or>
           message_upper_address_offset l \<noteq> (if is_64_bit l \<noteq> 0 then capability_offset l + 8 else 0)
        then False
        else let expected_mask = expected_data + 4 in
          if per_vector_masking l = 0 then mask_bits_offset l = 0 \<and> pending_bits_offset l = 0
          else expected_mask + 7 < PCI_CONFIGURATION_BYTES \<and> unat (mask_bits_offset l) = expected_mask \<and>
               unat (pending_bits_offset l) = expected_mask + 4)"

definition clear_saved_state :: pci_msi_saved_state where
  "clear_saved_state = \<lparr>saved_layout = clear_layout, saved_control = 0, message_address = 0,
     message_upper_address = 0, message_data = 0, mask_bits = 0, saved_valid = 0\<rparr>"

definition parse_msi_capability :: "bytes \<Rightarrow> nat \<Rightarrow> msi_parse" where
  "parse_msi_capability configuration offset =
     (let control = msi_read_u16 configuration (offset + 2);
          capable = drop_bit 1 control AND 7;
          enabled = drop_bit 4 control AND 7;
          wide = control AND PCI_MSI_CONTROL_64_BIT \<noteq> 0;
          per_vector = control AND PCI_MSI_CONTROL_PER_VECTOR_MASKING \<noteq> 0;
          data_offset = offset + (if wide then 12 else 8);
          mask_offset = data_offset + 4;
          pending_offset = mask_offset + 4;
          last_offset = (if per_vector then pending_offset + 3 else data_offset + 1)
      in if enabled > capable \<or> last_offset \<ge> PCI_CONFIGURATION_BYTES then Msi_malformed
         else Msi_found
           \<lparr>capability_offset = of_nat offset, message_address_offset = of_nat (offset + 4),
            message_upper_address_offset = (if wide then of_nat (offset + 8) else 0),
            message_data_offset = of_nat data_offset,
            mask_bits_offset = (if per_vector then of_nat mask_offset else 0),
            pending_bits_offset = (if per_vector then of_nat pending_offset else 0),
            multiple_message_capable = ucast capable,
            is_64_bit = of_bool wide, per_vector_masking = of_bool per_vector\<rparr>)"

text \<open>The walk over the capability list; the first argument is the number of nodes still
  allowed, the two words mark the slots visited.\<close>

fun walk_capabilities :: "nat \<Rightarrow> bytes \<Rightarrow> nat \<Rightarrow> u32 \<Rightarrow> u32 \<Rightarrow> msi_parse" where
  "walk_capabilities 0 configuration offset visited_low visited_high = Msi_malformed"
| "walk_capabilities (Suc n) configuration offset visited_low visited_high =
     (if \<not> valid_capability_pointer offset then Msi_malformed
      else let slot = offset div 4;
               visited = (if slot < 32 then visited_low else visited_high);
               b = push_bit (slot mod 32) 1
           in if visited AND b \<noteq> 0 then Msi_malformed
           else let low = (if slot < 32 then visited_low OR b else visited_low);
                    high = (if slot < 32 then visited_high else visited_high OR b)
             in if configuration ! offset = 5 then parse_msi_capability configuration offset
             else let next = unat (configuration ! (offset + 1))
               in if next = 0 then Msi_not_found
                  else walk_capabilities n configuration next low high)"

definition pci_msi_parse_layout :: "bytes option \<Rightarrow> nat \<Rightarrow> msi_parse" where
  "pci_msi_parse_layout configuration configuration_length =
     (case configuration of None \<Rightarrow> Msi_malformed
      | Some c \<Rightarrow>
          if configuration_length < PCI_CONFIGURATION_BYTES then Msi_malformed
          else if msi_read_u16 c 6 AND 0x10 = 0 then Msi_not_found
          else let offset = unat (c ! 0x34) in
            if offset = 0 then Msi_not_found
            else walk_capabilities PCI_CAPABILITY_MAXIMUM_NODES c offset 0 0)"

definition pci_msi_xapic_address :: "u32 \<Rightarrow> u32 option" where
  "pci_msi_xapic_address apic_id =
     (if apic_id > 0xFF then None else Some (PCI_XAPIC_MESSAGE_BASE OR push_bit 12 apic_id))"

definition pci_msi_fixed_data :: "u32 \<Rightarrow> u16 option" where
  "pci_msi_fixed_data vector =
     (if vector < 0x20 \<or> vector > 0xFE then None else Some (ucast vector))"

section \<open>Programming the registers\<close>

record 'c msi_io =
  read_word :: "u8 \<Rightarrow> ('c, u16) state"
  read_dword :: "u8 \<Rightarrow> ('c, u32) state"
  write_word :: "u8 \<Rightarrow> u16 \<Rightarrow> ('c, unit) state"
  write_dword :: "u8 \<Rightarrow> u32 \<Rightarrow> ('c, unit) state"

definition word_is :: "'c msi_io \<Rightarrow> u8 \<Rightarrow> u16 \<Rightarrow> ('c, bool) state" where
  "word_is io offset expected = do { v \<leftarrow> read_word io offset; return (v = expected) }"

definition dword_is :: "'c msi_io \<Rightarrow> u8 \<Rightarrow> u32 \<Rightarrow> ('c, bool) state" where
  "dword_is io offset expected = do { v \<leftarrow> read_dword io offset; return (v = expected) }"

text \<open>A register write followed by the comparison of its read-back.\<close>

definition put_word :: "'c msi_io \<Rightarrow> u8 \<Rightarrow> u16 \<Rightarrow> ('c, bool) state" where
  "put_word io offset v = do { write_word io offset v; word_is io offset v }"

definition put_dword :: "'c msi_io \<Rightarrow> u8 \<Rightarrow> u32 \<Rightarrow> ('c, bool) state" where
  "put_dword io offset v = do { write_dword io offset v; dword_is io offset v }"

definition msi_disabled :: "u16 \<Rightarrow> u16" where
  "msi_disabled control = control AND NOT (PCI_MSI_CONTROL_ENABLE OR PCI_MSI_CONTROL_MME_MASK)"

definition pci_msi_restore :: "'c msi_io \<Rightarrow> pci_msi_saved_state \<Rightarrow> ('c, bool \<times> pci_msi_saved_state) state" where
  "pci_msi_restore io st =
     (if saved_valid st = 0 \<or> \<not> valid_layout (saved_layout st) then return (False, st)
      else let l = saved_layout st; control_offset = capability_offset l + 2 in do {
        control \<leftarrow> read_word io control_offset;
        r1 \<leftarrow> put_word io control_offset (msi_disabled control);
        r2 \<leftarrow> (if per_vector_masking l \<noteq> 0 then do {
                 masked \<leftarrow> read_dword io (mask_bits_offset l);
                 put_dword io (mask_bits_offset l) (masked OR 1) }
               else return True);
        r3 \<leftarrow> put_dword io (message_address_offset l) (message_address st);
        r4 \<leftarrow> (if is_64_bit l \<noteq> 0
               then put_dword io (message_upper_address_offset l) (message_upper_address st) else return True);
        r5 \<leftarrow> put_word io (message_data_offset l) (message_data st);
        r6 \<leftarrow> (if per_vector_masking l \<noteq> 0 then put_dword io (mask_bits_offset l) (mask_bits st) else return True);
        if \<not> (r1 \<and> r2 \<and> r3 \<and> r4 \<and> r5 \<and> r6) then return (False, st)
        else do {
          r7 \<leftarrow> put_word io control_offset (saved_control st);
          return (if r7 then (True, clear_saved_state) else (False, st)) } })"

definition msi_save :: "pci_msi_layout \<Rightarrow> 'c msi_io \<Rightarrow> ('c, pci_msi_saved_state) state" where
  "msi_save l io = do {
     control \<leftarrow> read_word io (capability_offset l + 2);
     address \<leftarrow> read_dword io (message_address_offset l);
     upper \<leftarrow> (if is_64_bit l \<noteq> 0 then read_dword io (message_upper_address_offset l) else return 0);
     data \<leftarrow> read_word io (message_data_offset l);
     mask \<leftarrow> (if per_vector_masking l \<noteq> 0 then read_dword io (mask_bits_offset l) else return 0);
     return \<lparr>saved_layout = l, saved_control = control, message_address = address,
       message_upper_address = upper, message_data = data, mask_bits = mask, saved_valid = 1\<rparr> }"

definition msi_install :: "pci_msi_layout \<Rightarrow> 'c msi_io \<Rightarrow> u32 \<Rightarrow> u16 \<Rightarrow> pci_msi_saved_state \<Rightarrow> ('c, bool) state" where
  "msi_install l io address data st =
     (let control_offset = capability_offset l + 2;
          disabled = msi_disabled (saved_control st);
          programmed_mask = (if per_vector_masking l \<noteq> 0 then mask_bits st OR 1 else 0)
      in and_then (put_word io control_offset disabled)
        (and_then (if per_vector_masking l \<noteq> 0 then put_dword io (mask_bits_offset l) programmed_mask else return True)
        (and_then (put_dword io (message_address_offset l) address)
        (and_then (if is_64_bit l \<noteq> 0 then put_dword io (message_upper_address_offset l) 0 else return True)
        (and_then (put_word io (message_data_offset l) data)
        (and_then (put_word io control_offset (disabled OR PCI_MSI_CONTROL_ENABLE))
          (if per_vector_masking l \<noteq> 0 then put_dword io (mask_bits_offset l) (programmed_mask AND NOT 1)
           else return True)))))))"

definition pci_msi_program :: "pci_msi_layout \<Rightarrow> 'c msi_io \<Rightarrow> u32 \<Rightarrow> u16 \<Rightarrow> pci_msi_saved_state \<Rightarrow>
    ('c, bool \<times> pci_msi_saved_state) state" where
  "pci_msi_program l io address data st =
     (if \<not> valid_layout l \<or> saved_valid st \<noteq> 0 \<or> address AND 0xFFF00FFF \<noteq> PCI_XAPIC_MESSAGE_BASE \<or>
         data < 0x20 \<or> data > 0xFE then return (False, st)
      else do {
        saved \<leftarrow> msi_save l io;
        if ((saved_control saved AND PCI_MSI_CONTROL_64_BIT \<noteq> 0) \<noteq> (is_64_bit l \<noteq> 0)) \<or>
           ((saved_control saved AND PCI_MSI_CONTROL_PER_VECTOR_MASKING \<noteq> 0) \<noteq> (per_vector_masking l \<noteq> 0))
        then return (False, clear_saved_state)
        else do {
          programmed \<leftarrow> msi_install l io address data saved;
          if programmed then return (True, saved)
          else do { (r, st') \<leftarrow> pci_msi_restore io saved; return (False, st') } } })"

section \<open>The capability list\<close>

definition next_capability :: "bytes \<Rightarrow> nat \<Rightarrow> nat" where
  "next_capability c offset = unat (c ! (offset + 1))"

text \<open>The list, followed without any bound, reaches an MSI capability after \<open>k\<close> links: every
  node on the way is a valid pointer and none before it is an MSI capability.\<close>

fun msi_at :: "bytes \<Rightarrow> nat \<Rightarrow> nat \<Rightarrow> bool" where
  "msi_at c start 0 \<longleftrightarrow> valid_capability_pointer start \<and> c ! start = 5"
| "msi_at c start (Suc k) \<longleftrightarrow>
     valid_capability_pointer start \<and> c ! start \<noteq> 5 \<and> msi_at c (next_capability c start) k"

fun capability_path :: "bytes \<Rightarrow> nat \<Rightarrow> nat \<Rightarrow> nat list" where
  "capability_path c start 0 = [start]"
| "capability_path c start (Suc k) = start # capability_path c (next_capability c start) k"

definition slot_visited :: "u32 \<Rightarrow> u32 \<Rightarrow> nat \<Rightarrow> bool" where
  "slot_visited low high slot \<longleftrightarrow> (if slot < 32 then bit low slot else bit high (slot mod 32))"

lemma msi_at_valid: "msi_at c x k \<Longrightarrow> valid_capability_pointer x"
  by (cases k) auto

lemma msi_at_unique: "msi_at c x k \<Longrightarrow> msi_at c x j \<Longrightarrow> k = j"
proof (induction k arbitrary: x j)
  case 0
  then show ?case by (cases j) auto
next
  case (Suc k)
  then show ?case by (cases j) auto
qed

lemma path_reaches: "msi_at c x k \<Longrightarrow> y \<in> set (capability_path c x k) \<Longrightarrow> \<exists>j \<le> k. msi_at c y j"
proof (induction k arbitrary: x)
  case (Suc k)
  show ?case
  proof (cases "y = x")
    case False
    then show ?thesis using Suc by (metis capability_path.simps(2) le_SucI msi_at.simps(2) set_ConsD)
  qed (use Suc.prems(1) in blast)
qed simp

lemma path_distinct: "msi_at c x k \<Longrightarrow> distinct (capability_path c x k)"
proof (induction k arbitrary: x)
  case (Suc k)
  have "x \<notin> set (capability_path c (next_capability c x) k)"
  proof
    assume "x \<in> set (capability_path c (next_capability c x) k)"
    then obtain j where "j \<le> k" "msi_at c x j" using path_reaches [of c "next_capability c x" k x] Suc.prems by auto
    then show False using msi_at_unique [OF Suc.prems, of j] by simp
  qed
  then show ?case using Suc by simp
qed simp

lemma path_length [simp]: "length (capability_path c x k) = Suc k"
  by (induction k arbitrary: x) auto

lemma valid_pointers: "{x. valid_capability_pointer x} = (\<lambda>i. 4 * i) ` {16 .. 63}"
proof -
  have "x \<in> (\<lambda>i. 4 * i) ` {16 .. 63}" if "valid_capability_pointer x" for x
    using that by (intro image_eqI [of _ _ "x div 4"]) (auto simp: valid_capability_pointer_def)
  then show ?thesis by (auto simp: valid_capability_pointer_def)
qed

lemma path_short:
  assumes "msi_at c x k"
  shows "k < PCI_CAPABILITY_MAXIMUM_NODES"
proof -
  have "set (capability_path c x k) \<subseteq> {x. valid_capability_pointer x}"
    using path_reaches [OF assms] msi_at_valid by blast
  then have "card (set (capability_path c x k)) \<le> card {x. valid_capability_pointer x}"
    by (intro card_mono) (simp_all add: valid_pointers)
  also have "\<dots> = 48" unfolding valid_pointers by (subst card_image) (auto simp: inj_on_def)
  finally show ?thesis using distinct_card [OF path_distinct [OF assms]] by simp
qed

lemma visited_update:
  assumes "slot < 64" "s < 64"
  shows "slot_visited (if slot < 32 then low OR push_bit (slot mod 32) 1 else low)
      (if slot < 32 then high else high OR push_bit (slot mod 32) 1) s \<longleftrightarrow>
    s = slot \<or> slot_visited low high s"
proof -
  have "s mod 32 = slot mod 32 \<longleftrightarrow> s = slot" if "(s < 32) = (slot < 32)"
    using that assms by (auto simp: mod_if)
  moreover have "s mod 32 < 32" "slot mod 32 < 32" by auto
  ultimately show ?thesis
    using assms by (auto simp: slot_visited_def bit_set_mask)
qed

lemma walk_step:
  "walk_capabilities (Suc n) c x low high =
     (if \<not> valid_capability_pointer x \<or> slot_visited low high (x div 4) then Msi_malformed
      else if c ! x = 5 then parse_msi_capability c x
      else if next_capability c x = 0 then Msi_not_found
      else walk_capabilities n c (next_capability c x)
        (if x div 4 < 32 then low OR push_bit (x div 4 mod 32) 1 else low)
        (if x div 4 < 32 then high else high OR push_bit (x div 4 mod 32) 1))"
  by (simp add: Let_def next_capability_def slot_visited_def test_mask)

declare walk_capabilities.simps(2) [simp del]

lemma walk_finds:
  "msi_at c x k \<Longrightarrow> k < n \<Longrightarrow> \<forall>y \<in> set (capability_path c x k). \<not> slot_visited low high (y div 4) \<Longrightarrow>
   walk_capabilities n c x low high = parse_msi_capability c (last (capability_path c x k))"
proof (induction k arbitrary: n x low high)
  case 0
  then show ?case by (cases n) (auto simp: walk_step)
next
  case (Suc k)
  obtain m where n: "n = Suc m" "k < m" using Suc.prems(2) by (cases n) auto
  let ?y = "next_capability c x"
  let ?low = "if x div 4 < 32 then low OR push_bit (x div 4 mod 32) 1 else low"
  let ?high = "if x div 4 < 32 then high else high OR push_bit (x div 4 mod 32) 1"
  have at: "msi_at c ?y k" "valid_capability_pointer x" "c ! x \<noteq> 5" using Suc.prems(1) by auto
  have "?y \<noteq> 0" using msi_at_valid [OF at(1)] by (auto simp: valid_capability_pointer_def)
  moreover have "\<not> slot_visited low high (x div 4)" using Suc.prems(3) by simp
  moreover have "\<not> slot_visited ?low ?high (z div 4)" if z: "z \<in> set (capability_path c ?y k)" for z
  proof -
    have "valid_capability_pointer z" using path_reaches [OF at(1) z] msi_at_valid by blast
    moreover have "z \<noteq> x" using path_distinct [OF Suc.prems(1)] z by auto
    ultimately have "z div 4 \<noteq> x div 4" "z div 4 < 64" "x div 4 < 64"
      using at(2) mult_div_mod_eq [of 4 z] mult_div_mod_eq [of 4 x]
      unfolding valid_capability_pointer_def by linarith+
    then show ?thesis using visited_update [of "x div 4" "z div 4" low high] Suc.prems(3) z by simp
  qed
  ultimately have "walk_capabilities n c x low high = parse_msi_capability c (last (capability_path c ?y k))"
    using Suc.IH [OF at(1) n(2)] at n by (simp add: walk_step)
  moreover have "capability_path c ?y k \<noteq> []" by (metis path_length Zero_not_Suc list.size(3))
  ultimately show ?case by simp
qed

lemma walk_only_found:
  "walk_capabilities n c x low high = Msi_found l \<Longrightarrow>
   \<exists>k. msi_at c x k \<and> parse_msi_capability c (last (capability_path c x k)) = Msi_found l"
proof (induction n arbitrary: x low high)
  case (Suc n)
  show ?case
  proof (cases "c ! x = 5")
    case True
    then show ?thesis using Suc.prems by (intro exI [of _ 0]) (auto simp: walk_step split: if_splits)
  next
    case False
    then obtain low' high' where "walk_capabilities n c (next_capability c x) low' high' = Msi_found l"
      using Suc.prems by (auto simp: walk_step split: if_splits)
    then obtain k where "msi_at c (next_capability c x) k"
      "parse_msi_capability c (last (capability_path c (next_capability c x) k)) = Msi_found l"
      using Suc.IH by blast
    moreover have "valid_capability_pointer x" using Suc.prems by (auto simp: walk_step split: if_splits)
    moreover have "capability_path c (next_capability c x) k \<noteq> []" by (metis path_length Zero_not_Suc list.size(3))
    ultimately show ?thesis using False by (intro exI [of _ "Suc k"]) simp
  qed
qed simp

text \<open>A parsed layout lies inside the configuration space.\<close>

lemma u8_of_nat: "n < 256 \<Longrightarrow> unat (of_nat n :: u8) = n"
  by (simp add: unsigned_of_nat take_bit_eq_mod)

lemma and_7_le: "(w AND 7 :: u16) \<le> 7"
  by (rule word_and_le1)

lemma small_capable: "(ucast (w AND 7 :: u16) :: u8) \<le> 7"
proof -
  have "unat (w AND 7) \<le> 7" using and_7_le [of w] by (simp add: word_le_nat_alt)
  then have "unat (ucast (w AND 7) :: u8) \<le> 7" by (simp add: unsigned_ucast_eq take_bit_eq_mod)
  then show ?thesis by (simp add: word_le_nat_alt)
qed

lemma u8_plus: "x + n < 256 \<Longrightarrow> unat (of_nat x + of_nat n :: u8) = x + n"
  using u8_of_nat [of "x + n"] by simp

text \<open>The layout for a capability at \<open>x\<close>.\<close>

definition layout_at :: "nat \<Rightarrow> u8 \<Rightarrow> bool \<Rightarrow> bool \<Rightarrow> pci_msi_layout" where
  "layout_at x capable wide per_vector =
     (let d = x + (if wide then 12 else 8) in
      \<lparr>capability_offset = of_nat x, message_address_offset = of_nat (x + 4),
       message_upper_address_offset = (if wide then of_nat (x + 8) else 0),
       message_data_offset = of_nat d,
       mask_bits_offset = (if per_vector then of_nat (d + 4) else 0),
       pending_bits_offset = (if per_vector then of_nat (d + 8) else 0),
       multiple_message_capable = capable, is_64_bit = of_bool wide, per_vector_masking = of_bool per_vector\<rparr>)"

definition layout_end :: "nat \<Rightarrow> bool \<Rightarrow> bool \<Rightarrow> nat" where
  "layout_end x wide per_vector = x + (if wide then 12 else 8) + (if per_vector then 12 else 2)"

lemma layout_at_valid:
  assumes v: "valid_capability_pointer x" and c: "capable \<le> 7" and e: "layout_end x wide per_vector \<le> 256"
  shows "valid_layout (layout_at x capable wide per_vector)"
proof -
  have x: "unat (of_nat x :: u8) = x" using v by (intro u8_of_nat) (simp add: valid_capability_pointer_def)
  have n: "x + n < 256 \<Longrightarrow> unat (of_nat (x + n) :: u8) = x + n" for n by (rule u8_of_nat)
  have c': "\<not> 7 < capable" using c by simp
  have b: "of_bool wide \<noteq> (0::u8) \<longleftrightarrow> wide" "of_bool per_vector \<noteq> (0::u8) \<longleftrightarrow> per_vector"
    "\<not> of_bool wide > (1::u8)" "\<not> of_bool per_vector > (1::u8)" by auto
  show ?thesis
    using e unfolding valid_layout_def layout_at_def layout_end_def Let_def
    by (cases wide; cases per_vector) (use x v c' n [of 8] n [of 12] n [of 16] n [of 20] in \<open>simp_all add: add.commute\<close>)
qed

lemma parse_layout_at:
  assumes "parse_msi_capability c x = Msi_found l"
  shows "\<exists>capable wide per_vector. l = layout_at x capable wide per_vector \<and> capable \<le> 7 \<and>
    layout_end x wide per_vector \<le> 256 \<and>
    wide = (msi_read_u16 c (x + 2) AND PCI_MSI_CONTROL_64_BIT \<noteq> 0) \<and>
    per_vector = (msi_read_u16 c (x + 2) AND PCI_MSI_CONTROL_PER_VECTOR_MASKING \<noteq> 0)"
proof -
  let ?control = "msi_read_u16 c (x + 2)"
  let ?wide = "?control AND PCI_MSI_CONTROL_64_BIT \<noteq> 0"
  let ?per_vector = "?control AND PCI_MSI_CONTROL_PER_VECTOR_MASKING \<noteq> 0"
  have "l = layout_at x (ucast (drop_bit 1 ?control AND 7)) ?wide ?per_vector \<and>
      layout_end x ?wide ?per_vector \<le> 256"
    using assms unfolding parse_msi_capability_def layout_at_def layout_end_def Let_def
    by (cases ?wide; cases ?per_vector) (simp_all add: Suc_le_eq linorder_not_le split: if_splits)
  then show ?thesis using small_capable by blast
qed

lemma parsed_layout_valid:
  assumes v: "valid_capability_pointer x" and p: "parse_msi_capability c x = Msi_found l"
  shows "valid_layout l"
  using parse_layout_at [OF p] layout_at_valid [OF v] by blast

section \<open>Configuration space\<close>

text \<open>Little-endian words and double words of a byte-addressed register file.\<close>

definition get16 :: "(nat \<Rightarrow> u8) \<Rightarrow> nat \<Rightarrow> u16" where
  "get16 f x = ucast (f x) OR push_bit 8 (ucast (f (x + 1)))"

definition get32 :: "(nat \<Rightarrow> u8) \<Rightarrow> nat \<Rightarrow> u32" where
  "get32 f x = ucast (f x) OR push_bit 8 (ucast (f (x + 1))) OR
     push_bit 16 (ucast (f (x + 2))) OR push_bit 24 (ucast (f (x + 3)))"

definition set16 :: "(nat \<Rightarrow> u8) \<Rightarrow> nat \<Rightarrow> u16 \<Rightarrow> (nat \<Rightarrow> u8)" where
  "set16 f x v = f(x := ucast v, x + 1 := ucast (drop_bit 8 v))"

definition set32 :: "(nat \<Rightarrow> u8) \<Rightarrow> nat \<Rightarrow> u32 \<Rightarrow> (nat \<Rightarrow> u8)" where
  "set32 f x v = f(x := ucast v, x + 1 := ucast (drop_bit 8 v), x + 2 := ucast (drop_bit 16 v),
     x + 3 := ucast (drop_bit 24 v))"

lemma get16_set16 [simp]: "get16 (set16 f x v) x = v"
  by (rule bit_word_eqI) (auto simp: get16_def set16_def bit_simps)

lemma get32_set32 [simp]: "get32 (set32 f x v) x = v"
proof (rule bit_word_eqI)
  fix n assume "n < LENGTH(32)"
  then consider "n < 8" | "8 \<le> n \<and> n < 16" | "16 \<le> n \<and> n < 24" | "24 \<le> n \<and> n < 32" by fastforce
  then show "bit (get32 (set32 f x v) x) n \<longleftrightarrow> bit v n"
    by cases (auto simp: get32_def set32_def bit_simps)
qed

lemma bytes_get16: "ucast (get16 f x) = f x" "ucast (drop_bit 8 (get16 f x)) = f (x + 1)"
  by (rule bit_word_eqI; auto simp: get16_def bit_simps dest: bit_imp_le_length)+

lemma bytes_get32: "ucast (get32 f x) = f x" "ucast (drop_bit 8 (get32 f x)) = f (x + 1)"
  "ucast (drop_bit 16 (get32 f x)) = f (x + 2)" "ucast (drop_bit 24 (get32 f x)) = f (x + 3)"
  by (rule bit_word_eqI; auto simp: get32_def bit_simps dest: bit_imp_le_length)+

text \<open>
  What PCI promises about a function's configuration registers that are plain storage: a read
  returns the bytes and changes none, a write stores them. \<open>ok\<close> is the state of the access
  mechanism between two accesses.
\<close>

locale config_space =
  fixes io :: "'c msi_io" and cfg :: "'c \<Rightarrow> nat \<Rightarrow> u8" and ok :: "'c \<Rightarrow> bool"
  assumes read_word_law: "ok c \<Longrightarrow> even (unat x) \<Longrightarrow> run_state (read_word io x) c = (v, c') \<Longrightarrow>
      ok c' \<and> cfg c' = cfg c \<and> v = get16 (cfg c) (unat x)"
    and read_dword_law: "ok c \<Longrightarrow> unat x mod 4 = 0 \<Longrightarrow> run_state (read_dword io x) c = (w, c') \<Longrightarrow>
      ok c' \<and> cfg c' = cfg c \<and> w = get32 (cfg c) (unat x)"
    and write_word_law: "ok c \<Longrightarrow> even (unat x) \<Longrightarrow> run_state (write_word io x v) c = (u, c') \<Longrightarrow>
      ok c' \<and> cfg c' = set16 (cfg c) (unat x) v"
    and write_dword_law: "ok c \<Longrightarrow> unat x mod 4 = 0 \<Longrightarrow> run_state (write_dword io x w) c = (u, c') \<Longrightarrow>
      ok c' \<and> cfg c' = set32 (cfg c) (unat x) w"
begin

abbreviation holds :: "(nat \<Rightarrow> u8) \<Rightarrow> 'c \<Rightarrow> bool" where
  "holds f c \<equiv> ok c \<and> cfg c = f"

lemma read_word_h:
  assumes "even (unat x)"
  shows "hoare (holds f) (read_word io x) (\<lambda>v c. v = get16 f (unat x) \<and> holds f c)"
proof (rule hoareI)
  fix s a s' assume "holds f s" "run_state (read_word io x) s = (a, s')"
  then show "a = get16 f (unat x) \<and> holds f s'" using read_word_law [of s x a s'] assms by simp
qed

lemma read_dword_h:
  assumes "unat x mod 4 = 0"
  shows "hoare (holds f) (read_dword io x) (\<lambda>v c. v = get32 f (unat x) \<and> holds f c)"
proof (rule hoareI)
  fix s a s' assume "holds f s" "run_state (read_dword io x) s = (a, s')"
  then show "a = get32 f (unat x) \<and> holds f s'" using read_dword_law [of s x a s'] assms by simp
qed

lemma write_word_h:
  assumes "even (unat x)"
  shows "hoare (holds f) (write_word io x v) (\<lambda>_. holds (set16 f (unat x) v))"
proof (rule hoareI)
  fix s a s' assume "holds f s" "run_state (write_word io x v) s = (a, s')"
  then show "holds (set16 f (unat x) v) s'" using write_word_law [of s x v a s'] assms by simp
qed

lemma write_dword_h:
  assumes "unat x mod 4 = 0"
  shows "hoare (holds f) (write_dword io x v) (\<lambda>_. holds (set32 f (unat x) v))"
proof (rule hoareI)
  fix s a s' assume "holds f s" "run_state (write_dword io x v) s = (a, s')"
  then show "holds (set32 f (unat x) v) s'" using write_dword_law [of s x v a s'] assms by simp
qed

lemma put_word_h:
  assumes "even (unat x)"
  shows "hoare (holds f) (put_word io x v) (\<lambda>r c. r \<and> holds (set16 f (unat x) v) c)"
  unfolding put_word_def word_is_def
  by (intro hoare_bind [OF write_word_h [OF assms]] hoare_bind [OF read_word_h [OF assms]] hoare_return) simp

lemma put_dword_h:
  assumes "unat x mod 4 = 0"
  shows "hoare (holds f) (put_dword io x v) (\<lambda>r c. r \<and> holds (set32 f (unat x) v) c)"
  unfolding put_dword_def dword_is_def
  by (intro hoare_bind [OF write_dword_h [OF assms]] hoare_bind [OF read_dword_h [OF assms]] hoare_return) simp

lemma opt_h:
  "(b \<Longrightarrow> hoare (holds f) m (\<lambda>r c. r \<and> holds g c)) \<Longrightarrow>
   hoare (holds f) (if b then m else return True) (\<lambda>r c. r \<and> holds (if b then g else f) c)"
  by (auto intro: hoare_return)

end

text \<open>The registers of a capability at \<open>x\<close>, and what programming and restoring make of them.\<close>

definition msi_data_at :: "nat \<Rightarrow> bool \<Rightarrow> nat" where
  "msi_data_at x wide = x + (if wide then 12 else 8)"

definition msi_mask_at :: "nat \<Rightarrow> bool \<Rightarrow> nat" where
  "msi_mask_at x wide = x + (if wide then 16 else 12)"

definition msi_registers :: "nat \<Rightarrow> bool \<Rightarrow> bool \<Rightarrow> nat set" where
  "msi_registers x wide per_vector =
     {x + 2 ..< x + (if wide then 14 else 10)} \<union>
     (if per_vector then {msi_mask_at x wide ..< msi_mask_at x wide + 4} else {})"

definition msi_installed :: "nat \<Rightarrow> bool \<Rightarrow> bool \<Rightarrow> u32 \<Rightarrow> u16 \<Rightarrow> (nat \<Rightarrow> u8) \<Rightarrow> nat \<Rightarrow> u8" where
  "msi_installed x wide per_vector address data f =
     (let off = msi_disabled (get16 f (x + 2));
          m = get32 f (msi_mask_at x wide);
          f1 = set16 f (x + 2) off;
          f2 = (if per_vector then set32 f1 (msi_mask_at x wide) (m OR 1) else f1);
          f3 = set32 f2 (x + 4) address;
          f4 = (if wide then set32 f3 (x + 8) 0 else f3);
          f5 = set16 f4 (msi_data_at x wide) data;
          f6 = set16 f5 (x + 2) (off OR PCI_MSI_CONTROL_ENABLE)
      in if per_vector then set32 f6 (msi_mask_at x wide) ((m OR 1) AND NOT 1) else f6)"

definition msi_restored :: "nat \<Rightarrow> bool \<Rightarrow> bool \<Rightarrow> (nat \<Rightarrow> u8) \<Rightarrow> (nat \<Rightarrow> u8) \<Rightarrow> nat \<Rightarrow> u8" where
  "msi_restored x wide per_vector f g =
     (let g1 = set16 g (x + 2) (msi_disabled (get16 g (x + 2)));
          g2 = (if per_vector then set32 g1 (msi_mask_at x wide) (get32 g1 (msi_mask_at x wide) OR 1) else g1);
          g3 = set32 g2 (x + 4) (get32 f (x + 4));
          g4 = (if wide then set32 g3 (x + 8) (get32 f (x + 8)) else g3);
          g5 = set16 g4 (msi_data_at x wide) (get16 f (msi_data_at x wide));
          g6 = (if per_vector then set32 g5 (msi_mask_at x wide) (get32 f (msi_mask_at x wide)) else g5)
      in set16 g6 (x + 2) (get16 f (x + 2)))"

definition msi_saved :: "nat \<Rightarrow> u8 \<Rightarrow> bool \<Rightarrow> bool \<Rightarrow> (nat \<Rightarrow> u8) \<Rightarrow> pci_msi_saved_state" where
  "msi_saved x k wide per_vector f =
     \<lparr>saved_layout = layout_at x k wide per_vector, saved_control = get16 f (x + 2),
      message_address = get32 f (x + 4), message_upper_address = (if wide then get32 f (x + 8) else 0),
      message_data = get16 f (msi_data_at x wide),
      mask_bits = (if per_vector then get32 f (msi_mask_at x wide) else 0), saved_valid = 1\<rparr>"

lemma set_outside:
  "b < y \<or> y + 2 \<le> b \<Longrightarrow> set16 g y v b = g b" "b < y \<or> y + 4 \<le> b \<Longrightarrow> set32 g y w b = g b"
  by (auto simp: set16_def set32_def)

lemma get_other:
  "y + 2 \<le> z \<or> z + 2 \<le> y \<Longrightarrow> get16 (set16 f z v) y = get16 f y"
  "y + 2 \<le> z \<or> z + 4 \<le> y \<Longrightarrow> get16 (set32 f z w) y = get16 f y"
  "y + 4 \<le> z \<or> z + 2 \<le> y \<Longrightarrow> get32 (set16 f z v) y = get32 f y"
  "y + 4 \<le> z \<or> z + 4 \<le> y \<Longrightarrow> get32 (set32 f z w) y = get32 f y"
  by (auto simp: get16_def get32_def set_outside)

lemma set16_inside: "y \<le> b \<Longrightarrow> b < y + 2 \<Longrightarrow> set16 g y (get16 f y) b = f b"
proof -
  assume "y \<le> b" "b < y + 2"
  then have "b = y \<or> b = y + 1" by arith
  then show ?thesis by (elim disjE) (simp_all add: set16_def bytes_get16)
qed

lemma set32_inside: "y \<le> b \<Longrightarrow> b < y + 4 \<Longrightarrow> set32 g y (get32 f y) b = f b"
proof -
  assume "y \<le> b" "b < y + 4"
  then consider "b = y" | "b = y + 1" | "b = y + 2" | "b = y + 3" by fastforce
  then show ?thesis by cases (simp_all add: set32_def bytes_get32)
qed

lemma installed_outside: "b \<notin> msi_registers x wide per_vector \<Longrightarrow> msi_installed x wide per_vector a d f b = f b"
  by (cases wide; cases per_vector)
    (auto simp: msi_installed_def msi_registers_def msi_mask_at_def msi_data_at_def Let_def set_outside)

lemma restored_outside: "b \<notin> msi_registers x wide per_vector \<Longrightarrow> msi_restored x wide per_vector f g b = g b"
  by (cases wide; cases per_vector)
    (auto simp: msi_restored_def msi_registers_def msi_mask_at_def msi_data_at_def Let_def set_outside)

lemma restored_inside:
  assumes "b \<in> msi_registers x wide per_vector"
  shows "msi_restored x wide per_vector f g b = f b"
proof -
  have "(x + 2 \<le> b \<and> b < x + 4) \<or> (x + 4 \<le> b \<and> b < x + 8) \<or> (wide \<and> x + 8 \<le> b \<and> b < x + 12) \<or>
      (msi_data_at x wide \<le> b \<and> b < msi_data_at x wide + 2) \<or>
      (per_vector \<and> msi_mask_at x wide \<le> b \<and> b < msi_mask_at x wide + 4)"
    using assms by (cases wide; cases per_vector; simp add: msi_registers_def msi_data_at_def msi_mask_at_def; arith)
  then consider "x + 2 \<le> b" "b < x + 4" | "x + 4 \<le> b" "b < x + 8" | "wide" "x + 8 \<le> b" "b < x + 12"
    | "msi_data_at x wide \<le> b" "b < msi_data_at x wide + 2"
    | "per_vector" "msi_mask_at x wide \<le> b" "b < msi_mask_at x wide + 4"
    by blast
  then show ?thesis
    by cases (cases wide; simp add: msi_restored_def Let_def msi_data_at_def msi_mask_at_def
        set_outside set16_inside set32_inside)+
qed

lemma restored_original:
  assumes "\<And>b. b \<notin> msi_registers x wide per_vector \<Longrightarrow> g b = f b"
  shows "msi_restored x wide per_vector f g = f"
proof
  fix b
  show "msi_restored x wide per_vector f g b = f b"
    using assms [of b] restored_outside restored_inside by (metis (no_types))
qed

lemma layout_offsets:
  assumes v: "valid_capability_pointer x" and e: "layout_end x wide per_vector \<le> 256"
  shows "unat (capability_offset (layout_at x k wide per_vector) + 2) = x + 2"
    and "unat (message_address_offset (layout_at x k wide per_vector)) = x + 4"
    and "wide \<Longrightarrow> unat (message_upper_address_offset (layout_at x k wide per_vector)) = x + 8"
    and "unat (message_data_offset (layout_at x k wide per_vector)) = msi_data_at x wide"
    and "per_vector \<Longrightarrow> unat (mask_bits_offset (layout_at x k wide per_vector)) = msi_mask_at x wide"
    and "is_64_bit (layout_at x k wide per_vector) \<noteq> 0 \<longleftrightarrow> wide"
    and "per_vector_masking (layout_at x k wide per_vector) \<noteq> 0 \<longleftrightarrow> per_vector"
    and "even (x + 2)" and "(x + 4) mod 4 = 0" and "(x + 8) mod 4 = 0"
    and "even (msi_data_at x wide)" and "msi_mask_at x wide mod 4 = 0"
proof -
  have n: "x + n < 256 \<Longrightarrow> unat (of_nat (x + n) :: u8) = x + n" for n by (rule u8_of_nat)
  have x: "x mod 4 = 0" "x + 8 < 256" using v e by (auto simp: valid_capability_pointer_def layout_end_def split: if_splits)
  show "unat (capability_offset (layout_at x k wide per_vector) + 2) = x + 2"
    using n [of 2] x by (simp add: layout_at_def Let_def add.commute)
  show "unat (message_address_offset (layout_at x k wide per_vector)) = x + 4"
    using n [of 4] x by (simp add: layout_at_def Let_def add.commute)
  show "unat (message_data_offset (layout_at x k wide per_vector)) = msi_data_at x wide"
    using n [of 8] n [of 12] e by (auto simp: layout_at_def layout_end_def msi_data_at_def Let_def add.commute split: if_splits)
  show "wide \<Longrightarrow> unat (message_upper_address_offset (layout_at x k wide per_vector)) = x + 8"
    using n [of 8] x by (simp add: layout_at_def Let_def add.commute)
  show "per_vector \<Longrightarrow> unat (mask_bits_offset (layout_at x k wide per_vector)) = msi_mask_at x wide"
    using n [of 12] n [of 16] e
    by (auto simp: layout_at_def layout_end_def msi_mask_at_def Let_def add.commute split: if_splits)
  show "is_64_bit (layout_at x k wide per_vector) \<noteq> 0 \<longleftrightarrow> wide"
    "per_vector_masking (layout_at x k wide per_vector) \<noteq> 0 \<longleftrightarrow> per_vector"
    by (simp_all add: layout_at_def Let_def)
  show "even (x + 2)" "(x + 4) mod 4 = 0" "(x + 8) mod 4 = 0" "even (msi_data_at x wide)" "msi_mask_at x wide mod 4 = 0"
    using x(1) by (auto simp: msi_data_at_def msi_mask_at_def)
qed

context config_space
begin

lemma restore_h:
  assumes v: "valid_capability_pointer x" and e: "layout_end x wide per_vector \<le> 256" and k: "k \<le> 7"
    and g: "\<And>b. b \<notin> msi_registers x wide per_vector \<Longrightarrow> g b = f b"
  shows "hoare (holds g) (pci_msi_restore io (msi_saved x k wide per_vector f))
    (\<lambda>r c. r = (True, clear_saved_state) \<and> holds f c)"
proof -
  let ?l = "layout_at x k wide per_vector"
  note o = layout_offsets(1-7) [OF v e, of k] layout_offsets(8-) [OF v e]
  have l: "saved_valid (msi_saved x k wide per_vector f) \<noteq> 0"
    "saved_layout (msi_saved x k wide per_vector f) = ?l" "valid_layout ?l"
    using layout_at_valid [OF v k e] by (simp_all add: msi_saved_def)
  have "hoare (holds g) (pci_msi_restore io (msi_saved x k wide per_vector f))
      (\<lambda>r c. r = (True, clear_saved_state) \<and> holds (msi_restored x wide per_vector f g) c)"
    unfolding pci_msi_restore_def Let_def l(2)
    apply (rule hoare_if)
     apply (use l in simp)
    apply (rule hoare_bind, rule read_word_h, use o in simp)
    apply (rule hoare_value)
    apply (rule hoare_bind, rule put_word_h, use o in simp)
    apply (rule hoare_fact)
    apply (rule hoare_bind, rule opt_h)
    apply (rule hoare_bind, rule read_dword_h, use o in simp)
    apply (rule hoare_value)
    apply (rule put_dword_h, use o in simp)
    apply (rule hoare_fact)
    apply (rule hoare_bind, rule put_dword_h, use o in simp)
    apply (rule hoare_fact)
    apply (rule hoare_bind, rule opt_h, rule put_dword_h, use o in simp)
    apply (rule hoare_fact)
    apply (rule hoare_bind, rule put_word_h, use o in simp)
    apply (rule hoare_fact)
    apply (rule hoare_bind, rule opt_h, rule put_dword_h, use o in simp)
    apply (rule hoare_fact)
    apply (simp only: simp_thms if_True if_False)
    apply (rule hoare_bind, rule put_word_h, use o in simp)
    apply (rule hoare_fact)
    apply (rule hoare_return)
    by (use o in \<open>cases wide; cases per_vector; simp add: msi_restored_def msi_saved_def Let_def\<close>)
  then show ?thesis using restored_original [OF g] by simp
qed

lemma save_h:
  assumes v: "valid_capability_pointer x" and e: "layout_end x wide per_vector \<le> 256"
  shows "hoare (holds f) (msi_save (layout_at x k wide per_vector) io)
    (\<lambda>r c. r = msi_saved x k wide per_vector f \<and> holds f c)"
proof -
  note o = layout_offsets(1-7) [OF v e, of k] layout_offsets(8-) [OF v e]
  have opt: "(b \<Longrightarrow> hoare (holds f) m (\<lambda>r c. r = y \<and> holds f c)) \<Longrightarrow>
      hoare (holds f) (if b then m else return 0) (\<lambda>r c. r = (if b then y else 0) \<and> holds f c)"
    for b and m :: "('c, u32) state" and y
    by (auto intro: hoare_return)
  show ?thesis
    unfolding msi_save_def
    apply (rule hoare_bind, rule read_word_h, use o in simp)
    apply (rule hoare_value)
    apply (rule hoare_bind, rule read_dword_h, use o in simp)
    apply (rule hoare_value)
    apply (rule hoare_bind, rule opt, rule read_dword_h, use o in simp)
    apply (rule hoare_value)
    apply (rule hoare_bind, rule read_word_h, use o in simp)
    apply (rule hoare_value)
    apply (rule hoare_bind, rule opt, rule read_dword_h, use o in simp)
    apply (rule hoare_value)
    apply (rule hoare_return)
    by (use o in \<open>cases wide; cases per_vector; simp add: msi_saved_def\<close>)
qed

lemma install_h:
  assumes v: "valid_capability_pointer x" and e: "layout_end x wide per_vector \<le> 256"
  shows "hoare (holds f) (msi_install (layout_at x k wide per_vector) io address data (msi_saved x k wide per_vector f))
    (\<lambda>r c. r \<and> holds (msi_installed x wide per_vector address data f) c)"
proof -
  note o = layout_offsets(1-7) [OF v e, of k] layout_offsets(8-) [OF v e]
  show ?thesis
    unfolding msi_install_def Let_def
    apply (rule hoare_weaken)
      apply (rule hoare_and_then, rule put_word_h, use o in simp)
      apply (rule hoare_and_then, rule opt_h, rule put_dword_h, use o in simp)
      apply (rule hoare_and_then, rule put_dword_h, use o in simp)
      apply (rule hoare_and_then, rule opt_h, rule put_dword_h, use o in simp)
      apply (rule hoare_and_then, rule put_word_h, use o in simp)
      apply (rule hoare_and_then, rule put_word_h, use o in simp)
      apply (rule opt_h, rule put_dword_h, use o in simp)
     apply assumption
    by (use o in \<open>cases wide; cases per_vector; simp add: msi_installed_def msi_saved_def Let_def\<close>)
qed

lemma program_h:
  assumes v: "valid_capability_pointer x" and e: "layout_end x wide per_vector \<le> 256" and k: "k \<le> 7"
    and st: "saved_valid st = 0" and a: "address AND 0xFFF00FFF = PCI_XAPIC_MESSAGE_BASE"
    and d: "0x20 \<le> data" "data \<le> 0xFE"
    and c: "(get16 f (x + 2) AND PCI_MSI_CONTROL_64_BIT \<noteq> 0) = wide"
      "(get16 f (x + 2) AND PCI_MSI_CONTROL_PER_VECTOR_MASKING \<noteq> 0) = per_vector"
  shows "hoare (holds f) (pci_msi_program (layout_at x k wide per_vector) io address data st)
    (\<lambda>r c. r = (True, msi_saved x k wide per_vector f) \<and> holds (msi_installed x wide per_vector address data f) c)"
proof -
  have ctl: "saved_control (msi_saved x k wide per_vector f) = get16 f (x + 2)" by (simp add: msi_saved_def)
  show ?thesis
    unfolding pci_msi_program_def
    apply (rule hoare_if)
     apply (use layout_at_valid [OF v k e] st a d in \<open>simp add: linorder_not_le [symmetric]\<close>)
    apply (rule hoare_bind, rule save_h [OF v e])
    apply (rule hoare_value)
    apply (rule hoare_if)
     apply (use c layout_offsets(6,7) [OF v e, of k] in \<open>unfold ctl, blast\<close>)
    apply (rule hoare_bind, rule install_h [OF v e])
    apply (rule hoare_fact)
    by (simp add: hoare_return)
qed

lemma program_restore:
  assumes "valid_capability_pointer x" "layout_end x wide per_vector \<le> 256" "k \<le> 7"
    and "saved_valid st = 0" "address AND 0xFFF00FFF = PCI_XAPIC_MESSAGE_BASE" "0x20 \<le> data" "data \<le> 0xFE"
    and "(get16 (cfg c) (x + 2) AND PCI_MSI_CONTROL_64_BIT \<noteq> 0) = wide"
      "(get16 (cfg c) (x + 2) AND PCI_MSI_CONTROL_PER_VECTOR_MASKING \<noteq> 0) = per_vector"
    and "ok c"
  shows "\<exists>st1 c1 c2. run_state (pci_msi_program (layout_at x k wide per_vector) io address data st) c = ((True, st1), c1) \<and>
    cfg c1 = msi_installed x wide per_vector address data (cfg c) \<and>
    run_state (pci_msi_restore io st1) c1 = ((True, clear_saved_state), c2) \<and> cfg c2 = cfg c"
proof -
  obtain r1 c1 where 1: "run_state (pci_msi_program (layout_at x k wide per_vector) io address data st) c = (r1, c1)" by fastforce
  have p: "r1 = (True, msi_saved x k wide per_vector (cfg c))" "ok c1"
    "cfg c1 = msi_installed x wide per_vector address data (cfg c)"
    using hoareD [OF program_h [OF assms(1-9)] _ 1] assms(10) by auto
  obtain r2 c2 where 2: "run_state (pci_msi_restore io (msi_saved x k wide per_vector (cfg c))) c1 = (r2, c2)" by fastforce
  have "hoare (holds (cfg c1)) (pci_msi_restore io (msi_saved x k wide per_vector (cfg c)))
      (\<lambda>r c2. r = (True, clear_saved_state) \<and> holds (cfg c) c2)"
    by (rule restore_h [OF assms(1-3)]) (simp add: p installed_outside)
  then have "r2 = (True, clear_saved_state)" "cfg c2 = cfg c"
    using hoareD [OF _ _ 2] p(2) by auto
  then show ?thesis using 1 2 p by auto
qed

end

lemma found_layout:
  assumes "pci_msi_parse_layout (Some c) 256 = Msi_found l"
  shows "\<exists>x. valid_capability_pointer x \<and> parse_msi_capability c x = Msi_found l"
proof -
  have "walk_capabilities PCI_CAPABILITY_MAXIMUM_NODES c (unat (c ! 0x34)) 0 0 = Msi_found l"
    using assms by (auto simp: pci_msi_parse_layout_def Let_def split: if_splits)
  then obtain k where k: "msi_at c (unat (c ! 0x34)) k"
    "parse_msi_capability c (last (capability_path c (unat (c ! 0x34)) k)) = Msi_found l"
    using walk_only_found by blast
  have "capability_path c (unat (c ! 0x34)) k \<noteq> []" by (metis path_length Zero_not_Suc list.size(3))
  then have "valid_capability_pointer (last (capability_path c (unat (c ! 0x34)) k))"
    using path_reaches [OF k(1)] msi_at_valid by (metis last_in_set)
  then show ?thesis using k(2) by blast
qed

section \<open>Properties\<close>

text \<open>C24: The bounded walk with its visited marks loses nothing: pci_msi_parse_layout finds an MSI
  layout exactly when the device announces a capability list and that list, followed without any
  bound over valid pointers, reaches an MSI capability whose layout parses; and then the layout is
  valid, so every register it names lies inside the 256 configuration bytes.\<close>
theorem msi_parse_complete:
  "pci_msi_parse_layout (Some c) 256 = Msi_found l \<longleftrightarrow>
     msi_read_u16 c 6 AND 0x10 \<noteq> 0 \<and>
     (\<exists>k. msi_at c (unat (c ! 0x34)) k \<and>
       parse_msi_capability c (last (capability_path c (unat (c ! 0x34)) k)) = Msi_found l) \<and> valid_layout l"
proof -
  let ?start = "unat (c ! 0x34)"
  have found: "(\<exists>k. msi_at c ?start k \<and> parse_msi_capability c (last (capability_path c ?start k)) = Msi_found l) \<longleftrightarrow>
      walk_capabilities PCI_CAPABILITY_MAXIMUM_NODES c ?start 0 0 = Msi_found l"
  proof
    assume "\<exists>k. msi_at c ?start k \<and> parse_msi_capability c (last (capability_path c ?start k)) = Msi_found l"
    then obtain k where k: "msi_at c ?start k" "parse_msi_capability c (last (capability_path c ?start k)) = Msi_found l" by blast
    then show "walk_capabilities PCI_CAPABILITY_MAXIMUM_NODES c ?start 0 0 = Msi_found l"
      using walk_finds [OF k(1) path_short [OF k(1)], of 0 0] by (simp add: slot_visited_def)
  qed (rule walk_only_found)
  have valid: "valid_layout l"
    if k: "msi_at c ?start k" "parse_msi_capability c (last (capability_path c ?start k)) = Msi_found l" for k
  proof -
    have "capability_path c ?start k \<noteq> []" by (metis path_length Zero_not_Suc list.size(3))
    then have "valid_capability_pointer (last (capability_path c ?start k))"
      using path_reaches [OF k(1)] msi_at_valid by (metis last_in_set)
    then show ?thesis using parsed_layout_valid k(2) by blast
  qed
  have "?start \<noteq> 0" if "msi_at c ?start k" for k
    using msi_at_valid [OF that] by (auto simp: valid_capability_pointer_def)
  then show ?thesis
    using found valid by (auto simp: pci_msi_parse_layout_def Let_def)
qed

text \<open>C25: On configuration registers that store what is written, pci_msi_program succeeds, installs
  the message address and data, enables a single unmasked vector and changes no byte outside the
  capability's registers, and pci_msi_restore then puts every byte of the configuration space back
  and releases the saved state.\<close>
theorem msi_program_restore:
  assumes "config_space io cfg ok" and "ok c"
    and "valid_capability_pointer x" and "layout_end x wide per_vector \<le> 256" and "k \<le> 7"
    and "saved_valid st = 0" and "address AND 0xFFF00FFF = PCI_XAPIC_MESSAGE_BASE"
    and "0x20 \<le> data" and "data \<le> 0xFE"
    and "(get16 (cfg c) (x + 2) AND PCI_MSI_CONTROL_64_BIT \<noteq> 0) = wide"
    and "(get16 (cfg c) (x + 2) AND PCI_MSI_CONTROL_PER_VECTOR_MASKING \<noteq> 0) = per_vector"
  shows "\<exists>st1 c1 c2. run_state (pci_msi_program (layout_at x k wide per_vector) io address data st) c = ((True, st1), c1) \<and>
    get32 (cfg c1) (x + 4) = address \<and> get16 (cfg c1) (msi_data_at x wide) = data \<and>
    get16 (cfg c1) (x + 2) = msi_disabled (get16 (cfg c) (x + 2)) OR PCI_MSI_CONTROL_ENABLE \<and>
    (\<forall>b. b \<notin> msi_registers x wide per_vector \<longrightarrow> cfg c1 b = cfg c b) \<and>
    run_state (pci_msi_restore io st1) c1 = ((True, clear_saved_state), c2) \<and> cfg c2 = cfg c"
proof -
  have regs: "get32 (msi_installed x wide per_vector address data f) (x + 4) = address \<and>
      get16 (msi_installed x wide per_vector address data f) (msi_data_at x wide) = data \<and>
      get16 (msi_installed x wide per_vector address data f) (x + 2) =
        msi_disabled (get16 f (x + 2)) OR PCI_MSI_CONTROL_ENABLE" for f
    by (cases wide; cases per_vector)
      (simp_all add: msi_installed_def msi_data_at_def msi_mask_at_def Let_def get_other)
  show ?thesis
    using config_space.program_restore [OF assms(1,3-11,2)] regs installed_outside by fastforce
qed

section \<open>The configuration space of the host test\<close>

text \<open>
  \<open>tests/pci_msi_host_test.c\<close> runs the functions above on an array of bytes in which one chosen
  write is dropped; the writes of a test are few, so their number is a natural number.
\<close>

record mock_configuration =
  mock_bytes :: "nat \<Rightarrow> u8"
  mock_write_count :: nat
  mock_fail_write :: nat

definition mock_write :: "((nat \<Rightarrow> u8) \<Rightarrow> (nat \<Rightarrow> u8)) \<Rightarrow> (mock_configuration, unit) state" where
  "mock_write upd = modify (\<lambda>c.
     let c1 = c\<lparr>mock_write_count := mock_write_count c + 1\<rparr> in
     if mock_write_count c1 \<noteq> mock_fail_write c1 then c1\<lparr>mock_bytes := upd (mock_bytes c1)\<rparr> else c1)"

definition mock_io :: "mock_configuration msi_io" where
  "mock_io =
     \<lparr>read_word = (\<lambda>offset. gets (\<lambda>c. get16 (mock_bytes c) (unat offset))),
      read_dword = (\<lambda>offset. gets (\<lambda>c. get32 (mock_bytes c) (unat offset))),
      write_word = (\<lambda>offset v. mock_write (\<lambda>b. set16 b (unat offset) v)),
      write_dword = (\<lambda>offset v. mock_write (\<lambda>b. set32 b (unat offset) v))\<rparr>"

interpretation mock_space: config_space mock_io mock_bytes "\<lambda>c. mock_fail_write c = 0"
  by unfold_locales (auto simp: mock_io_def mock_write_def Let_def)

definition prepare_masked_64_bit :: mock_configuration where
  "prepare_masked_64_bit =
     (let b1 = set16 (\<lambda>_. 0) 0x06 0x0010;
          b2 = set16 (b1(0x34 := 0x50, 0x50 := 0x05)) 0x52 0x0185;
          b3 = set32 b2 0x54 0xABC00000;
          b4 = set32 b3 0x58 0x12345678;
          b5 = set16 b4 0x5C 0x0045
      in \<lparr>mock_bytes = set32 b5 0x60 0xA5A5A5A4, mock_write_count = 0, mock_fail_write = 0\<rparr>)"

theorem msi_program_restore_witness:
  "\<exists>st1 c1. run_state (pci_msi_program (layout_at 0x50 2 True True) mock_io 0xFEE01000 0x45 clear_saved_state)
      prepare_masked_64_bit = ((True, st1), c1) \<and> get32 (mock_bytes c1) 0x54 = 0xFEE01000"
proof -
  have c: "get16 (mock_bytes prepare_masked_64_bit) (0x50 + 2) = 0x185"
    by (simp add: prepare_masked_64_bit_def Let_def get_other)
  show ?thesis
    using msi_program_restore [OF mock_space.config_space_axioms, where c = prepare_masked_64_bit and x = "0x50"
        and wide = True and per_vector = True and k = 2 and st = clear_saved_state and address = "0xFEE01000"
        and data = "0x45"] c
    by (auto simp: valid_capability_pointer_def layout_end_def clear_saved_state_def prepare_masked_64_bit_def Let_def)
qed

end
