(* ===== verification/Machine.thy ===== *)
theory Machine
  imports Effects Pmm
begin

text \<open>
  The hardware the drivers talk to, \<open>cpu/io.h\<close>: port and memory accesses are functions of a
  hardware state of unknown type \<open>'h\<close>, collected in a record \<open>'h bus\<close> that every driver function
  takes as its first argument. A driver's globals extend the record \<open>machine\<close>, which holds the
  hardware state and the page-frame allocator, so that a driver can call another one that works
  on a part of its state.
\<close>

record 'h bus =
  in8 :: "u16 \<Rightarrow> 'h \<Rightarrow> u8 \<times> 'h"
  in16 :: "u16 \<Rightarrow> 'h \<Rightarrow> u16 \<times> 'h"
  in32 :: "u16 \<Rightarrow> 'h \<Rightarrow> u32 \<times> 'h"
  out8 :: "u16 \<Rightarrow> u8 \<Rightarrow> 'h \<Rightarrow> 'h"
  out16 :: "u16 \<Rightarrow> u16 \<Rightarrow> 'h \<Rightarrow> 'h"
  out32 :: "u16 \<Rightarrow> u32 \<Rightarrow> 'h \<Rightarrow> 'h"
  mem_load8 :: "u32 \<Rightarrow> 'h \<Rightarrow> u8 \<times> 'h"
  mem_store8 :: "u32 \<Rightarrow> u8 \<Rightarrow> 'h \<Rightarrow> 'h"
  mem_load32 :: "u32 \<Rightarrow> 'h \<Rightarrow> u32 \<times> 'h"
  mem_store32 :: "u32 \<Rightarrow> u32 \<Rightarrow> 'h \<Rightarrow> 'h"
  interrupt_flag :: "'h \<Rightarrow> bool"
  relax :: "'h \<Rightarrow> bool \<times> 'h"

text \<open>
  \<open>interrupt_flag\<close> is bit 9 of the flags register. \<open>relax\<close> is the \<open>pause\<close> of a waiting loop; its
  result tells whether the interrupt the loop waits for is delivered there.
\<close>

record 'h machine =
  hw :: 'h
  frames :: pmm

definition on_hw :: "('h \<Rightarrow> 'a \<times> 'h) \<Rightarrow> (('h, 'z) machine_scheme, 'a) state" where
  "on_hw f = State (\<lambda>s. case f (hw s) of (v, h) \<Rightarrow> (v, s\<lparr>hw := h\<rparr>))"

definition on_frames :: "(pmm \<Rightarrow> 'a \<times> pmm) \<Rightarrow> (('h, 'z) machine_scheme, 'a) state" where
  "on_frames f = State (\<lambda>s. case f (frames s) of (v, p) \<Rightarrow> (v, s\<lparr>frames := p\<rparr>))"

definition inb :: "'h bus \<Rightarrow> u16 \<Rightarrow> (('h, 'z) machine_scheme, u8) state" where
  "inb io port = on_hw (in8 io port)"

definition inw :: "'h bus \<Rightarrow> u16 \<Rightarrow> (('h, 'z) machine_scheme, u16) state" where
  "inw io port = on_hw (in16 io port)"

definition inl :: "'h bus \<Rightarrow> u16 \<Rightarrow> (('h, 'z) machine_scheme, u32) state" where
  "inl io port = on_hw (in32 io port)"

definition outb :: "'h bus \<Rightarrow> u16 \<Rightarrow> u8 \<Rightarrow> (('h, 'z) machine_scheme, unit) state" where
  "outb io port v = on_hw (\<lambda>h. ((), out8 io port v h))"

definition outw :: "'h bus \<Rightarrow> u16 \<Rightarrow> u16 \<Rightarrow> (('h, 'z) machine_scheme, unit) state" where
  "outw io port v = on_hw (\<lambda>h. ((), out16 io port v h))"

definition outl :: "'h bus \<Rightarrow> u16 \<Rightarrow> u32 \<Rightarrow> (('h, 'z) machine_scheme, unit) state" where
  "outl io port v = on_hw (\<lambda>h. ((), out32 io port v h))"

definition load8 :: "'h bus \<Rightarrow> u32 \<Rightarrow> (('h, 'z) machine_scheme, u8) state" where
  "load8 io a = on_hw (mem_load8 io a)"

definition store8 :: "'h bus \<Rightarrow> u32 \<Rightarrow> u8 \<Rightarrow> (('h, 'z) machine_scheme, unit) state" where
  "store8 io a v = on_hw (\<lambda>h. ((), mem_store8 io a v h))"

definition load32 :: "'h bus \<Rightarrow> u32 \<Rightarrow> (('h, 'z) machine_scheme, u32) state" where
  "load32 io a = on_hw (mem_load32 io a)"

definition store32 :: "'h bus \<Rightarrow> u32 \<Rightarrow> u32 \<Rightarrow> (('h, 'z) machine_scheme, unit) state" where
  "store32 io a v = on_hw (\<lambda>h. ((), mem_store32 io a v h))"

lemmas access_defs = inb_def inw_def inl_def outb_def outw_def outl_def
  load8_def store8_def load32_def store32_def

lemma run_on_hw [simp]:
  "run_state (on_hw f) s = (fst (f (hw s)), s\<lparr>hw := snd (f (hw s))\<rparr>)"
  by (simp add: on_hw_def case_prod_beta)

lemma run_on_frames [simp]:
  "run_state (on_frames f) s = (fst (f (frames s)), s\<lparr>frames := snd (f (frames s))\<rparr>)"
  by (simp add: on_frames_def case_prod_beta)

text \<open>An invariant of the driver state that does not look at the hardware is kept by every access.\<close>

lemma keeps_on_hw: "(\<And>s h. I s \<Longrightarrow> I (s\<lparr>hw := h\<rparr>)) \<Longrightarrow> keeps I (on_hw f)"
  by (simp add: keeps_def)

lemma keeps_on_frames: "(\<And>s p. I s \<Longrightarrow> I (s\<lparr>frames := p\<rparr>)) \<Longrightarrow> keeps I (on_frames f)"
  by (simp add: keeps_def)

end
