(* ===== verification/Pci.thy ===== *)
theory Pci
  imports Machine PciMsi
begin

text \<open>
  The PCI driver of \<open>drivers/pci.c\<close> and \<open>drivers/pci_layout.c\<close>: configuration access through the
  ports 0xCF8 and 0xCFC, enumeration, and the command-register and MSI handling of the IDE and
  AHCI controllers. A pointer to a recorded device is its index in the device table.
\<close>

section \<open>State\<close>

abbreviation PCI_MAX_DEVICES :: nat where "PCI_MAX_DEVICES \<equiv> 32"
abbreviation PCI_MAX_BARS :: nat where "PCI_MAX_BARS \<equiv> 6"
abbreviation PCI_CONFIG_ADDRESS :: u16 where "PCI_CONFIG_ADDRESS \<equiv> 0x0CF8"
abbreviation PCI_CONFIG_DATA :: u16 where "PCI_CONFIG_DATA \<equiv> 0x0CFC"

datatype pci_bar_type = PCI_BAR_UNUSED | PCI_BAR_IO | PCI_BAR_MEMORY32 | PCI_BAR_MEMORY64

record pci_bar =
  base_low :: u32
  base_high :: u32
  bar_flags :: u32
  bar_type :: pci_bar_type

record pci_device =
  dev_bus :: u8
  dev_slot :: u8
  dev_function :: u8
  vendor_id :: u16
  device_id :: u16
  class_code :: u8
  sub_class :: u8
  prog_if :: u8
  revision :: u8
  interrupt_line :: u8
  header_type :: u8
  bars :: "pci_bar list"

record 'h pci = "'h machine" +
  devices :: "pci_device list"
  device_count :: nat
  ahci_msi_state :: pci_msi_saved_state
  ahci_msi_bus :: u8
  ahci_msi_slot :: u8
  ahci_msi_function :: u8

section \<open>Configuration access\<close>

definition config_address :: "u8 \<Rightarrow> u8 \<Rightarrow> u8 \<Rightarrow> u8 \<Rightarrow> u32" where
  "config_address bus_no slot func offset =
     0x80000000 OR push_bit 16 (ucast bus_no) OR push_bit 11 (ucast slot) OR
     push_bit 8 (ucast func) OR (ucast offset AND 0xFC)"

definition pci_config_read :: "'h bus \<Rightarrow> u8 \<Rightarrow> u8 \<Rightarrow> u8 \<Rightarrow> u8 \<Rightarrow> (('h, 'z) pci_scheme, u32) state" where
  "pci_config_read io bus_no slot func offset = do {
     outl io PCI_CONFIG_ADDRESS (config_address bus_no slot func offset);
     inl io PCI_CONFIG_DATA }"

definition pci_config_read_word :: "'h bus \<Rightarrow> u8 \<Rightarrow> u8 \<Rightarrow> u8 \<Rightarrow> u8 \<Rightarrow> (('h, 'z) pci_scheme, u16) state" where
  "pci_config_read_word io bus_no slot func offset = do {
     v \<leftarrow> pci_config_read io bus_no slot func offset;
     return (ucast (drop_bit (unat (offset AND 2) * 8) v)) }"

definition pci_config_write_word :: "'h bus \<Rightarrow> u8 \<Rightarrow> u8 \<Rightarrow> u8 \<Rightarrow> u8 \<Rightarrow> u16 \<Rightarrow> (('h, 'z) pci_scheme, unit) state" where
  "pci_config_write_word io bus_no slot func offset v = do {
     outl io PCI_CONFIG_ADDRESS (config_address bus_no slot func offset);
     outw io (PCI_CONFIG_DATA + ucast (offset AND 2)) v }"

definition pci_config_write_dword :: "'h bus \<Rightarrow> u8 \<Rightarrow> u8 \<Rightarrow> u8 \<Rightarrow> u8 \<Rightarrow> u32 \<Rightarrow> (('h, 'z) pci_scheme, unit) state" where
  "pci_config_write_dword io bus_no slot func offset v = do {
     outl io PCI_CONFIG_ADDRESS (config_address bus_no slot func offset);
     outl io PCI_CONFIG_DATA v }"

definition pci_msi_io :: "'h bus \<Rightarrow> u8 \<Rightarrow> u8 \<Rightarrow> u8 \<Rightarrow> ('h, 'z) pci_scheme msi_io" where
  "pci_msi_io io bus_no slot func =
     \<lparr>read_word = pci_config_read_word io bus_no slot func,
      read_dword = pci_config_read io bus_no slot func,
      write_word = pci_config_write_word io bus_no slot func,
      write_dword = pci_config_write_dword io bus_no slot func\<rparr>"

fun read_configuration :: "'h bus \<Rightarrow> pci_device \<Rightarrow> nat list \<Rightarrow> (('h, 'z) pci_scheme, bytes) state" where
  "read_configuration io dev [] = return []"
| "read_configuration io dev (offset # rest) = do {
     v \<leftarrow> pci_config_read io (dev_bus dev) (dev_slot dev) (dev_function dev) (of_nat offset);
     bs \<leftarrow> read_configuration io dev rest;
     return (ucast v # ucast (drop_bit 8 v) # ucast (drop_bit 16 v) # ucast (drop_bit 24 v) # bs) }"

definition pci_read_configuration :: "'h bus \<Rightarrow> pci_device \<Rightarrow> (('h, 'z) pci_scheme, bytes) state" where
  "pci_read_configuration io dev = read_configuration io dev (map (\<lambda>i. 4 * i) [0 ..< 64])"

section \<open>Enumeration\<close>


definition pci_device_is_recorded :: "nat option \<Rightarrow> ('h, 'z) pci_scheme \<Rightarrow> bool" where
  "pci_device_is_recorded device s = (case device of None \<Rightarrow> False | Some i \<Rightarrow> i < device_count s)"

definition empty_bar :: pci_bar where
  "empty_bar = \<lparr>base_low = 0, base_high = 0, bar_flags = 0, bar_type = PCI_BAR_UNUSED\<rparr>"






definition bar_self_test :: "pci_bar \<Rightarrow> bool" where
  "bar_self_test bar =
     (case bar_type bar of
        PCI_BAR_UNUSED \<Rightarrow> True
      | PCI_BAR_IO \<Rightarrow> base_low bar AND 3 = 0
      | PCI_BAR_MEMORY32 \<Rightarrow> base_low bar AND 0xF = 0
      | PCI_BAR_MEMORY64 \<Rightarrow> base_low bar AND 0xF = 0 \<and> base_high bar \<noteq> 0xFFFFFFFF)"

definition pci_self_test :: "('h, 'z) pci_scheme \<Rightarrow> bool" where
  "pci_self_test s \<longleftrightarrow>
     list_all (\<lambda>dev. vendor_id dev \<noteq> 0xFFFF \<and> \<not> header_type dev AND 0x7F > 2 \<and>
       list_all bar_self_test (bars dev)) (take (device_count s) (devices s))"

definition pci_device_count :: "('h, 'z) pci_scheme \<Rightarrow> nat" where
  "pci_device_count s = device_count s"

definition pci_device_at :: "nat \<Rightarrow> ('h, 'z) pci_scheme \<Rightarrow> nat option" where
  "pci_device_at index s = (if index \<ge> device_count s then None else Some index)"

section \<open>Controllers\<close>

definition pci_ahci_mmio_base :: "pci_device \<Rightarrow> u32 option" where
  "pci_ahci_mmio_base dev =
     (if header_type dev AND 0x7F \<noteq> 0 \<or> class_code dev \<noteq> 1 \<or> sub_class dev \<noteq> 6 \<or> prog_if dev \<noteq> 1 then None
      else let abar = bars dev ! 5 in
        if bar_type abar \<noteq> PCI_BAR_MEMORY32 \<or> base_low abar = 0 \<or> base_high abar \<noteq> 0 \<or>
           bar_flags abar \<noteq> 0 \<or> base_low abar AND 0x0F \<noteq> 0 then None
        else Some (base_low abar))"

definition pci_ahci_controller_count :: "('h, 'z) pci_scheme \<Rightarrow> nat" where
  "pci_ahci_controller_count s =
     length (filter (\<lambda>dev. header_type dev AND 0x7F = 0 \<and> class_code dev = 1 \<and> sub_class dev = 6 \<and> prog_if dev = 1)
       (take (device_count s) (devices s)))"

definition pci_ahci_usable_count :: "('h, 'z) pci_scheme \<Rightarrow> nat" where
  "pci_ahci_usable_count s =
     length (filter (\<lambda>dev. pci_ahci_mmio_base dev \<noteq> None) (take (device_count s) (devices s)))"

fun ahci_device_from :: "pci_device list \<Rightarrow> nat list \<Rightarrow> nat \<Rightarrow> nat option" where
  "ahci_device_from devs [] requested = None"
| "ahci_device_from devs (i # is) requested =
     (if pci_ahci_mmio_base (devs ! i) \<noteq> None then
        if requested = 0 then Some i else ahci_device_from devs is (requested - 1)
      else ahci_device_from devs is requested)"

definition pci_ahci_device_at :: "nat \<Rightarrow> ('h, 'z) pci_scheme \<Rightarrow> nat option" where
  "pci_ahci_device_at requested s = ahci_device_from (devices s) [0 ..< device_count s] requested"

definition command_read :: "'h bus \<Rightarrow> nat \<Rightarrow> (('h, 'z) pci_scheme, u16) state" where
  "command_read io i = do {
     dev \<leftarrow> gets (\<lambda>s. devices s ! i);
     pci_config_read_word io (dev_bus dev) (dev_slot dev) (dev_function dev) 4 }"

definition command_write :: "'h bus \<Rightarrow> nat \<Rightarrow> u16 \<Rightarrow> (('h, 'z) pci_scheme, unit) state" where
  "command_write io i v = do {
     dev \<leftarrow> gets (\<lambda>s. devices s ! i);
     pci_config_write_word io (dev_bus dev) (dev_slot dev) (dev_function dev) 4 v }"

definition ide_bus_master_capable :: "pci_device \<Rightarrow> bool" where
  "ide_bus_master_capable dev \<longleftrightarrow>
     \<not> (header_type dev AND 0x7F \<noteq> 0 \<or> class_code dev \<noteq> 1 \<or> sub_class dev \<noteq> 1 \<or>
        prog_if dev AND 0x80 = 0 \<or> prog_if dev AND 0x01 \<noteq> 0 \<or>
        bar_type (bars dev ! 4) \<noteq> PCI_BAR_IO \<or> bar_flags (bars dev ! 4) AND 1 = 0 \<or>
        base_low (bars dev ! 4) < 0x0100 \<or> base_low (bars dev ! 4) > 0xFFF0 \<or>
        base_low (bars dev ! 4) AND 0x0F \<noteq> 0)"

definition pci_enable_ide_bus_master :: "'h bus \<Rightarrow> nat option \<Rightarrow> (('h, 'z) pci_scheme, bool) state" where
  "pci_enable_ide_bus_master io device = (case device of None \<Rightarrow> return False
     | Some i \<Rightarrow> do {
         dev \<leftarrow> gets (\<lambda>s. devices s ! i);
         recorded \<leftarrow> gets (pci_device_is_recorded device);
         if \<not> ide_bus_master_capable dev \<or> \<not> recorded then return False
         else do {
           command \<leftarrow> command_read io i;
           command_write io i (command OR 0x0005);
           command \<leftarrow> command_read io i;
           return (command AND 0x0005 = 0x0005) } })"

definition pci_disable_ide_bus_master :: "'h bus \<Rightarrow> nat option \<Rightarrow> (('h, 'z) pci_scheme, bool) state" where
  "pci_disable_ide_bus_master io device = (case device of None \<Rightarrow> return False
     | Some i \<Rightarrow> do {
         recorded \<leftarrow> gets (pci_device_is_recorded device);
         if \<not> recorded then return False
         else do {
           command \<leftarrow> command_read io i;
           command_write io i (command AND NOT 0x0004);
           command \<leftarrow> command_read io i;
           return (command AND 0x0004 = 0) } })"

text \<open>Whether the device is recorded and an AHCI controller with a usable register window.\<close>

definition ahci_usable :: "nat option \<Rightarrow> ('h, 'z) pci_scheme \<Rightarrow> bool" where
  "ahci_usable device s \<longleftrightarrow>
     pci_device_is_recorded device s \<and> pci_ahci_mmio_base (devices s ! the device) \<noteq> None"

definition pci_prepare_ahci_controller :: "'h bus \<Rightarrow> nat option \<Rightarrow> (('h, 'z) pci_scheme, u16 option \<times> bool) state" where
  "pci_prepare_ahci_controller io device = do {
     usable \<leftarrow> gets (ahci_usable device);
     if \<not> usable then return (None, False)
     else let i = the device in do {
       original \<leftarrow> command_read io i;
       command_write io i ((original OR 0x0002) AND NOT 0x0004);
       check \<leftarrow> command_read io i;
       if check AND 0x0006 \<noteq> 0x0002 then do {
         command \<leftarrow> command_read io i;
         command_write io i (command AND NOT 0x0004);
         return (Some original, False) }
       else return (Some original, True) } }"

definition pci_enable_ahci_bus_master :: "'h bus \<Rightarrow> nat option \<Rightarrow> (('h, 'z) pci_scheme, bool) state" where
  "pci_enable_ahci_bus_master io device = do {
     usable \<leftarrow> gets (ahci_usable device);
     if \<not> usable then return False
     else let i = the device in do {
       command \<leftarrow> command_read io i;
       command_write io i (command OR 0x0006);
       check \<leftarrow> command_read io i;
       return (check AND 0x0006 = 0x0006) } }"

definition pci_disable_ahci_bus_master :: "'h bus \<Rightarrow> nat option \<Rightarrow> (('h, 'z) pci_scheme, bool) state" where
  "pci_disable_ahci_bus_master io device = do {
     usable \<leftarrow> gets (ahci_usable device);
     if \<not> usable then return False
     else let i = the device in do {
       command \<leftarrow> command_read io i;
       command_write io i (command AND NOT 0x0004);
       check \<leftarrow> command_read io i;
       return (check AND 0x0006 = 0x0002) } }"

definition pci_enable_ahci_msi :: "'h bus \<Rightarrow> nat option \<Rightarrow> u32 \<Rightarrow> u32 \<Rightarrow> (('h, 'z) pci_scheme, bool) state" where
  "pci_enable_ahci_msi io device apic_id vector = do {
     st \<leftarrow> gets ahci_msi_state;
     usable \<leftarrow> gets (ahci_usable device);
     if saved_valid st \<noteq> 0 \<or> \<not> usable then return False
     else case (pci_msi_xapic_address apic_id, pci_msi_fixed_data vector) of
       (Some address, Some data) \<Rightarrow> do {
         dev \<leftarrow> gets (\<lambda>s. devices s ! the device);
         configuration \<leftarrow> pci_read_configuration io dev;
         case pci_msi_parse_layout (Some configuration) 256 of
           Msi_found layout \<Rightarrow> do {
             (result, st') \<leftarrow> pci_msi_program layout (pci_msi_io io (dev_bus dev) (dev_slot dev) (dev_function dev))
               address data st;
             modify (\<lambda>s. s\<lparr>ahci_msi_state := st'\<rparr>);
             (if saved_valid st' \<noteq> 0
              then modify (\<lambda>s. s\<lparr>ahci_msi_bus := dev_bus dev, ahci_msi_slot := dev_slot dev,
                                 ahci_msi_function := dev_function dev\<rparr>)
              else return ());
             return result }
         | _ \<Rightarrow> return False }
     | _ \<Rightarrow> return False }"

definition pci_disable_ahci_msi :: "'h bus \<Rightarrow> nat option \<Rightarrow> (('h, 'z) pci_scheme, bool) state" where
  "pci_disable_ahci_msi io device = do {
     recorded \<leftarrow> gets (pci_device_is_recorded device);
     st \<leftarrow> gets ahci_msi_state;
     dev \<leftarrow> gets (\<lambda>s. devices s ! the device);
     owner \<leftarrow> gets (\<lambda>s. (ahci_msi_bus s, ahci_msi_slot s, ahci_msi_function s));
     if \<not> recorded then return False
     else if saved_valid st = 0 then return True
     else if (dev_bus dev, dev_slot dev, dev_function dev) \<noteq> owner then return False
     else do {
       (result, st') \<leftarrow> pci_msi_restore (pci_msi_io io (dev_bus dev) (dev_slot dev) (dev_function dev)) st;
       modify (\<lambda>s. s\<lparr>ahci_msi_state := st'\<rparr>);
       return result } }"

definition pci_quiesce_ahci_controller :: "'h bus \<Rightarrow> nat option \<Rightarrow> u16 \<Rightarrow> (('h, 'z) pci_scheme, bool) state" where
  "pci_quiesce_ahci_controller io device original_command = do {
     recorded \<leftarrow> gets (pci_device_is_recorded device);
     if \<not> recorded then return False
     else let i = the device in do {
       msi_quiesced \<leftarrow> pci_disable_ahci_msi io device;
       command \<leftarrow> command_read io i;
       command_write io i (command AND NOT 0x0004);
       check \<leftarrow> command_read io i;
       if check AND 0x0004 \<noteq> 0 then return False
       else let quiesced = original_command AND NOT 0x0004 in do {
         command_write io i quiesced;
         final \<leftarrow> command_read io i;
         return (msi_quiesced \<and> final AND 0x0007 = quiesced AND 0x0007) } } }"

section \<open>Configuration addresses\<close>

text \<open>The fields a host bridge decodes from the address register.\<close>

definition decode_address :: "u32 \<Rightarrow> u8 \<times> u8 \<times> u8 \<times> u8" where
  "decode_address a =
     (ucast (drop_bit 16 a), ucast (drop_bit 11 a AND 0x1F), ucast (drop_bit 8 a AND 7), ucast (a AND 0xFC))"

lemma small_bits:
  assumes "unat (w :: u8) < 2 ^ n" "bit w m"
  shows "m < n"
proof -
  have "bit (unat w) m" using assms(2) by (simp add: bit_unsigned_iff)
  then have "bit (take_bit n (unat w)) m" using take_bit_nat_eq_self [OF assms(1)] by simp
  then show ?thesis by (simp add: bit_take_bit_iff)
qed

lemma bit_small_numerals:
  "bit (0x1F :: u32) n \<longleftrightarrow> n < 5" "bit (7 :: u32) n \<longleftrightarrow> n < 3" "bit (0xFC :: u32) n \<longleftrightarrow> 2 \<le> n \<and> n < 8"
  "bit (0x80000000 :: u32) n \<longleftrightarrow> n = 31"
proof -
  have "(0x1F :: u32) = mask 5" "(7 :: u32) = mask 3" by (simp_all add: mask_eq_exp_minus_1)
  then show "bit (0x1F :: u32) n \<longleftrightarrow> n < 5" "bit (7 :: u32) n \<longleftrightarrow> n < 3"
    by (simp_all only: bit_mask_iff) auto
  have "(0xFC :: u32) = push_bit 2 (mask 6)" by (simp add: mask_eq_exp_minus_1)
  then show "bit (0xFC :: u32) n \<longleftrightarrow> 2 \<le> n \<and> n < 8" by (simp only: bit_push_bit_iff bit_mask_iff) auto
  have "(0x80000000 :: u32) = push_bit 31 1" by simp
  then show "bit (0x80000000 :: u32) n \<longleftrightarrow> n = 31" by (simp only: bit_push_bit_iff bit_1_iff) auto
qed

lemma bit_shifted_byte: "k \<le> 24 \<Longrightarrow> bit (push_bit k (ucast (w :: u8)) :: u32) n \<longleftrightarrow> k \<le> n \<and> bit w (n - k)"
  using bit_imp_le_length [of w "n - k"] by (auto simp: bit_simps)

lemma bit_low_byte: "bit (ucast (w :: u8) :: u32) n \<longleftrightarrow> bit w n"
  using bit_imp_le_length [of w n] by (auto simp: bit_simps)

lemma bit_config_address:
  "bit (config_address b slot func offset) n \<longleftrightarrow>
     n = 31 \<or> (16 \<le> n \<and> bit b (n - 16)) \<or> (11 \<le> n \<and> bit slot (n - 11)) \<or>
     (8 \<le> n \<and> bit func (n - 8)) \<or> (bit offset n \<and> 2 \<le> n)"
proof -
  have "bit offset n \<Longrightarrow> n < 8" using bit_imp_le_length [of offset n] by simp
  then show ?thesis
    unfolding config_address_def bit_or_iff bit_and_iff bit_low_byte bit_small_numerals
    by (simp only: bit_shifted_byte) auto
qed

lemma bit_masked:
  "bit ((a :: u32) AND 0x1F) n \<longleftrightarrow> bit a n \<and> n < 5" "bit (a AND 7) n \<longleftrightarrow> bit a n \<and> n < 3"
  "bit (a AND 0xFC) n \<longleftrightarrow> bit a n \<and> 2 \<le> n \<and> n < 8"
  unfolding bit_and_iff bit_small_numerals by simp_all

lemma bit_and_FC8: "bit (x AND 0xFC :: u8) n \<longleftrightarrow> bit x n \<and> 2 \<le> n"
proof -
  have "(0xFC :: u8) = push_bit 2 (mask 6)" by (simp add: mask_eq_exp_minus_1)
  then have "bit (0xFC :: u8) n \<longleftrightarrow> 2 \<le> n \<and> n < 8" by (simp only: bit_push_bit_iff bit_mask_iff) auto
  then show ?thesis using bit_imp_le_length [of x n] by (auto simp: bit_and_iff)
qed

lemma decode_config_address:
  assumes "slot < 32" "func < 8"
  shows "decode_address (config_address b slot func offset) = (b, slot, func, offset AND 0xFC)"
proof -
  let ?a = "config_address b slot func offset"
  have s: "bit slot m \<Longrightarrow> m < 5" and f: "bit func m \<Longrightarrow> m < 3" for m
    using small_bits [of slot 5 m] small_bits [of func 3 m] assms by (auto simp: word_less_nat_alt)
  have u: "bit (ucast w :: u8) n \<longleftrightarrow> n < 8 \<and> bit w n" for w :: u32 and n by (auto simp: bit_simps)
  note bits = u bit_masked bit_drop_bit_eq bit_config_address bit_and_FC8 comp_def
  have "ucast (drop_bit 16 ?a) = b"
    by (rule bit_word_eqI, simp only: bits, auto dest: s f bit_imp_le_length)
  moreover have "ucast (drop_bit 11 ?a AND 0x1F) = slot"
    by (rule bit_word_eqI, simp only: bits, auto dest: s f bit_imp_le_length)
  moreover have "ucast (drop_bit 8 ?a AND 7) = func"
    by (rule bit_word_eqI, simp only: bits, auto dest: s f bit_imp_le_length)
  moreover have "ucast (?a AND 0xFC) = offset AND 0xFC"
    by (rule bit_word_eqI, simp only: bits, auto dest: s f bit_imp_le_length)
  ultimately show ?thesis by (simp add: decode_address_def)
qed

section \<open>A host bridge\<close>

text \<open>
  Configuration mechanism 1: the address register latches what is written to port 0xCF8, accesses
  to 0xCFC reach the selected double word of the selected function, and word accesses to 0xCFC and
  0xCFE its halves. The registers are plain storage.
\<close>

record cf8 =
  latch :: u32
  space :: "u8 \<times> u8 \<times> u8 \<Rightarrow> nat \<Rightarrow> u8"

definition selected :: "cf8 \<Rightarrow> (u8 \<times> u8 \<times> u8) \<times> nat" where
  "selected h = (case decode_address (latch h) of (b, s, f, x) \<Rightarrow> ((b, s, f), unat x))"

definition update_selected :: "((nat \<Rightarrow> u8) \<Rightarrow> nat \<Rightarrow> (nat \<Rightarrow> u8)) \<Rightarrow> cf8 \<Rightarrow> cf8" where
  "update_selected g h =
     (case selected h of (k, x) \<Rightarrow> h\<lparr>space := (space h)(k := g (space h k) x)\<rparr>)"

definition cf8_bus :: "cf8 bus" where
  "cf8_bus =
     \<lparr>in8 = (\<lambda>port h. (0xFF, h)), in16 = (\<lambda>port h. (0xFFFF, h)),
      in32 = (\<lambda>port h. (if port = PCI_CONFIG_DATA then case selected h of (k, x) \<Rightarrow> get32 (space h k) x
                         else 0xFFFFFFFF, h)),
      out8 = (\<lambda>port v h. h),
      out16 = (\<lambda>port v h. if port = PCI_CONFIG_DATA then update_selected (\<lambda>f x. set16 f x v) h
                          else if port = PCI_CONFIG_DATA + 2 then update_selected (\<lambda>f x. set16 f (x + 2) v) h
                          else h),
      out32 = (\<lambda>port v h. if port = PCI_CONFIG_ADDRESS then h\<lparr>latch := v\<rparr>
                          else if port = PCI_CONFIG_DATA then update_selected (\<lambda>f x. set32 f x v) h else h),
      mem_load8 = (\<lambda>a h. (0xFF, h)), mem_store8 = (\<lambda>a v h. h),
      mem_load32 = (\<lambda>a h. (0xFFFFFFFF, h)), mem_store32 = (\<lambda>a v h. h),
      interrupt_flag = (\<lambda>h. False), relax = (\<lambda>h. (False, h))\<rparr>"

definition function_key :: "u8 \<Rightarrow> u8 \<Rightarrow> u8 \<Rightarrow> u8 \<times> u8 \<times> u8" where
  "function_key b s f = (case decode_address (config_address b s f 0) of (b', s', f', x) \<Rightarrow> (b', s', f'))"

lemma decode_key:
  "decode_address (config_address b s f x) =
     (case function_key b s f of (b', s', f') \<Rightarrow> (b', s', f', x AND 0xFC))"
proof -
  have u: "bit (ucast w :: u8) n \<longleftrightarrow> n < 8 \<and> bit w n" for w :: u32 and n by (auto simp: bit_simps)
  have z: "\<not> bit (0 :: u8) n" for n by simp
  note bits = u bit_masked bit_drop_bit_eq bit_config_address bit_and_FC8 comp_def
  have "ucast (drop_bit 16 (config_address b s f x)) = (ucast (drop_bit 16 (config_address b s f 0)) :: u8)"
    "ucast (drop_bit 11 (config_address b s f x) AND 0x1F) = (ucast (drop_bit 11 (config_address b s f 0) AND 0x1F) :: u8)"
    "ucast (drop_bit 8 (config_address b s f x) AND 7) = (ucast (drop_bit 8 (config_address b s f 0) AND 7) :: u8)"
    "ucast (config_address b s f x AND 0xFC) = x AND 0xFC"
    by (rule bit_word_eqI, simp only: bits, auto dest: bit_imp_le_length)+
  then show ?thesis by (simp add: function_key_def decode_address_def)
qed

lemma unat_and_FC: "unat (x AND 0xFC :: u8) = 4 * (unat x div 4)"
proof -
  have "bit (push_bit 2 (drop_bit 2 x)) n \<longleftrightarrow> bit x n \<and> 2 \<le> n" for n
  proof (cases "2 \<le> n")
    case True
    then have "Suc (Suc (n - 2)) = n" by arith
    then show ?thesis using True bit_imp_le_length [of x n] by (auto simp: bit_push_bit_iff bit_drop_bit_eq)
  qed (simp add: bit_push_bit_iff)
  then have "x AND 0xFC = push_bit 2 (drop_bit 2 x)"
    by (intro bit_word_eqI) (simp only: bit_and_FC8)
  moreover have "unat x div 4 * 4 < 256" using unsigned_less [of x, where 'a = nat] by simp
  ultimately show ?thesis
    by (simp add: push_bit_eq_mult drop_bit_eq_div unat_word_ariths unat_div_distrib mult.commute)
qed

lemma unat_and_2: "even (unat x) \<Longrightarrow> unat (x AND 2 :: u8) = unat x mod 4"
proof -
  assume e: "even (unat x)"
  have "unat (x AND 2) = unat x AND 2"
    by (simp add: unsigned_and_eq)
  also have "\<dots> = 2 * (unat x div 2 mod 2)"
    by (subst and_rec) (simp add: and_one_eq)
  also have "\<dots> = unat x mod 4" using e by presburger
  finally show ?thesis .
qed

lemma word_of_dword:
  "ucast (get32 f y) = get16 f y" "ucast (drop_bit 16 (get32 f y)) = get16 f (y + 2)"
  by (rule bit_word_eqI; auto simp: get16_def get32_def bit_simps numeral_3_eq_3 dest: bit_imp_le_length)+

lemma run_config:
  fixes s :: "(cf8, 'z) pci_scheme"
  shows "run_state (pci_config_read cf8_bus b sl f x) s =
      (get32 (space (hw s) (function_key b sl f)) (unat (x AND 0xFC)),
       s\<lparr>hw := (hw s)\<lparr>latch := config_address b sl f x\<rparr>\<rparr>)"
  by (simp add: pci_config_read_def access_defs cf8_bus_def selected_def decode_key split: prod.splits)

lemma run_config_write_dword:
  fixes s :: "(cf8, 'z) pci_scheme"
  shows "run_state (pci_config_write_dword cf8_bus b sl f x v) s =
      ((), s\<lparr>hw := (hw s)\<lparr>latch := config_address b sl f x,
         space := (space (hw s))(function_key b sl f :=
           set32 (space (hw s) (function_key b sl f)) (unat (x AND 0xFC)) v)\<rparr>\<rparr>)"
  by (simp add: pci_config_write_dword_def access_defs cf8_bus_def update_selected_def selected_def decode_key
      split: prod.splits)

lemma run_config_write_word:
  fixes s :: "(cf8, 'z) pci_scheme"
  assumes "even (unat x)"
  shows "run_state (pci_config_write_word cf8_bus b sl f x v) s =
      ((), s\<lparr>hw := (hw s)\<lparr>latch := config_address b sl f x,
         space := (space (hw s))(function_key b sl f := set16 (space (hw s) (function_key b sl f)) (unat x) v)\<rparr>\<rparr>)"
proof -
  have "unat x mod 4 = 0 \<or> unat x mod 4 = 2" using assms by presburger
  then show ?thesis
  proof
    assume m: "unat x mod 4 = 0"
    then have "x AND 2 = 0" "unat (x AND 0xFC) = unat x"
      using unat_and_2 [OF assms] unat_and_FC [of x] by (auto simp: unat_eq_0)
    then show ?thesis
      by (simp add: pci_config_write_word_def access_defs cf8_bus_def update_selected_def selected_def decode_key
          split: prod.splits)
  next
    assume m: "unat x mod 4 = 2"
    then have "x AND 2 = 2" "unat (x AND 0xFC) + 2 = unat x"
      using unat_and_2 [OF assms] unat_and_FC [of x] mult_div_mod_eq [of 4 "unat x"]
      by (auto simp: word_unat_eq_iff)
    then show ?thesis
      by (simp add: pci_config_write_word_def access_defs cf8_bus_def update_selected_def selected_def decode_key
          split: prod.splits)
  qed
qed

lemma run_config_read_word:
  fixes s :: "(cf8, 'z) pci_scheme"
  assumes "even (unat x)"
  shows "run_state (pci_config_read_word cf8_bus b sl f x) s =
      (get16 (space (hw s) (function_key b sl f)) (unat x),
       s\<lparr>hw := (hw s)\<lparr>latch := config_address b sl f x\<rparr>\<rparr>)"
proof -
  have "unat x mod 4 = 0 \<or> unat x mod 4 = 2" using assms by presburger
  then show ?thesis
  proof
    assume m: "unat x mod 4 = 0"
    then have "unat (x AND 2) = 0" "unat (x AND 0xFC) = unat x"
      using unat_and_2 [OF assms] unat_and_FC [of x] by auto
    then show ?thesis by (simp add: pci_config_read_word_def run_config word_of_dword)
  next
    assume m: "unat x mod 4 = 2"
    then have "unat (x AND 2) = 2" "unat x = unat (x AND 0xFC) + 2"
      using unat_and_2 [OF assms] unat_and_FC [of x] mult_div_mod_eq [of 4 "unat x"] by linarith+
    then show ?thesis using word_of_dword(2) by (simp add: pci_config_read_word_def run_config)
  qed
qed

interpretation cf8_space: config_space "pci_msi_io cf8_bus b sl f" "\<lambda>s. space (hw s) (function_key b sl f)" "\<lambda>_. True"
  for b sl f
proof
  fix c :: "(cf8, 'a) pci_scheme" and x v c'
  assume "even (unat x)" "run_state (read_word (pci_msi_io cf8_bus b sl f) x) c = (v, c')"
  then show "True \<and> space (hw c') (function_key b sl f) = space (hw c) (function_key b sl f) \<and>
      v = get16 (space (hw c) (function_key b sl f)) (unat x)"
    by (auto simp: pci_msi_io_def run_config_read_word)
next
  fix c :: "(cf8, 'a) pci_scheme" and x w c'
  assume "unat x mod 4 = 0" "run_state (read_dword (pci_msi_io cf8_bus b sl f) x) c = (w, c')"
  then show "True \<and> space (hw c') (function_key b sl f) = space (hw c) (function_key b sl f) \<and>
      w = get32 (space (hw c) (function_key b sl f)) (unat x)"
    using unat_and_FC [of x] by (auto simp: pci_msi_io_def run_config)
next
  fix c :: "(cf8, 'a) pci_scheme" and x v u c'
  assume "even (unat x)" "run_state (write_word (pci_msi_io cf8_bus b sl f) x v) c = (u, c')"
  then show "True \<and> space (hw c') (function_key b sl f) = set16 (space (hw c) (function_key b sl f)) (unat x) v"
    by (auto simp: pci_msi_io_def run_config_write_word)
next
  fix c :: "(cf8, 'a) pci_scheme" and x w u c'
  assume "unat x mod 4 = 0" "run_state (write_dword (pci_msi_io cf8_bus b sl f) x w) c = (u, c')"
  then show "True \<and> space (hw c') (function_key b sl f) = set32 (space (hw c) (function_key b sl f)) (unat x) w"
    using unat_and_FC [of x] by (auto simp: pci_msi_io_def run_config_write_dword)
qed

section \<open>Message-signalled interrupts of the AHCI controller\<close>

lemma read_configuration_bytes:
  fixes s :: "(cf8, 'z) pci_scheme"
  assumes "a \<le> b" "b \<le> 64"
  shows "\<exists>l. run_state (read_configuration cf8_bus dev (map (\<lambda>i. 4 * i) [a ..< b])) s =
    (map (space (hw s) (function_key (dev_bus dev) (dev_slot dev) (dev_function dev))) [4 * a ..< 4 * b],
     s\<lparr>hw := (hw s)\<lparr>latch := l\<rparr>\<rparr>)"
  using assms
proof (induction "b - a" arbitrary: a s)
  case 0
  then show ?case by (intro exI [of _ "latch (hw s)"]) simp
next
  case (Suc n)
  let ?f = "space (hw s) (function_key (dev_bus dev) (dev_slot dev) (dev_function dev))"
  have n: "n = b - Suc a" "Suc a \<le> b" and cons: "[a ..< b] = a # [Suc a ..< b]"
    using Suc.hyps(2) Suc.prems by (auto simp: upt_conv_Cons)
  have "unat (of_nat (4 * a) :: u8) = 4 * a" using n Suc.prems by (intro u8_of_nat) simp
  then have off: "unat (of_nat (4 * a) AND 0xFC :: u8) = 4 * a"
    by (simp only: unat_and_FC nonzero_mult_div_cancel_left)
  have bytes: "map ?f [4 * a ..< 4 * b] =
      ?f (4 * a) # ?f (4 * a + 1) # ?f (4 * a + 2) # ?f (4 * a + 3) # map ?f [4 * Suc a ..< 4 * b]"
    using n by (simp add: upt_conv_Cons numeral_eq_Suc)
  let ?s1 = "s\<lparr>hw := (hw s)\<lparr>latch := config_address (dev_bus dev) (dev_slot dev) (dev_function dev) (of_nat (4 * a))\<rparr>\<rparr>"
  obtain l where "run_state (read_configuration cf8_bus dev (map (\<lambda>i. 4 * i) [Suc a ..< b])) ?s1 =
      (map ?f [4 * Suc a ..< 4 * b], ?s1\<lparr>hw := (hw ?s1)\<lparr>latch := l\<rparr>\<rparr>)"
    using Suc.hyps(1) [OF n(1) n(2) Suc.prems(2), of ?s1] by auto
  then show ?case
    unfolding cons bytes using off
    by (intro exI [of _ l]) (simp add: run_config bytes_get32 del: of_nat_mult of_nat_numeral)
qed

lemma keeps_config:
  assumes "\<And>s h. I s \<Longrightarrow> I (s\<lparr>hw := h\<rparr>)"
  shows "keeps I (pci_config_read io b sl f x)" "keeps I (pci_config_read_word io b sl f x)"
    "keeps I (pci_config_write_word io b sl f x v)" "keeps I (pci_config_write_dword io b sl f x w)"
  unfolding pci_config_read_word_def pci_config_read_def pci_config_write_word_def pci_config_write_dword_def access_defs
  by (intro keeps_rules keeps_on_hw assms; assumption)+

text \<open>The part of the driver state the MSI functions of the lower layer leave alone.\<close>

definition pci_tables :: "('h, 'z) pci_scheme \<Rightarrow> _" where
  "pci_tables s = (devices s, device_count s, ahci_msi_state s, ahci_msi_bus s, ahci_msi_slot s, ahci_msi_function s)"

lemma keeps_msi_tables:
  "keeps (\<lambda>s. pci_tables s = T) (pci_msi_program l (pci_msi_io io b sl f) a d st)"
  "keeps (\<lambda>s. pci_tables s = T) (pci_msi_restore (pci_msi_io io b sl f) st)"
proof -
  let ?I = "\<lambda>s. pci_tables s = T"
  have io: "keeps ?I (read_word (pci_msi_io io b sl f) x)" "keeps ?I (read_dword (pci_msi_io io b sl f) x)"
    "keeps ?I (write_word (pci_msi_io io b sl f) x v)" "keeps ?I (write_dword (pci_msi_io io b sl f) x w)" for x v w
    by (simp_all add: pci_msi_io_def keeps_config pci_tables_def)
  note defs = pci_msi_program_def pci_msi_restore_def msi_save_def msi_install_def put_word_def put_dword_def
    word_is_def dword_is_def Let_def
  show r: "keeps ?I (pci_msi_restore (pci_msi_io io b sl f) st)" for st
    unfolding defs by (intro keeps_rules io)
  show "keeps ?I (pci_msi_program l (pci_msi_io io b sl f) a d st)"
    unfolding pci_msi_program_def by (intro keeps_rules r) (unfold defs, (intro keeps_rules io)+)
qed

text \<open>What a successful activation went through.\<close>

lemma enable_msi_steps:
  assumes "run_state (pci_enable_ahci_msi io (Some i) apic_id vector) s = (True, s1)"
  shows "\<exists>address data conf l st s0 c1. pci_msi_xapic_address apic_id = Some address \<and>
    pci_msi_fixed_data vector = Some data \<and> saved_valid (ahci_msi_state s) = 0 \<and> ahci_usable (Some i) s \<and>
    run_state (pci_read_configuration io (devices s ! i)) s = (conf, s0) \<and>
    pci_msi_parse_layout (Some conf) 256 = Msi_found l \<and>
    run_state (pci_msi_program l (pci_msi_io io (dev_bus (devices s ! i)) (dev_slot (devices s ! i))
      (dev_function (devices s ! i))) address data (ahci_msi_state s)) s0 = ((True, st), c1) \<and>
    s1 = (if saved_valid st \<noteq> 0
          then c1\<lparr>ahci_msi_state := st, ahci_msi_bus := dev_bus (devices s ! i),
                  ahci_msi_slot := dev_slot (devices s ! i), ahci_msi_function := dev_function (devices s ! i)\<rparr>
          else c1\<lparr>ahci_msi_state := st\<rparr>)"
proof -
  obtain address data where ad: "pci_msi_xapic_address apic_id = Some address" "pci_msi_fixed_data vector = Some data"
    and st: "saved_valid (ahci_msi_state s) = 0" and us: "ahci_usable (Some i) s"
    using assms by (auto simp: pci_enable_ahci_msi_def split: if_splits option.splits)
  let ?dev = "devices s ! i"
  obtain conf s0 where rc: "run_state (pci_read_configuration io ?dev) s = (conf, s0)" by fastforce
  obtain l where l: "pci_msi_parse_layout (Some conf) 256 = Msi_found l"
    using assms ad st us rc by (cases "pci_msi_parse_layout (Some conf) 256") (simp_all add: pci_enable_ahci_msi_def)
  obtain r st' c1 where p: "run_state (pci_msi_program l (pci_msi_io io (dev_bus ?dev) (dev_slot ?dev)
      (dev_function ?dev)) address data (ahci_msi_state s)) s0 = ((r, st'), c1)"
    by (metis surj_pair)
  have r: "r = True" and s1: "s1 = (if saved_valid st' \<noteq> 0
      then c1\<lparr>ahci_msi_state := st', ahci_msi_bus := dev_bus ?dev, ahci_msi_slot := dev_slot ?dev,
              ahci_msi_function := dev_function ?dev\<rparr>
      else c1\<lparr>ahci_msi_state := st'\<rparr>)"
    using assms ad st us rc l p by (auto simp: pci_enable_ahci_msi_def split: if_splits)
  show ?thesis using ad st us rc l p [unfolded r] s1 by blast
qed

lemma enable_msi_succeeds:
  assumes "ahci_usable (Some i) s" "saved_valid (ahci_msi_state s) = 0"
    "pci_msi_xapic_address apic_id = Some address" "pci_msi_fixed_data vector = Some data"
    "run_state (pci_read_configuration io (devices s ! i)) s = (conf, s0)"
    "pci_msi_parse_layout (Some conf) 256 = Msi_found l"
    "run_state (pci_msi_program l (pci_msi_io io (dev_bus (devices s ! i)) (dev_slot (devices s ! i))
      (dev_function (devices s ! i))) address data (ahci_msi_state s)) s0 = ((True, st), c1)"
  shows "\<exists>s1. run_state (pci_enable_ahci_msi io (Some i) apic_id vector) s = (True, s1)"
  using assms by (simp add: pci_enable_ahci_msi_def)

lemma program_success_guards:
  assumes "run_state (pci_msi_program l io address data st) c = ((True, st'), c')"
  shows "valid_layout l" "saved_valid st = 0" "address AND 0xFFF00FFF = PCI_XAPIC_MESSAGE_BASE"
    "0x20 \<le> data" "data \<le> 0xFE"
  using assms by (auto simp: pci_msi_program_def linorder_not_less split: if_splits)

text \<open>C22: On a host bridge with plain configuration registers, an AHCI controller whose
  message-signalled interrupts were activated by pci_enable_ahci_msi gets its whole configuration
  space back from pci_disable_ahci_msi, which succeeds and releases the saved state.\<close>
theorem ahci_msi_roundtrip:
  fixes s :: "cf8 pci"
  assumes "run_state (pci_enable_ahci_msi cf8_bus (Some i) apic_id vector) s = (True, s1)"
  shows "\<exists>s2. run_state (pci_disable_ahci_msi cf8_bus (Some i)) s1 = (True, s2) \<and>
    space (hw s2) (function_key (dev_bus (devices s ! i)) (dev_slot (devices s ! i)) (dev_function (devices s ! i))) =
    space (hw s) (function_key (dev_bus (devices s ! i)) (dev_slot (devices s ! i)) (dev_function (devices s ! i))) \<and>
    saved_valid (ahci_msi_state s2) = 0"
proof -
  let ?dev = "devices s ! i"
  let ?io = "pci_msi_io cf8_bus (dev_bus ?dev) (dev_slot ?dev) (dev_function ?dev)"
  let ?key = "function_key (dev_bus ?dev) (dev_slot ?dev) (dev_function ?dev)"
  let ?cfg = "space (hw s) ?key"
  obtain address data conf l st s0 c1 where
    us: "ahci_usable (Some i) s"
    and rc: "run_state (pci_read_configuration cf8_bus ?dev) s = (conf, s0)"
    and l: "pci_msi_parse_layout (Some conf) 256 = Msi_found l"
    and p: "run_state (pci_msi_program l ?io address data (ahci_msi_state s)) s0 = ((True, st), c1)"
    and s1: "s1 = (if saved_valid st \<noteq> 0
          then c1\<lparr>ahci_msi_state := st, ahci_msi_bus := dev_bus ?dev,
                  ahci_msi_slot := dev_slot ?dev, ahci_msi_function := dev_function ?dev\<rparr>
          else c1\<lparr>ahci_msi_state := st\<rparr>)"
    using enable_msi_steps [OF assms] by blast
  obtain la where "run_state (read_configuration cf8_bus ?dev (map (\<lambda>i. 4 * i) [0 ..< 64])) s =
      (map ?cfg [4 * 0 ..< 4 * 64], s\<lparr>hw := (hw s)\<lparr>latch := la\<rparr>\<rparr>)"
    using read_configuration_bytes [of 0 64 ?dev s] by auto
  then have conf: "conf = map ?cfg [0 ..< 256]" and s0: "s0 = s\<lparr>hw := (hw s)\<lparr>latch := la\<rparr>\<rparr>"
    using rc by (simp_all add: pci_read_configuration_def)
  obtain x where x: "valid_capability_pointer x" "parse_msi_capability conf x = Msi_found l"
    using found_layout [OF l] by blast
  obtain k wide per_vector where la: "l = layout_at x k wide per_vector" "k \<le> 7" "layout_end x wide per_vector \<le> 256"
    "wide = (msi_read_u16 conf (x + 2) AND PCI_MSI_CONTROL_64_BIT \<noteq> 0)"
    "per_vector = (msi_read_u16 conf (x + 2) AND PCI_MSI_CONTROL_PER_VECTOR_MASKING \<noteq> 0)"
    using parse_layout_at [OF x(2)] by blast
  have ctl: "msi_read_u16 conf (x + 2) = get16 ?cfg (x + 2)"
    using x(1) by (simp add: conf msi_read_u16_def get16_def valid_capability_pointer_def)
  note g = program_success_guards [OF p]
  have prog: "hoare (\<lambda>c. True \<and> space (hw c) ?key = ?cfg) (pci_msi_program l ?io address data (ahci_msi_state s))
      (\<lambda>r c. r = (True, msi_saved x k wide per_vector ?cfg) \<and>
        (True \<and> space (hw c) ?key = msi_installed x wide per_vector address data ?cfg))"
    unfolding la(1) by (rule cf8_space.program_h) (use x la ctl g in simp_all)
  have st: "st = msi_saved x k wide per_vector ?cfg"
    and c1: "space (hw c1) ?key = msi_installed x wide per_vector address data ?cfg"
    using hoareD [OF prog _ p] s0 by auto
  have tables: "pci_tables c1 = pci_tables s0" using keepsD [OF keeps_msi_tables(1) refl p] .
  then have rec: "pci_device_is_recorded (Some i) s1" "devices s1 ! i = ?dev"
    using us s0 s1 by (auto simp: pci_tables_def ahci_usable_def pci_device_is_recorded_def)
  have owner: "ahci_msi_state s1 = st" "saved_valid st \<noteq> 0"
    "(ahci_msi_bus s1, ahci_msi_slot s1, ahci_msi_function s1) = (dev_bus ?dev, dev_slot ?dev, dev_function ?dev)"
    using s1 st by (auto simp: msi_saved_def)
  obtain r s2 where r: "run_state (pci_msi_restore ?io st) s1 = (r, s2)" by fastforce
  have rest: "hoare (\<lambda>c. True \<and> space (hw c) ?key = msi_installed x wide per_vector address data ?cfg)
      (pci_msi_restore ?io st) (\<lambda>r c. r = (True, clear_saved_state) \<and> (True \<and> space (hw c) ?key = ?cfg))"
    unfolding st by (rule cf8_space.restore_h [OF x(1) la(3,2) installed_outside])
  have "space (hw s1) ?key = msi_installed x wide per_vector address data ?cfg"
    using c1 s1 by simp
  then have "r = (True, clear_saved_state)" "space (hw s2) ?key = ?cfg" using hoareD [OF rest _ r] by auto
  then show ?thesis
    using r rec owner by (simp add: pci_disable_ahci_msi_def clear_saved_state_def)
qed

definition msi_controller :: pci_device where
  "msi_controller =
     \<lparr>dev_bus = 0, dev_slot = 31, dev_function = 2, vendor_id = 0x8086, device_id = 0x2922, class_code = 1,
      sub_class = 6, prog_if = 1, revision = 2, interrupt_line = 10, header_type = 0,
      bars = replicate 5 empty_bar @ [\<lparr>base_low = 0xFEBF1000, base_high = 0, bar_flags = 0, bar_type = PCI_BAR_MEMORY32\<rparr>]\<rparr>"

definition msi_machine :: "pmm \<Rightarrow> cf8 pci" where
  "msi_machine p =
     \<lparr>hw = \<lparr>latch = 0, space = (\<lambda>_. mock_bytes prepare_masked_64_bit)\<rparr>, frames = p,
      devices = [msi_controller], device_count = 1, ahci_msi_state = clear_saved_state,
      ahci_msi_bus = 0, ahci_msi_slot = 0, ahci_msi_function = 0\<rparr>"

lemma mock_layout:
  "pci_msi_parse_layout (Some (map (mock_bytes prepare_masked_64_bit) [0 ..< 256])) 256 =
     Msi_found (layout_at 0x50 2 True True)"
proof -
  let ?c = "map (mock_bytes prepare_masked_64_bit) [0 ..< 256]"
  have b: "?c ! 0x34 = 0x50" "?c ! 0x50 = 5" "?c ! 6 = 0x10" "?c ! 7 = 0" "?c ! 0x52 = 0x85" "?c ! 0x53 = 1"
    by (simp_all add: prepare_masked_64_bit_def Let_def set16_def set32_def)
  have "walk_capabilities PCI_CAPABILITY_MAXIMUM_NODES ?c 0x50 0 0 = parse_msi_capability ?c 0x50"
    using walk_finds [of ?c "0x50" 0 PCI_CAPABILITY_MAXIMUM_NODES 0 0] b
    by (simp add: valid_capability_pointer_def slot_visited_def)
  moreover have "parse_msi_capability ?c 0x50 = Msi_found (layout_at 0x50 2 True True)"
    using b by (simp add: parse_msi_capability_def msi_read_u16_def layout_at_def Let_def)
  ultimately show ?thesis using b by (simp add: pci_msi_parse_layout_def msi_read_u16_def Let_def)
qed

theorem ahci_msi_roundtrip_witness:
  "\<exists>s1 s2 p. run_state (pci_enable_ahci_msi cf8_bus (Some 0) 1 0x45) (msi_machine p) = (True, s1) \<and>
     run_state (pci_disable_ahci_msi cf8_bus (Some 0)) s1 = (True, s2)"
proof -
  fix p :: pmm
  let ?s = "msi_machine p"
  let ?dev = "devices ?s ! 0"
  let ?io = "pci_msi_io cf8_bus (dev_bus ?dev) (dev_slot ?dev) (dev_function ?dev)"
  let ?key = "function_key (dev_bus ?dev) (dev_slot ?dev) (dev_function ?dev)"
  let ?cfg = "mock_bytes prepare_masked_64_bit"
  obtain la where rc: "run_state (pci_read_configuration cf8_bus ?dev) ?s = (map ?cfg [0 ..< 256], ?s\<lparr>hw := (hw ?s)\<lparr>latch := la\<rparr>\<rparr>)"
    using read_configuration_bytes [of 0 64 ?dev ?s] by (auto simp: pci_read_configuration_def msi_machine_def)
  let ?latched = "?s\<lparr>hw := (hw ?s)\<lparr>latch := la\<rparr>\<rparr>"
  have c: "get16 ?cfg 82 = 0x185" by (simp add: prepare_masked_64_bit_def Let_def get_other)
  have prog: "hoare (\<lambda>c. True \<and> space (hw c) ?key = ?cfg)
      (pci_msi_program (layout_at 0x50 2 True True) ?io 0xFEE01000 0x45 (ahci_msi_state ?s))
      (\<lambda>r c. r = (True, msi_saved 0x50 2 True True ?cfg) \<and>
        (True \<and> space (hw c) ?key = msi_installed 0x50 True True 0xFEE01000 0x45 ?cfg))"
    by (rule cf8_space.program_h)
      (simp_all add: valid_capability_pointer_def layout_end_def msi_machine_def clear_saved_state_def c)
  obtain r c1 where r: "run_state (pci_msi_program (layout_at 0x50 2 True True) ?io 0xFEE01000 0x45 (ahci_msi_state ?s)) ?latched = (r, c1)"
    by fastforce
  have "r = (True, msi_saved 0x50 2 True True ?cfg)"
    using hoareD [OF prog _ r] by (simp add: msi_machine_def)
  then have run: "run_state (pci_msi_program (layout_at 0x50 2 True True) ?io 0xFEE01000 0x45 (ahci_msi_state ?s)) ?latched =
      ((True, msi_saved 0x50 2 True True ?cfg), c1)" using r by simp
  have us: "ahci_usable (Some 0) ?s"
    by (simp add: ahci_usable_def pci_device_is_recorded_def msi_machine_def msi_controller_def pci_ahci_mmio_base_def
        nth_append Let_def)
  have st: "saved_valid (ahci_msi_state ?s) = 0" by (simp add: msi_machine_def clear_saved_state_def)
  have ad: "pci_msi_xapic_address 1 = Some 0xFEE01000" "pci_msi_fixed_data 0x45 = Some 0x45"
    by (simp_all add: pci_msi_xapic_address_def pci_msi_fixed_data_def)
  have "\<exists>s1. run_state (pci_enable_ahci_msi cf8_bus (Some 0) 1 0x45) ?s = (True, s1)"
    by (rule enable_msi_succeeds [OF us st ad rc mock_layout run])
  then show ?thesis using ahci_msi_roundtrip by blast
qed

section \<open>The device table\<close>

definition bar_ok :: "pci_bar \<Rightarrow> bool" where
  "bar_ok bar = (case bar_type bar of
     PCI_BAR_UNUSED \<Rightarrow> True | PCI_BAR_IO \<Rightarrow> base_low bar AND 3 = 0 | _ \<Rightarrow> base_low bar AND 15 = 0)"

definition bars_ok :: "pci_bar list \<Rightarrow> bool" where
  "bars_ok bs \<longleftrightarrow> length bs = PCI_MAX_BARS \<and> list_all bar_ok bs"

definition dev_key :: "pci_device \<Rightarrow> nat" where
  "dev_key dev = unat (dev_bus dev) * 256 + unat (dev_slot dev) * 8 + unat (dev_function dev)"

definition pci_buffers :: "('h, 'z) pci_scheme \<Rightarrow> bool" where
  "pci_buffers s \<longleftrightarrow> length (devices s) = PCI_MAX_DEVICES \<and> list_all (\<lambda>dev. bars_ok (bars dev)) (devices s)"

text \<open>The devices recorded so far are those below the position \<open>k\<close> of the scan, in scan order.\<close>

definition table_ok :: "nat \<Rightarrow> ('h, 'z) pci_scheme \<Rightarrow> bool" where
  "table_ok k s \<longleftrightarrow> pci_buffers s \<and> device_count s \<le> PCI_MAX_DEVICES \<and>
     sorted_wrt (<) (map dev_key (take (device_count s) (devices s))) \<and>
     (\<forall>dev \<in> set (take (device_count s) (devices s)). dev_key dev < k)"








lemma table_ok_hw [simp]: "table_ok k (s\<lparr>hw := h\<rparr>) \<longleftrightarrow> table_ok k s"
  by (simp add: table_ok_def pci_buffers_def)












text \<open>The address pci_config_read writes to the address register decodes to exactly the bus,
  slot, function and double word it was asked for.\<close>
theorem config_address_roundtrip:
  assumes "slot < 32" and "func < 8"
  shows "decode_address (config_address b slot func offset) = (b, slot, func, offset AND 0xFC)"
  using assms by (rule decode_config_address)

theorem config_address_roundtrip_witness:
  "decode_address (config_address 3 31 7 0x3D) = (3, 31, 7, 0x3C)"
  using config_address_roundtrip [of 31 7 3 "0x3D"] by simp

end
