(* ===== verification/BlockDevice.thy ===== *)
theory BlockDevice
  imports Effects
begin

text \<open>
  The block layer of \<open>drivers/block_device.c\<close>. A device carries its driver's callbacks, here
  functions on the driver's state; the callback context is part of the function. Buffers are
  results and arguments of the callbacks, a null buffer is the flag \<open>buffer\<close> being false or the
  data being absent.
\<close>

abbreviation BLOCK_DEVICE_MAGIC :: u32 where "BLOCK_DEVICE_MAGIC \<equiv> 0x424C4B44"
abbreviation BLOCK_DEVICE_SECTOR_SIZE :: u16 where "BLOCK_DEVICE_SECTOR_SIZE \<equiv> 512"
abbreviation BLOCK_DEVICE_TRANSFER_MAX :: u32 where "BLOCK_DEVICE_TRANSFER_MAX \<equiv> 128"

type_synonym 's block_read_fn = "u64 \<Rightarrow> u32 \<Rightarrow> ('s, bytes option) state"
type_synonym 's block_write_fn = "u64 \<Rightarrow> u32 \<Rightarrow> bytes \<Rightarrow> ('s, bool) state"

record 's block_device =
  magic :: u32
  sector_count :: u64
  sector_size :: u16
  max_transfer_sectors :: u32
  read_fn :: "'s block_read_fn option"
  write_fn :: "'s block_write_fn option"

definition block_device_reset :: "'s block_device" where
  "block_device_reset = \<lparr>magic = 0, sector_count = 0, sector_size = 0, max_transfer_sectors = 0,
     read_fn = None, write_fn = None\<rparr>"

definition block_device_configure :: "u64 \<Rightarrow> u16 \<Rightarrow> u32 \<Rightarrow> 's block_read_fn option \<Rightarrow> 's block_write_fn option \<Rightarrow>
    bool \<times> 's block_device" where
  "block_device_configure sectors ssize max_transfer rd wr =
     (if sectors = 0 \<or> ssize \<noteq> BLOCK_DEVICE_SECTOR_SIZE \<or> max_transfer = 0 \<or>
         max_transfer > BLOCK_DEVICE_TRANSFER_MAX \<or> rd = None
      then (False, block_device_reset)
      else (True, \<lparr>magic = BLOCK_DEVICE_MAGIC, sector_count = sectors, sector_size = ssize,
                   max_transfer_sectors = max_transfer, read_fn = rd, write_fn = wr\<rparr>))"

definition block_device_is_ready :: "'s block_device option \<Rightarrow> bool" where
  "block_device_is_ready device =
     (case device of None \<Rightarrow> False
      | Some d \<Rightarrow> magic d = BLOCK_DEVICE_MAGIC \<and> sector_count d \<noteq> 0 \<and>
          sector_size d = BLOCK_DEVICE_SECTOR_SIZE \<and> max_transfer_sectors d \<noteq> 0 \<and>
          max_transfer_sectors d \<le> BLOCK_DEVICE_TRANSFER_MAX \<and> read_fn d \<noteq> None)"

definition block_device_can_write :: "'s block_device option \<Rightarrow> bool" where
  "block_device_can_write device \<longleftrightarrow> block_device_is_ready device \<and> write_fn (the device) \<noteq> None"

definition block_device_sector_count :: "'s block_device option \<Rightarrow> u64" where
  "block_device_sector_count device = (if block_device_is_ready device then sector_count (the device) else 0)"

definition request_is_valid :: "'s block_device option \<Rightarrow> u64 \<Rightarrow> u32 \<Rightarrow> bool \<Rightarrow> bool" where
  "request_is_valid device lba count buffer \<longleftrightarrow>
     block_device_is_ready device \<and> buffer \<and> count \<noteq> 0 \<and>
     count \<le> max_transfer_sectors (the device) \<and> lba < sector_count (the device) \<and>
     ucast count \<le> sector_count (the device) - lba"

definition block_device_read :: "'s block_device option \<Rightarrow> u64 \<Rightarrow> u32 \<Rightarrow> bool \<Rightarrow> ('s, bytes option) state" where
  "block_device_read device lba count buffer =
     (if \<not> request_is_valid device lba count buffer then return None
      else the (read_fn (the device)) lba count)"

definition block_device_write :: "'s block_device option \<Rightarrow> u64 \<Rightarrow> u32 \<Rightarrow> bytes option \<Rightarrow> ('s, bool) state" where
  "block_device_write device lba count buffer =
     (if \<not> request_is_valid device lba count (buffer \<noteq> None) \<or> write_fn (the device) = None then return False
      else the (write_fn (the device)) lba count (the buffer))"

section \<open>Properties\<close>

text \<open>The range check in 64-bit arithmetic is the one in unbounded arithmetic.\<close>

lemma range_check:
  fixes lba total :: u64 and count :: u32
  shows "lba < total \<and> ucast count \<le> total - lba \<longleftrightarrow>
    unat lba < unat total \<and> unat lba + unat count \<le> unat total"
  by (auto simp: word_less_nat_alt word_le_nat_alt unat_ucast_u64 unat_sub)

definition in_device :: "u64 \<Rightarrow> u32 \<Rightarrow> 's block_device \<Rightarrow> bool" where
  "in_device lba count d \<longleftrightarrow> 0 < unat count \<and> unat count \<le> unat (max_transfer_sectors d) \<and>
     unat lba + unat count \<le> unat (sector_count d)"

text \<open>C28: A configured block device passes a request on to its driver exactly when the request is
  for at least one and at most the maximal number of sectors and lies inside the device, computed
  without wrap-around; any other request fails without reaching the driver.\<close>
theorem block_device_gate:
  assumes "block_device_configure sectors ssize max_transfer (Some rd) wr = (True, d)"
  shows "block_device_read (Some d) lba count True =
      (if in_device lba count d then rd lba count else return None) \<and>
    block_device_write (Some d) lba count (Some data) =
      (if in_device lba count d \<and> wr \<noteq> None then the wr lba count data else return False)"
proof -
  have d: "block_device_is_ready (Some d)" "read_fn d = Some rd" "write_fn d = wr" "sector_count d = sectors"
    using assms by (auto simp: block_device_configure_def block_device_is_ready_def split: if_splits)
  have "request_is_valid (Some d) lba count True \<longleftrightarrow> in_device lba count d"
    using d(1) range_check [of lba "sector_count d" count] unat_eq_0 [of count]
    by (auto simp: request_is_valid_def in_device_def word_le_nat_alt)
  then show ?thesis using d by (simp add: block_device_read_def block_device_write_def)
qed

definition echo_read :: "unit block_read_fn" where
  "echo_read lba count = return (Some (replicate (512 * unat count) 0))"

theorem block_device_gate_witness:
  "block_device_read (Some (snd (block_device_configure 100 512 64 (Some echo_read) None))) 98 2 True = echo_read 98 2 \<and>
   block_device_read (Some (snd (block_device_configure 100 512 64 (Some echo_read) None))) 99 2 True = return None"
  using block_device_gate [of 100 512 64 echo_read None "snd (block_device_configure 100 512 64 (Some echo_read) None)" 98 2]
    block_device_gate [of 100 512 64 echo_read None "snd (block_device_configure 100 512 64 (Some echo_read) None)" 99 2]
  by (simp add: block_device_configure_def in_device_def)

end
