(* ===== verification/AtaDma.thy ===== *)
theory AtaDma
  imports Pci
begin

text \<open>
  The helpers of the ATA driver that touch no hardware: the bus-master descriptors and mode
  selection of \<open>drivers/ata_dma.c\<close> and the interrupt bookkeeping of \<open>drivers/ata_irq_state.c\<close>.
\<close>

section \<open>Physical region descriptors\<close>

abbreviation ATA_DMA_BOUNDARY :: u32 where "ATA_DMA_BOUNDARY \<equiv> 0x10000"
abbreviation ATA_DMA_PRD_END :: u16 where "ATA_DMA_PRD_END \<equiv> 0x8000"
abbreviation ATA_DMA_STATUS_ACTIVE :: u8 where "ATA_DMA_STATUS_ACTIVE \<equiv> 1"
abbreviation ATA_DMA_STATUS_ERROR :: u8 where "ATA_DMA_STATUS_ERROR \<equiv> 2"
abbreviation ATA_DMA_STATUS_INTERRUPT :: u8 where "ATA_DMA_STATUS_INTERRUPT \<equiv> 4"

record ata_dma_prd =
  physical_base :: u32
  byte_count :: u16
  prd_flags :: u16

definition ata_dma_prepare_prd :: "u32 \<Rightarrow> u32 \<Rightarrow> ata_dma_prd option" where
  "ata_dma_prepare_prd base count =
     (if base AND 3 \<noteq> 0 \<or> count = 0 \<or> count > ATA_DMA_BOUNDARY then None
      else let boundary_remaining = ATA_DMA_BOUNDARY - (base AND (ATA_DMA_BOUNDARY - 1)) in
        if count > boundary_remaining then None
        else Some \<lparr>physical_base = base,
                   byte_count = (if count = ATA_DMA_BOUNDARY then 0 else ucast count),
                   prd_flags = ATA_DMA_PRD_END\<rparr>)"

definition ata_dma_controller_base :: "pci_device \<Rightarrow> u16 option" where
  "ata_dma_controller_base dev =
     (if header_type dev AND 0x7F \<noteq> 0 \<or> class_code dev \<noteq> 1 \<or> sub_class dev \<noteq> 1 \<or>
         prog_if dev AND 0x80 = 0 \<or> prog_if dev AND 1 \<noteq> 0 then None
      else let bar = bars dev ! 4 in
        if bar_type bar \<noteq> PCI_BAR_IO \<or> bar_flags bar AND 1 = 0 \<or> base_low bar < 0x0100 \<or>
           base_low bar > 0xFFF0 \<or> base_low bar AND 0x0F \<noteq> 0 then None
        else Some (ucast (base_low bar)))"

fun select_mode :: "u16 \<Rightarrow> nat \<Rightarrow> u8 option" where
  "select_mode supported 0 = None"
| "select_mode supported (Suc candidate) =
     (if supported AND push_bit candidate 1 \<noteq> 0 then Some (0x20 + of_nat candidate)
      else select_mode supported candidate)"

definition ata_dma_select_multiword_mode :: "u16 \<Rightarrow> u16 \<Rightarrow> u8 option" where
  "ata_dma_select_multiword_mode capabilities multiword_dma =
     (if capabilities AND 0x0100 = 0 then None else select_mode (multiword_dma AND 7) 3)"

definition ata_dma_status_is_complete :: "u8 \<Rightarrow> bool" where
  "ata_dma_status_is_complete status \<longleftrightarrow>
     status AND (ATA_DMA_STATUS_ACTIVE OR ATA_DMA_STATUS_ERROR OR ATA_DMA_STATUS_INTERRUPT) = ATA_DMA_STATUS_INTERRUPT"

section \<open>Interrupt bookkeeping\<close>

datatype ata_observation = ATA_IRQ_OBSERVE_ERROR | ATA_IRQ_OBSERVE_NONE | ATA_IRQ_OBSERVE_READY | ATA_IRQ_OBSERVE_PENDING

record ata_irq_state =
  irq_sequence :: u32
  irq_status :: u32
  irq_fallback_count :: u32
  irq_enabled :: bool

definition ata_irq_state_reset :: ata_irq_state where
  "ata_irq_state_reset = \<lparr>irq_sequence = 0, irq_status = 0, irq_fallback_count = 0, irq_enabled = False\<rparr>"

definition ata_irq_state_enable :: "ata_irq_state \<Rightarrow> ata_irq_state" where
  "ata_irq_state_enable st = st\<lparr>irq_enabled := True\<rparr>"

definition ata_irq_state_disable :: "ata_irq_state \<Rightarrow> ata_irq_state" where
  "ata_irq_state_disable st = st\<lparr>irq_enabled := False\<rparr>"

definition ata_irq_state_record :: "u8 \<Rightarrow> ata_irq_state \<Rightarrow> ata_irq_state" where
  "ata_irq_state_record status st =
     (if \<not> irq_enabled st then st
      else st\<lparr>irq_status := ucast status, irq_sequence := irq_sequence st + 1\<rparr>)"

definition ata_irq_state_snapshot :: "ata_irq_state \<Rightarrow> u32" where
  "ata_irq_state_snapshot st = irq_sequence st"

definition ata_irq_state_count :: "ata_irq_state \<Rightarrow> u32" where
  "ata_irq_state_count st = ata_irq_state_snapshot st"

definition ata_irq_state_status :: "ata_irq_state \<Rightarrow> u32" where
  "ata_irq_state_status st = irq_status st"

definition ata_irq_state_fallback_count :: "ata_irq_state \<Rightarrow> u32" where
  "ata_irq_state_fallback_count st = irq_fallback_count st"

definition ata_irq_state_is_enabled :: "ata_irq_state \<Rightarrow> bool" where
  "ata_irq_state_is_enabled st = irq_enabled st"

definition ata_irq_state_record_fallback :: "ata_irq_state \<Rightarrow> ata_irq_state" where
  "ata_irq_state_record_fallback st = st\<lparr>irq_fallback_count := irq_fallback_count st + 1\<rparr>"

definition ata_irq_state_observe :: "u32 \<Rightarrow> u8 \<Rightarrow> u8 \<Rightarrow> u8 \<Rightarrow> ata_irq_state \<Rightarrow> ata_observation" where
  "ata_irq_state_observe snapshot required forbidden busy_mask st =
     (if \<not> irq_enabled st \<or> irq_sequence st = snapshot then ATA_IRQ_OBSERVE_NONE
      else let status = ucast (irq_status st) :: u8 in
        if status AND forbidden \<noteq> 0 then ATA_IRQ_OBSERVE_ERROR
        else if status AND busy_mask \<noteq> 0 \<or> status AND required \<noteq> required then ATA_IRQ_OBSERVE_PENDING
        else ATA_IRQ_OBSERVE_READY)"

section \<open>Properties\<close>

lemma and_low16: "(base :: u32) AND 0xFFFF = take_bit 16 base"
  by (simp add: take_bit_eq_mask mask_eq_exp_minus_1)

lemma unat_low16: "unat ((base :: u32) AND 0xFFFF) = unat base mod 65536"
  by (simp add: and_low16 take_bit_eq_mod unat_mod_distrib)

lemma unat_and_3: "((base :: u32) AND 3 = 0) \<longleftrightarrow> 4 dvd unat base"
proof -
  have "unat (base AND 3) = unat base mod 4"
  proof -
    have "base AND 3 = take_bit 2 base" by (simp add: take_bit_eq_mask mask_eq_exp_minus_1)
    then show ?thesis by (simp add: take_bit_eq_mod unat_mod_distrib)
  qed
  then show ?thesis by (metis dvd_eq_mod_eq_0 unat_0 unat_eq_zero)
qed

text \<open>A descriptor is built exactly for a non-empty region of at most 64 KiB that starts on a
  double-word boundary and does not cross a 64 KiB boundary; it is marked as the last one and its
  16-bit count, read the way the controller reads it (0 stands for 64 KiB), is the length.\<close>
theorem prd_exact:
  "ata_dma_prepare_prd base count =
     (if 4 dvd unat base \<and> 0 < unat count \<and> unat base mod 65536 + unat count \<le> 65536
      then Some \<lparr>physical_base = base, byte_count = ucast count, prd_flags = ATA_DMA_PRD_END\<rparr> else None)"
proof -
  have le: "base AND 0xFFFF \<le> 0x10000" "unat (base AND 0xFFFF) = unat base mod 65536"
    by (simp_all add: unat_low16 word_le_nat_alt)
  have rem: "unat (0x10000 - (base AND 0xFFFF)) = 65536 - unat base mod 65536"
    using le by (simp add: unat_sub)
  have m: "unat base mod 65536 < 65536" by simp
  have "count > 0x10000 - (base AND 0xFFFF) \<longleftrightarrow> \<not> unat base mod 65536 + unat count \<le> 65536"
    using rem m by (auto simp: word_less_nat_alt)
  moreover have "count > 0x10000 \<Longrightarrow> \<not> unat base mod 65536 + unat count \<le> 65536"
    by (simp add: word_less_nat_alt)
  moreover have "count = 0x10000 \<Longrightarrow> (ucast count :: u16) = 0" by simp
  moreover have "count \<noteq> 0 \<longleftrightarrow> 0 < unat count" by (simp add: unat_gt_0)
  ultimately show ?thesis by (auto simp: ata_dma_prepare_prd_def unat_and_3 Let_def)
qed

fun record_all :: "u8 list \<Rightarrow> ata_irq_state \<Rightarrow> ata_irq_state" where
  "record_all [] st = st"
| "record_all (s # ss) st = record_all ss (ata_irq_state_record s st)"

lemma record_all_enabled:
  "irq_enabled st \<Longrightarrow> irq_enabled (record_all ss st) \<and>
     irq_sequence (record_all ss st) = irq_sequence st + of_nat (length ss) \<and>
     (ss \<noteq> [] \<longrightarrow> irq_status (record_all ss st) = ucast (last ss))"
  by (induction ss arbitrary: st) (auto simp: ata_irq_state_record_def)

text \<open>Observing against a snapshot reports nothing when no interrupt arrived since, and
  otherwise judges the status of the latest one; it never mistakes an earlier interrupt for an
  answer, as long as fewer than 2^32 arrive between snapshot and observation.\<close>
theorem observe_since_snapshot:
  assumes "irq_enabled st" and "length ss < 2 ^ 32"
  shows "ata_irq_state_observe (ata_irq_state_snapshot st) required forbidden busy (record_all ss st) =
    (if ss = [] then ATA_IRQ_OBSERVE_NONE
     else if last ss AND forbidden \<noteq> 0 then ATA_IRQ_OBSERVE_ERROR
     else if last ss AND busy \<noteq> 0 \<or> last ss AND required \<noteq> required then ATA_IRQ_OBSERVE_PENDING
     else ATA_IRQ_OBSERVE_READY)"
proof (cases "ss = []")
  case False
  have "unat (of_nat (length ss) :: u32) = length ss"
    using assms(2) by (simp add: unsigned_of_nat take_bit_eq_mod)
  then have "(of_nat (length ss) :: u32) \<noteq> 0" using False by (metis length_0_conv unat_0)
  moreover have "ucast (ucast x :: u32) = (x :: u8)" for x by (rule bit_word_eqI) (auto simp: bit_simps)
  ultimately show ?thesis using record_all_enabled [OF assms(1), of ss] False
    by (simp add: ata_irq_state_observe_def ata_irq_state_snapshot_def Let_def)
qed (simp add: ata_irq_state_observe_def ata_irq_state_snapshot_def)

theorem observe_since_snapshot_witness:
  "ata_irq_state_observe 0 8 0x21 0x80 (record_all [0x80, 0x48] (ata_irq_state_enable ata_irq_state_reset)) =
     ATA_IRQ_OBSERVE_READY"
  using observe_since_snapshot [of "ata_irq_state_enable ata_irq_state_reset" "[0x80, 0x48]" 8 "0x21" "0x80"]
  by (simp add: ata_irq_state_enable_def ata_irq_state_reset_def ata_irq_state_snapshot_def)

end
