(* ===== verification/Ata.thy ===== *)
theory Ata
  imports AtaDma BlockDevice
begin

text \<open>
  The ATA driver of \<open>drivers/ata.c\<close>: polled and interrupt-assisted programmed I/O, bus-master
  reads, the protected write window, and the journal's sector access built on them.
\<close>

section \<open>State\<close>

abbreviation ATA_DATA :: u16 where "ATA_DATA \<equiv> 0x1F0"
abbreviation ATA_ERROR :: u16 where "ATA_ERROR \<equiv> 0x1F1"
abbreviation ATA_SECTOR_COUNT :: u16 where "ATA_SECTOR_COUNT \<equiv> 0x1F2"
abbreviation ATA_LBA_LOW :: u16 where "ATA_LBA_LOW \<equiv> 0x1F3"
abbreviation ATA_LBA_MID :: u16 where "ATA_LBA_MID \<equiv> 0x1F4"
abbreviation ATA_LBA_HIGH :: u16 where "ATA_LBA_HIGH \<equiv> 0x1F5"
abbreviation ATA_DRIVE :: u16 where "ATA_DRIVE \<equiv> 0x1F6"
abbreviation ATA_STATUS :: u16 where "ATA_STATUS \<equiv> 0x1F7"
abbreviation ATA_COMMAND :: u16 where "ATA_COMMAND \<equiv> 0x1F7"
abbreviation ATA_CONTROL :: u16 where "ATA_CONTROL \<equiv> 0x3F6"
abbreviation ATA_CMD_IDENTIFY :: u8 where "ATA_CMD_IDENTIFY \<equiv> 0xEC"
abbreviation ATA_CMD_SET_FEATURES :: u8 where "ATA_CMD_SET_FEATURES \<equiv> 0xEF"
abbreviation ATA_CMD_READ :: u8 where "ATA_CMD_READ \<equiv> 0x20"
abbreviation ATA_CMD_READ_EXT :: u8 where "ATA_CMD_READ_EXT \<equiv> 0x24"
abbreviation ATA_CMD_READ_DMA :: u8 where "ATA_CMD_READ_DMA \<equiv> 0xC8"
abbreviation ATA_CMD_READ_DMA_EXT :: u8 where "ATA_CMD_READ_DMA_EXT \<equiv> 0x25"
abbreviation ATA_CMD_WRITE :: u8 where "ATA_CMD_WRITE \<equiv> 0x30"
abbreviation ATA_CMD_WRITE_EXT :: u8 where "ATA_CMD_WRITE_EXT \<equiv> 0x34"
abbreviation ATA_CMD_FLUSH :: u8 where "ATA_CMD_FLUSH \<equiv> 0xE7"
abbreviation ATA_CMD_FLUSH_EXT :: u8 where "ATA_CMD_FLUSH_EXT \<equiv> 0xEA"
abbreviation ATA_STATUS_ERR :: u8 where "ATA_STATUS_ERR \<equiv> 0x01"
abbreviation ATA_STATUS_DRQ :: u8 where "ATA_STATUS_DRQ \<equiv> 0x08"
abbreviation ATA_STATUS_DF :: u8 where "ATA_STATUS_DF \<equiv> 0x20"
abbreviation ATA_STATUS_BSY :: u8 where "ATA_STATUS_BSY \<equiv> 0x80"
abbreviation ATA_STATUS_FAILED :: u8 where "ATA_STATUS_FAILED \<equiv> ATA_STATUS_BSY OR ATA_STATUS_ERR OR ATA_STATUS_DF"
abbreviation ATA_TIMEOUT :: nat where "ATA_TIMEOUT \<equiv> 100000"
abbreviation ATA_IRQ_WAIT_TIMEOUT :: nat where "ATA_IRQ_WAIT_TIMEOUT \<equiv> 10000"
abbreviation ATA_LBA28_LIMIT :: u64 where "ATA_LBA28_LIMIT \<equiv> 0x10000000"
abbreviation ATA_LBA48_SECTOR_COUNT_MAX :: u64 where "ATA_LBA48_SECTOR_COUNT_MAX \<equiv> 0x0001000000000000"
abbreviation ATA_SECTOR_SIZE :: nat where "ATA_SECTOR_SIZE \<equiv> 512"
abbreviation ATA_DMA_MAX_SECTORS :: nat where "ATA_DMA_MAX_SECTORS \<equiv> 8"
abbreviation ATA_DMA_MEMORY_LIMIT :: u32 where "ATA_DMA_MEMORY_LIMIT \<equiv> 0x00400000"
abbreviation ATA_BUS_MASTER_COMMAND :: u16 where "ATA_BUS_MASTER_COMMAND \<equiv> 0"
abbreviation ATA_BUS_MASTER_STATUS :: u16 where "ATA_BUS_MASTER_STATUS \<equiv> 2"
abbreviation ATA_BUS_MASTER_PRDT :: u16 where "ATA_BUS_MASTER_PRDT \<equiv> 4"
abbreviation ATA_BUS_MASTER_START :: u8 where "ATA_BUS_MASTER_START \<equiv> 1"
abbreviation ATA_BUS_MASTER_READ_FROM_DISK :: u8 where "ATA_BUS_MASTER_READ_FROM_DISK \<equiv> 8"
abbreviation ATA_BUS_MASTER_DRIVE0_CAPABLE :: u8 where "ATA_BUS_MASTER_DRIVE0_CAPABLE \<equiv> 0x20"

text \<open>
  The block device the driver registers always has the same callbacks; the state keeps the sector
  count it was configured with, 0 when it is reset.
\<close>

record 'h ata = "'h pci" +
  device_present :: bool
  sectors :: u64
  last_status :: u8
  identify_type :: u16
  identify_capabilities :: u16
  identify_multiword_dma :: u16
  lba48_supported :: bool
  writes_protected :: bool
  write_window_start :: u64
  write_window_sectors :: u64
  primary_block_sectors :: u64
  irq_state :: ata_irq_state
  request_active :: bool
  dma_controller :: "nat option"
  dma_io_base :: u16
  dma_bounce_physical :: u32
  dma_prdt_physical :: u32
  dma_transfer_mode :: u8
  dma_enabled :: bool
  dma_transfers :: u32
  dma_fallbacks :: u32

type_synonym ('h, 'z, 'a) ata_m = "(('h, 'z) ata_scheme, 'a) state"

section \<open>Waiting\<close>

definition ata_400ns_delay :: "'h bus \<Rightarrow> ('h, 'z, unit) ata_m" where
  "ata_400ns_delay io = do { inb io ATA_STATUS; inb io ATA_STATUS; inb io ATA_STATUS; inb io ATA_STATUS; return () }"

definition ata_poll_delay :: "'h bus \<Rightarrow> ('h, 'z, unit) ata_m" where
  "ata_poll_delay io = do { inb io ATA_CONTROL; inb io ATA_CONTROL; inb io ATA_CONTROL; inb io ATA_CONTROL; return () }"

definition cpu_interrupts_enabled :: "'h bus \<Rightarrow> ('h, 'z, bool) ata_m" where
  "cpu_interrupts_enabled io = gets (\<lambda>s. interrupt_flag io (hw s))"

definition begin_request :: "('h, 'z, bool) ata_m" where
  "begin_request = do {
     active \<leftarrow> gets request_active;
     if active then return False
     else do { modify (\<lambda>s. s\<lparr>request_active := True\<rparr>); return True } }"

definition end_request :: "('h, 'z, unit) ata_m" where
  "end_request = modify (\<lambda>s. s\<lparr>request_active := False\<rparr>)"

definition poll_status :: "'h bus \<Rightarrow> u8 \<Rightarrow> u8 \<Rightarrow> ('h, 'z, bool option) ata_m" where
  "poll_status io required forbidden = do {
     status \<leftarrow> inb io ATA_STATUS;
     modify (\<lambda>s. s\<lparr>last_status := status\<rparr>);
     if status AND (forbidden AND NOT ATA_STATUS_BSY) \<noteq> 0 then return (Some False)
     else if status AND ATA_STATUS_BSY \<noteq> 0 then do { ata_poll_delay io; return None }
     else if status AND required = required then return (Some True)
     else do { ata_poll_delay io; return None } }"

definition wait_status :: "'h bus \<Rightarrow> u8 \<Rightarrow> u8 \<Rightarrow> ('h, 'z, bool) ata_m" where
  "wait_status io required forbidden = do {
     r \<leftarrow> poll ATA_TIMEOUT (poll_status io required forbidden);
     return (case r of Some b \<Rightarrow> b | None \<Rightarrow> False) }"

definition ata_irq_handler :: "'h bus \<Rightarrow> ('h, 'z, unit) ata_m" where
  "ata_irq_handler io = do {
     status \<leftarrow> inb io ATA_STATUS;
     modify (\<lambda>s. s\<lparr>last_status := status, irq_state := ata_irq_state_record status (irq_state s)\<rparr>) }"

text \<open>
  One round of the interrupt wait: \<open>Some (Some b)\<close> returns \<open>b\<close>, \<open>Some None\<close> leaves the loop. An
  interrupt delivered during the pause runs the handler.
\<close>

definition observe_irq :: "'h bus \<Rightarrow> u8 \<Rightarrow> u8 \<Rightarrow> u32 \<Rightarrow> ('h, 'z, bool option option) ata_m" where
  "observe_irq io required forbidden snapshot = do {
     st \<leftarrow> gets irq_state;
     case ata_irq_state_observe snapshot required (forbidden AND NOT ATA_STATUS_BSY) ATA_STATUS_BSY st of
       ATA_IRQ_OBSERVE_READY \<Rightarrow> do {
         current \<leftarrow> inb io ATA_CONTROL;
         modify (\<lambda>s. s\<lparr>last_status := current\<rparr>);
         if current AND (forbidden AND NOT ATA_STATUS_BSY) \<noteq> 0 then return (Some (Some False))
         else if current AND ATA_STATUS_BSY = 0 \<and> current AND required = required then return (Some (Some True))
         else return (Some None) }
     | ATA_IRQ_OBSERVE_ERROR \<Rightarrow> do {
         modify (\<lambda>s. s\<lparr>last_status := ucast (ata_irq_state_status st)\<rparr>);
         return (Some (Some False)) }
     | ATA_IRQ_OBSERVE_PENDING \<Rightarrow> return (Some None)
     | ATA_IRQ_OBSERVE_NONE \<Rightarrow> do {
         irq \<leftarrow> on_hw (relax io);
         (if irq then ata_irq_handler io else return ());
         return None } }"

definition wait_status_with_irq :: "'h bus \<Rightarrow> u8 \<Rightarrow> u8 \<Rightarrow> u32 \<Rightarrow> ('h, 'z, bool) ata_m" where
  "wait_status_with_irq io required forbidden snapshot = do {
     st \<leftarrow> gets irq_state;
     flag \<leftarrow> cpu_interrupts_enabled io;
     if ata_irq_state_is_enabled st \<and> flag then do {
       r \<leftarrow> poll ATA_IRQ_WAIT_TIMEOUT (observe_irq io required forbidden snapshot);
       case r of
         Some (Some b) \<Rightarrow> return b
       | _ \<Rightarrow> do {
           modify (\<lambda>s. s\<lparr>irq_state := ata_irq_state_record_fallback (irq_state s)\<rparr>);
           wait_status io required forbidden } }
     else wait_status io required forbidden }"

definition irq_snapshot :: "('h, 'z, u32) ata_m" where
  "irq_snapshot = gets (\<lambda>s. ata_irq_state_snapshot (irq_state s))"

definition ata_soft_reset :: "'h bus \<Rightarrow> ('h, 'z, unit) ata_m" where
  "ata_soft_reset io = do {
     st \<leftarrow> gets irq_state;
     let control = (if ata_irq_state_is_enabled st then 0 else 0x02);
     outb io ATA_CONTROL (control OR 0x04);
     ata_400ns_delay io;
     outb io ATA_CONTROL control;
     ata_400ns_delay io;
     wait_status io 0 ATA_STATUS_BSY;
     return () }"

section \<open>Selecting sectors\<close>

definition request_needs_lba48 :: "u64 \<Rightarrow> u8 \<Rightarrow> bool" where
  "request_needs_lba48 lba count \<longleftrightarrow> lba \<ge> ATA_LBA28_LIMIT \<or> ucast count > ATA_LBA28_LIMIT - lba"

definition select_lba28 :: "'h bus \<Rightarrow> u64 \<Rightarrow> u8 \<Rightarrow> ('h, 'z, unit) ata_m" where
  "select_lba28 io lba count = do {
     outb io ATA_DRIVE (ucast (0xE0 OR (drop_bit 24 lba AND 0x0F)));
     ata_400ns_delay io;
     outb io ATA_SECTOR_COUNT count;
     outb io ATA_LBA_LOW (ucast lba);
     outb io ATA_LBA_MID (ucast (drop_bit 8 lba));
     outb io ATA_LBA_HIGH (ucast (drop_bit 16 lba)) }"

definition select_lba48 :: "'h bus \<Rightarrow> u64 \<Rightarrow> u8 \<Rightarrow> ('h, 'z, unit) ata_m" where
  "select_lba48 io lba count = do {
     outb io ATA_DRIVE 0xE0;
     ata_400ns_delay io;
     outb io ATA_SECTOR_COUNT 0;
     outb io ATA_LBA_LOW (ucast (drop_bit 24 lba));
     outb io ATA_LBA_MID (ucast (drop_bit 32 lba));
     outb io ATA_LBA_HIGH (ucast (drop_bit 40 lba));
     outb io ATA_SECTOR_COUNT count;
     outb io ATA_LBA_LOW (ucast lba);
     outb io ATA_LBA_MID (ucast (drop_bit 8 lba));
     outb io ATA_LBA_HIGH (ucast (drop_bit 16 lba)) }"

definition select_request :: "'h bus \<Rightarrow> u64 \<Rightarrow> u8 \<Rightarrow> ('h, 'z, bool) ata_m" where
  "select_request io lba count = do {
     wide \<leftarrow> gets lba48_supported;
     if request_needs_lba48 lba count then
       if \<not> wide then return False
       else do { select_lba48 io lba count; return True }
     else do { select_lba28 io lba count; return True } }"

section \<open>Bus-master reads\<close>

fun find_controller :: "pci_device list \<Rightarrow> nat list \<Rightarrow> (nat \<times> u16) option \<Rightarrow> (nat \<times> u16) option" where
  "find_controller devs [] found = found"
| "find_controller devs (index # rest) found =
     (case ata_dma_controller_base (devs ! index) of
        None \<Rightarrow> find_controller devs rest found
      | Some base \<Rightarrow> if found \<noteq> None then None else find_controller devs rest (Some (index, base)))"

definition find_dma_controller :: "('h, 'z, (nat \<times> u16) option) ata_m" where
  "find_dma_controller = gets (\<lambda>s. find_controller (devices s) [0 ..< pci_device_count s] None)"

definition stop_dma_engine :: "'h bus \<Rightarrow> ('h, 'z, unit) ata_m" where
  "stop_dma_engine io = do {
     base \<leftarrow> gets dma_io_base;
     if base = 0 then return ()
     else do {
       command \<leftarrow> inb io (base + ATA_BUS_MASTER_COMMAND);
       outb io (base + ATA_BUS_MASTER_COMMAND) (command AND NOT ATA_BUS_MASTER_START);
       status \<leftarrow> inb io (base + ATA_BUS_MASTER_STATUS);
       outb io (base + ATA_BUS_MASTER_STATUS) (status OR ATA_DMA_STATUS_ERROR OR ATA_DMA_STATUS_INTERRUPT) } }"

definition free_frame :: "u32 \<Rightarrow> ('h, 'z, unit) ata_m" where
  "free_frame a = (if a \<noteq> 0 then on_frames (\<lambda>p. ((), pmm_free_block a p)) else return ())"

definition forget_dma :: "('h, 'z) ata_scheme \<Rightarrow> ('h, 'z) ata_scheme" where
  "forget_dma s = s\<lparr>dma_controller := None, dma_io_base := 0, dma_bounce_physical := 0,
     dma_prdt_physical := 0, dma_transfer_mode := 0\<rparr>"

definition disable_dma_after_failure :: "'h bus \<Rightarrow> ('h, 'z, unit) ata_m" where
  "disable_dma_after_failure io = do {
     controller \<leftarrow> gets dma_controller;
     bounce \<leftarrow> gets dma_bounce_physical;
     prdt \<leftarrow> gets dma_prdt_physical;
     stop_dma_engine io;
     modify (\<lambda>s. if dma_enabled s then s\<lparr>dma_enabled := False, dma_fallbacks := dma_fallbacks s + 1\<rparr> else s);
     (if controller \<noteq> None then do { pci_disable_ide_bus_master io controller; return () } else return ());
     modify forget_dma;
     free_frame prdt;
     free_frame bounce }"

definition set_dma_transfer_mode :: "'h bus \<Rightarrow> u8 \<Rightarrow> ('h, 'z, bool) ata_m" where
  "set_dma_transfer_mode io mode = do {
     ready \<leftarrow> wait_status io 0 ATA_STATUS_BSY;
     if \<not> ready then return False
     else do {
       outb io ATA_DRIVE 0xE0;
       ata_400ns_delay io;
       outb io ATA_ERROR 0x03;
       outb io ATA_SECTOR_COUNT mode;
       snapshot \<leftarrow> irq_snapshot;
       outb io ATA_COMMAND ATA_CMD_SET_FEATURES;
       ata_400ns_delay io;
       wait_status_with_irq io 0 ATA_STATUS_FAILED snapshot } }"

fun clear_memory :: "'h bus \<Rightarrow> u32 \<Rightarrow> nat \<Rightarrow> ('h, 'z, unit) ata_m" where
  "clear_memory io base 0 = return ()"
| "clear_memory io base (Suc n) = do { store8 io base 0; clear_memory io (base + 1) n }"

fun copy_memory :: "'h bus \<Rightarrow> u32 \<Rightarrow> nat \<Rightarrow> ('h, 'z, bytes) ata_m" where
  "copy_memory io base 0 = return []"
| "copy_memory io base (Suc n) = do { b \<leftarrow> load8 io base; bs \<leftarrow> copy_memory io (base + 1) n; return (b # bs) }"

definition store_prd :: "'h bus \<Rightarrow> u32 \<Rightarrow> ata_dma_prd \<Rightarrow> ('h, 'z, unit) ata_m" where
  "store_prd io a prd = do {
     store32 io a (physical_base prd);
     store32 io (a + 4) (ucast (byte_count prd) OR push_bit 16 (ucast (prd_flags prd))) }"

definition ata_read_dma_chunk :: "'h bus \<Rightarrow> u64 \<Rightarrow> u8 \<Rightarrow> ('h, 'z, bytes option) ata_m" where
  "ata_read_dma_chunk io lba count = do {
     prdt \<leftarrow> gets dma_prdt_physical;
     bounce \<leftarrow> gets dma_bounce_physical;
     base \<leftarrow> gets dma_io_base;
     let bytes_wanted = unat count * ATA_SECTOR_SIZE;
     case ata_dma_prepare_prd bounce (of_nat bytes_wanted) of
       None \<Rightarrow> return None
     | Some prd \<Rightarrow> do {
         store_prd io prdt prd;
         clear_memory io bounce bytes_wanted;
         ready \<leftarrow> wait_status io 0 ATA_STATUS_BSY;
         if \<not> ready then return None
         else do {
           stop_dma_engine io;
           outl io (base + ATA_BUS_MASTER_PRDT) prdt;
           status \<leftarrow> inb io (base + ATA_BUS_MASTER_STATUS);
           outb io (base + ATA_BUS_MASTER_STATUS)
             (status OR ATA_BUS_MASTER_DRIVE0_CAPABLE OR ATA_DMA_STATUS_ERROR OR ATA_DMA_STATUS_INTERRUPT);
           outb io (base + ATA_BUS_MASTER_COMMAND) ATA_BUS_MASTER_READ_FROM_DISK;
           selected \<leftarrow> select_request io lba count;
           if \<not> selected then return None
           else do {
             snapshot \<leftarrow> irq_snapshot;
             outb io ATA_COMMAND (if request_needs_lba48 lba count then ATA_CMD_READ_DMA_EXT else ATA_CMD_READ_DMA);
             ata_400ns_delay io;
             outb io (base + ATA_BUS_MASTER_COMMAND) (ATA_BUS_MASTER_READ_FROM_DISK OR ATA_BUS_MASTER_START);
             completed \<leftarrow> wait_status_with_irq io 0 ATA_STATUS_FAILED snapshot;
             bm_status \<leftarrow> inb io (base + ATA_BUS_MASTER_STATUS);
             outb io (base + ATA_BUS_MASTER_COMMAND) ATA_BUS_MASTER_READ_FROM_DISK;
             outb io (base + ATA_BUS_MASTER_STATUS) (bm_status OR ATA_DMA_STATUS_ERROR OR ATA_DMA_STATUS_INTERRUPT);
             if \<not> completed \<or> \<not> ata_dma_status_is_complete bm_status then return None
             else do {
               data \<leftarrow> copy_memory io bounce bytes_wanted;
               modify (\<lambda>s. s\<lparr>dma_transfers := dma_transfers s + 1\<rparr>);
               return (Some data) } } } } }"

text \<open>The loop over chunks of at most eight sectors.\<close>

function read_dma_chunks :: "'h bus \<Rightarrow> u64 \<Rightarrow> nat \<Rightarrow> ('h, 'z, bytes option) ata_m" where
  "read_dma_chunks io lba remaining =
     (if remaining = 0 then return (Some [])
      else let chunk = (if remaining > ATA_DMA_MAX_SECTORS then ATA_DMA_MAX_SECTORS else remaining) in do {
        r \<leftarrow> ata_read_dma_chunk io lba (of_nat chunk);
        case r of None \<Rightarrow> return None
        | Some data \<Rightarrow> do {
            rest \<leftarrow> read_dma_chunks io (lba + of_nat chunk) (remaining - chunk);
            return (map_option (\<lambda>more. data @ more) rest) } })"
  by pat_completeness auto
termination
  by (relation "measure (\<lambda>(io, lba, remaining). remaining)") auto

declare read_dma_chunks.simps [simp del]

definition ata_read_dma_once :: "'h bus \<Rightarrow> u64 \<Rightarrow> u8 \<Rightarrow> ('h, 'z, bytes option) ata_m" where
  "ata_read_dma_once io lba count = read_dma_chunks io lba (unat count)"

section \<open>Programmed reads\<close>

definition valid_request :: "u64 \<Rightarrow> u8 \<Rightarrow> bool \<Rightarrow> ('h, 'z) ata_scheme \<Rightarrow> bool" where
  "valid_request lba count buffer s \<longleftrightarrow>
     \<not> (\<not> device_present s \<or> count = 0 \<or> count > 128 \<or> \<not> buffer \<or> lba \<ge> sectors s \<or> ucast count > sectors s - lba)"

fun read_words :: "'h bus \<Rightarrow> nat \<Rightarrow> ('h, 'z, bytes) ata_m" where
  "read_words io 0 = return []"
| "read_words io (Suc n) = do {
     v \<leftarrow> inw io ATA_DATA;
     rest \<leftarrow> read_words io n;
     return (ucast v # ucast (drop_bit 8 v) # rest) }"

text \<open>The sectors of one command; the snapshot is the one taken before the command, then the one
  after the previous sector.\<close>

fun read_pio_sectors :: "'h bus \<Rightarrow> u32 \<Rightarrow> nat \<Rightarrow> ('h, 'z, bytes option) ata_m" where
  "read_pio_sectors io snapshot 0 = return (Some [])"
| "read_pio_sectors io snapshot (Suc n) = do {
     ready \<leftarrow> wait_status_with_irq io ATA_STATUS_DRQ ATA_STATUS_FAILED snapshot;
     if \<not> ready then return None
     else do {
       snapshot' \<leftarrow> irq_snapshot;
       data \<leftarrow> read_words io (ATA_SECTOR_SIZE div 2);
       rest \<leftarrow> read_pio_sectors io snapshot' n;
       return (map_option (\<lambda>more. data @ more) rest) } }"

definition ata_read_pio_once :: "'h bus \<Rightarrow> u64 \<Rightarrow> u8 \<Rightarrow> ('h, 'z, bytes option) ata_m" where
  "ata_read_pio_once io lba count = do {
     ready \<leftarrow> wait_status io 0 ATA_STATUS_BSY;
     if \<not> ready then return None
     else do {
       selected \<leftarrow> select_request io lba count;
       if \<not> selected then return None
       else do {
         snapshot \<leftarrow> irq_snapshot;
         outb io ATA_COMMAND (if request_needs_lba48 lba count then ATA_CMD_READ_EXT else ATA_CMD_READ);
         ata_400ns_delay io;
         r \<leftarrow> read_pio_sectors io snapshot (unat count);
         case r of None \<Rightarrow> return None
         | Some data \<Rightarrow> do {
             final \<leftarrow> wait_status io 0 ATA_STATUS_FAILED;
             return (if final then Some data else None) } } } }"

text \<open>The three attempts; the argument is the number of attempts left.\<close>

fun read_attempts :: "'h bus \<Rightarrow> u64 \<Rightarrow> u8 \<Rightarrow> nat \<Rightarrow> ('h, 'z, bytes option) ata_m" where
  "read_attempts io lba count 0 = return None"
| "read_attempts io lba count (Suc left) = do {
     dma \<leftarrow> gets dma_enabled;
     r \<leftarrow> (if dma then ata_read_dma_once io lba count else ata_read_pio_once io lba count);
     case r of
       Some data \<Rightarrow> return (Some data)
     | None \<Rightarrow> do {
         dma' \<leftarrow> gets dma_enabled;
         (if dma' then disable_dma_after_failure io else return ());
         (if left > 0 then ata_soft_reset io else return ());
         read_attempts io lba count left } }"

definition ata_read_sectors :: "'h bus \<Rightarrow> u64 \<Rightarrow> u8 \<Rightarrow> bool \<Rightarrow> ('h, 'z, bytes option) ata_m" where
  "ata_read_sectors io lba count buffer = do {
     valid \<leftarrow> gets (valid_request lba count buffer);
     if \<not> valid then return None
     else do {
       started \<leftarrow> begin_request;
       if \<not> started then return None
       else do {
         r \<leftarrow> read_attempts io lba count 3;
         end_request;
         return r } } }"

definition ata_block_read :: "'h bus \<Rightarrow> u64 \<Rightarrow> u32 \<Rightarrow> ('h, 'z, bytes option) ata_m" where
  "ata_block_read io lba count =
     (if count \<le> 128 then ata_read_sectors io lba (ucast count) True else return None)"

section \<open>Writes\<close>

definition ata_write_protected :: "('h, 'z) ata_scheme \<Rightarrow> bool" where
  "ata_write_protected s = writes_protected s"

definition ata_enable_transactional_writes :: "u64 \<Rightarrow> u64 \<Rightarrow> ('h, 'z, bool) ata_m" where
  "ata_enable_transactional_writes start count = do {
     s \<leftarrow> State_Monad.get;
     if \<not> device_present s \<or> count = 0 \<or> start \<ge> sectors s \<or> count > sectors s - start then return False
     else do {
       modify (\<lambda>s. s\<lparr>write_window_start := start, write_window_sectors := count, writes_protected := False\<rparr>);
       return True } }"

definition ata_disable_transactional_writes :: "('h, 'z, unit) ata_m" where
  "ata_disable_transactional_writes =
     modify (\<lambda>s. s\<lparr>write_window_start := 0, write_window_sectors := 0, writes_protected := True\<rparr>)"

fun write_words :: "'h bus \<Rightarrow> bytes \<Rightarrow> ('h, 'z, unit) ata_m" where
  "write_words io (a # b # rest) = do { outw io ATA_DATA (ucast a OR push_bit 8 (ucast b)); write_words io rest }"
| "write_words io _ = return ()"

definition write_one :: "'h bus \<Rightarrow> u64 \<Rightarrow> bytes \<Rightarrow> ('h, 'z, bool) ata_m" where
  "write_one io lba source = do {
     selected \<leftarrow> select_request io lba 1;
     if \<not> selected then return False
     else do {
       snapshot \<leftarrow> irq_snapshot;
       outb io ATA_COMMAND (if request_needs_lba48 lba 1 then ATA_CMD_WRITE_EXT else ATA_CMD_WRITE);
       ata_400ns_delay io;
       ready \<leftarrow> wait_status_with_irq io ATA_STATUS_DRQ ATA_STATUS_FAILED snapshot;
       if \<not> ready then return False
       else do {
         snapshot' \<leftarrow> irq_snapshot;
         write_words io (take ATA_SECTOR_SIZE source);
         wait_status_with_irq io 0 ATA_STATUS_FAILED snapshot' } } }"

fun write_all :: "'h bus \<Rightarrow> u64 \<Rightarrow> nat \<Rightarrow> bytes \<Rightarrow> ('h, 'z, bool) ata_m" where
  "write_all io lba 0 source = return True"
| "write_all io lba (Suc n) source = do {
     ok \<leftarrow> write_one io lba source;
     if \<not> ok then return False else write_all io (lba + 1) n (drop ATA_SECTOR_SIZE source) }"

definition write_permitted :: "u64 \<Rightarrow> u8 \<Rightarrow> bool \<Rightarrow> ('h, 'z) ata_scheme \<Rightarrow> bool" where
  "write_permitted lba count buffer s \<longleftrightarrow>
     \<not> (writes_protected s \<or> \<not> valid_request lba count buffer s \<or> lba < write_window_start s \<or>
        lba - write_window_start s \<ge> write_window_sectors s \<or>
        ucast count > write_window_sectors s - (lba - write_window_start s))"

definition ata_write_sectors :: "'h bus \<Rightarrow> u64 \<Rightarrow> u8 \<Rightarrow> bytes option \<Rightarrow> ('h, 'z, bool) ata_m" where
  "ata_write_sectors io lba count buffer = do {
     permitted \<leftarrow> gets (write_permitted lba count (buffer \<noteq> None));
     if \<not> permitted then return False
     else do {
       started \<leftarrow> begin_request;
       if \<not> started then return False
       else do {
         success \<leftarrow> and_then (wait_status io 0 ATA_STATUS_BSY)
           (and_then (write_all io lba (unat count) (the buffer)) (do {
             snapshot \<leftarrow> irq_snapshot;
             wide \<leftarrow> gets lba48_supported;
             outb io ATA_COMMAND (if wide then ATA_CMD_FLUSH_EXT else ATA_CMD_FLUSH);
             wait_status_with_irq io 0 ATA_STATUS_FAILED snapshot }));
         end_request;
         return success } } }"

section \<open>Initialisation and modes\<close>

fun read_identify :: "'h bus \<Rightarrow> nat \<Rightarrow> ('h, 'z, u16 list) ata_m" where
  "read_identify io 0 = return []"
| "read_identify io (Suc n) = do { v \<leftarrow> inw io ATA_DATA; rest \<leftarrow> read_identify io n; return (v # rest) }"

text \<open>The capacity an IDENTIFY block states: the sectors and whether 48-bit addressing is used.\<close>

definition identify_capacity :: "u16 list \<Rightarrow> (u64 \<times> bool) option" where
  "identify_capacity words =
     (if words ! 49 AND 0x0200 = 0 then None
      else if words ! 83 AND 0x0400 \<noteq> 0 then
        let n = ucast (words ! 100) OR push_bit 16 (ucast (words ! 101)) OR
                push_bit 32 (ucast (words ! 102)) OR push_bit 48 (ucast (words ! 103))
        in if n = 0 \<or> n > ATA_LBA48_SECTOR_COUNT_MAX then None else Some (n, True)
      else
        let n = ucast (push_bit 16 (ucast (words ! 61)) OR ucast (words ! 60) :: u32)
        in if n = 0 \<or> n > ATA_LBA28_LIMIT then None else Some (n, False))"

definition ata_reset_state :: "('h, 'z) ata_scheme \<Rightarrow> ('h, 'z) ata_scheme" where
  "ata_reset_state s = s\<lparr>device_present := False, sectors := 0, last_status := 0, identify_type := 0,
     identify_capabilities := 0, identify_multiword_dma := 0, lba48_supported := False,
     writes_protected := True, write_window_start := 0, write_window_sectors := 0,
     primary_block_sectors := 0, irq_state := ata_irq_state_reset, request_active := False,
     dma_controller := None, dma_io_base := 0, dma_bounce_physical := 0, dma_prdt_physical := 0,
     dma_transfer_mode := 0, dma_enabled := False, dma_transfers := 0, dma_fallbacks := 0\<rparr>"

definition ata_init :: "'h bus \<Rightarrow> ('h, 'z, unit) ata_m" where
  "ata_init io = do {
     s \<leftarrow> State_Monad.get;
     (if dma_io_base s \<noteq> 0 \<or> dma_bounce_physical s \<noteq> 0 \<or> dma_prdt_physical s \<noteq> 0
      then disable_dma_after_failure io else return ());
     modify ata_reset_state;
     outb io ATA_CONTROL 0x02;
     outb io ATA_DRIVE 0xA0;
     outb io ATA_SECTOR_COUNT 0;
     outb io ATA_LBA_LOW 0;
     outb io ATA_LBA_MID 0;
     outb io ATA_LBA_HIGH 0;
     outb io ATA_COMMAND ATA_CMD_IDENTIFY;
     status \<leftarrow> inb io ATA_STATUS;
     ready \<leftarrow> (if status = 0 then return False else wait_status io ATA_STATUS_DRQ ATA_STATUS_FAILED);
     if \<not> ready then return ()
     else do {
       words \<leftarrow> read_identify io 256;
       modify (\<lambda>s. s\<lparr>identify_type := words ! 0, identify_capabilities := words ! 49,
                      identify_multiword_dma := words ! 63\<rparr>);
       case identify_capacity words of
         None \<Rightarrow> return ()
       | Some (n, wide) \<Rightarrow> do {
           modify (\<lambda>s. s\<lparr>sectors := n, lba48_supported := wide, device_present := True\<rparr>);
           outb io ATA_CONTROL 0x06;
           ata_400ns_delay io;
           outb io ATA_CONTROL 0x02;
           wait_status io 0 ATA_STATUS_BSY;
           (if fst (block_device_configure n 512 128
                 (Some (ata_block_read io :: u64 \<Rightarrow> u32 \<Rightarrow> ('h, 'z, bytes option) ata_m)) None)
            then modify (\<lambda>s. s\<lparr>primary_block_sectors := n\<rparr>)
            else modify (\<lambda>s. s\<lparr>device_present := False, sectors := 0\<rparr>)) } } }"

definition ata_block_device :: "'h bus \<Rightarrow> ('h, 'z) ata_scheme \<Rightarrow> ('h, 'z) ata_scheme block_device option" where
  "ata_block_device io s =
     (let d = snd (block_device_configure (primary_block_sectors s) 512 128 (Some (ata_block_read io)) None)
      in if block_device_is_ready (Some d) then Some d else None)"

definition ata_present :: "('h, 'z) ata_scheme \<Rightarrow> bool" where
  "ata_present s = device_present s"

definition ata_sector_count :: "('h, 'z) ata_scheme \<Rightarrow> u64" where
  "ata_sector_count s = sectors s"

definition ata_enable_irq_mode :: "'h bus \<Rightarrow> ('h, 'z, bool) ata_m" where
  "ata_enable_irq_mode io = do {
     s \<leftarrow> State_Monad.get;
     if \<not> device_present s \<or> request_active s then return False
     else do {
       inb io ATA_STATUS;
       modify (\<lambda>s. s\<lparr>irq_state := ata_irq_state_enable (irq_state s)\<rparr>);
       outb io ATA_CONTROL 0;
       ata_400ns_delay io;
       return True } }"

definition install_dma :: "'h bus \<Rightarrow> nat \<Rightarrow> u16 \<Rightarrow> u8 \<Rightarrow> u32 \<Rightarrow> u32 \<Rightarrow> ('h, 'z, bool) ata_m" where
  "install_dma io controller base mode bounce prdt = do {
     modify (\<lambda>s. s\<lparr>dma_controller := Some controller, dma_io_base := base, dma_bounce_physical := bounce,
                    dma_prdt_physical := prdt, dma_transfer_mode := mode\<rparr>);
     stop_dma_engine io;
     ok \<leftarrow> set_dma_transfer_mode io mode;
     if \<not> ok then do {
       pci_disable_ide_bus_master io (Some controller);
       ata_soft_reset io;
       modify forget_dma;
       return False }
     else do {
       status \<leftarrow> inb io (base + ATA_BUS_MASTER_STATUS);
       outb io (base + ATA_BUS_MASTER_STATUS)
         (status OR ATA_BUS_MASTER_DRIVE0_CAPABLE OR ATA_DMA_STATUS_ERROR OR ATA_DMA_STATUS_INTERRUPT);
       modify (\<lambda>s. s\<lparr>dma_enabled := True\<rparr>);
       return True } }"

definition ata_enable_dma_mode :: "'h bus \<Rightarrow> ('h, 'z, bool) ata_m" where
  "ata_enable_dma_mode io = do {
     s \<leftarrow> State_Monad.get;
     case ata_dma_select_multiword_mode (identify_capabilities s) (identify_multiword_dma s) of
       None \<Rightarrow> return False
     | Some mode \<Rightarrow>
         if \<not> device_present s \<or> \<not> ata_irq_state_is_enabled (irq_state s) \<or> dma_enabled s then return False
         else do {
           found \<leftarrow> find_dma_controller;
           case found of
             None \<Rightarrow> return False
           | Some (controller, base) \<Rightarrow> do {
               started \<leftarrow> begin_request;
               if \<not> started then return False
               else do {
                 bounce \<leftarrow> on_frames (pmm_alloc_block_below ATA_DMA_MEMORY_LIMIT);
                 prdt \<leftarrow> on_frames (pmm_alloc_block_below ATA_DMA_MEMORY_LIMIT);
                 success \<leftarrow> (case (if bounce = 0 \<or> prdt = 0 then None else ata_dma_prepare_prd bounce 4096) of
                     None \<Rightarrow> return False
                   | Some prd \<Rightarrow> do {
                       store_prd io prdt prd;
                       enabled \<leftarrow> pci_enable_ide_bus_master io (Some controller);
                       if \<not> enabled then do { pci_disable_ide_bus_master io (Some controller); return False }
                       else install_dma io controller base mode bounce prdt });
                 (if \<not> success then do { free_frame prdt; free_frame bounce } else return ());
                 end_request;
                 return success } } } }"

definition ata_irq_count :: "('h, 'z) ata_scheme \<Rightarrow> u32" where
  "ata_irq_count s = ata_irq_state_count (irq_state s)"

definition ata_irq_fallback_count :: "('h, 'z) ata_scheme \<Rightarrow> u32" where
  "ata_irq_fallback_count s = ata_irq_state_fallback_count (irq_state s)"

definition ata_irq_mode_enabled :: "('h, 'z) ata_scheme \<Rightarrow> bool" where
  "ata_irq_mode_enabled s = ata_irq_state_is_enabled (irq_state s)"

definition ata_last_status :: "('h, 'z) ata_scheme \<Rightarrow> u8" where
  "ata_last_status s = last_status s"

definition ata_dma_mode_enabled :: "('h, 'z) ata_scheme \<Rightarrow> bool" where
  "ata_dma_mode_enabled s = dma_enabled s"

definition ata_dma_transfer_mode :: "('h, 'z) ata_scheme \<Rightarrow> u32" where
  "ata_dma_transfer_mode s = ucast (dma_transfer_mode s)"

definition ata_dma_transfer_count :: "('h, 'z) ata_scheme \<Rightarrow> u32" where
  "ata_dma_transfer_count s = dma_transfers s"

definition ata_dma_fallback_count :: "('h, 'z) ata_scheme \<Rightarrow> u32" where
  "ata_dma_fallback_count s = dma_fallbacks s"

definition ata_identify_type :: "('h, 'z) ata_scheme \<Rightarrow> u16" where
  "ata_identify_type s = identify_type s"

definition ata_lba48_supported :: "('h, 'z) ata_scheme \<Rightarrow> bool" where
  "ata_lba48_supported s = lba48_supported s"

end
