(* ===== verification/AtaTrace.thy ===== *)
theory AtaTrace
  imports Ata
begin

text \<open>
  What the ATA driver sends to the device. A watched bus records every port write of the driver
  next to the state of an arbitrary device, and \<open>device_step\<close> reads the record the way an ATA
  device does: each task-file register remembers its last two values, a command takes its 28-bit
  or 48-bit address from them, data words belong to the last command. The theorems give the exact
  commands of a write request on every device behaviour, and show that reads send no write.
\<close>

section \<open>The record of port writes\<close>

datatype port_write = Out8 u16 u8 | Out16 u16 u16 | Out32 u16 u32

definition watched_read :: "('h \<Rightarrow> 'a \<times> 'h) \<Rightarrow> 'h \<times> port_write list \<Rightarrow> 'a \<times> ('h \<times> port_write list)" where
  "watched_read f x = (case f (fst x) of (v, h) \<Rightarrow> (v, (h, snd x)))"

definition watch :: "'h bus \<Rightarrow> ('h \<times> port_write list) bus" where
  "watch io =
     \<lparr>in8 = (\<lambda>p. watched_read (in8 io p)), in16 = (\<lambda>p. watched_read (in16 io p)),
      in32 = (\<lambda>p. watched_read (in32 io p)),
      out8 = (\<lambda>p v x. (out8 io p v (fst x), snd x @ [Out8 p v])),
      out16 = (\<lambda>p v x. (out16 io p v (fst x), snd x @ [Out16 p v])),
      out32 = (\<lambda>p v x. (out32 io p v (fst x), snd x @ [Out32 p v])),
      mem_load8 = (\<lambda>a. watched_read (mem_load8 io a)),
      mem_store8 = (\<lambda>a v x. (mem_store8 io a v (fst x), snd x)),
      mem_load32 = (\<lambda>a. watched_read (mem_load32 io a)),
      mem_store32 = (\<lambda>a v x. (mem_store32 io a v (fst x), snd x)),
      interrupt_flag = (\<lambda>x. interrupt_flag io (fst x)),
      relax = watched_read (relax io)\<rparr>"

lemma snd_watched_read [simp]: "snd (snd (watched_read f x)) = snd x"
  by (simp add: watched_read_def case_prod_beta)

text \<open>The record is \<open>L\<close>, and the request flag and the addressing mode are as given.\<close>

definition sent :: "port_write list \<Rightarrow> bool \<Rightarrow> bool \<Rightarrow> ('h \<times> port_write list, 'z) ata_scheme \<Rightarrow> bool" where
  "sent L active wide s \<longleftrightarrow> snd (hw s) = L \<and> request_active s = active \<and> lba48_supported s = wide"

lemma sent_reads [keeps_rules]:
  "keeps (sent L a w) (inb (watch io) p)" "keeps (sent L a w) (inw (watch io) p)"
  "keeps (sent L a w) (on_hw (relax (watch io)))"
  by (simp_all add: keeps_def access_defs sent_def watch_def)

lemma sent_status [keeps_rules]:
  "keeps (sent L a w) (modify (\<lambda>s. s\<lparr>last_status := f s\<rparr>))"
  "keeps (sent L a w) (modify (\<lambda>s. s\<lparr>irq_state := g s\<rparr>))"
  "keeps (sent L a w) (modify (\<lambda>s. s\<lparr>last_status := v, irq_state := g s\<rparr>))"
  by (simp_all add: keeps_def sent_def)

lemma sent_delay [keeps_rules]:
  "keeps (sent L a w) (ata_400ns_delay (watch io))" "keeps (sent L a w) (ata_poll_delay (watch io))"
  unfolding ata_400ns_delay_def ata_poll_delay_def by (intro keeps_rules)+

lemma sent_wait_status [keeps_rules]: "keeps (sent L a w) (wait_status (watch io) required forbidden)"
  unfolding wait_status_def poll_status_def by (intro keeps_rules)

lemma sent_irq_handler [keeps_rules]: "keeps (sent L a w) (ata_irq_handler (watch io))"
  unfolding ata_irq_handler_def by (intro keeps_rules)

lemma sent_observe [keeps_rules]: "keeps (sent L a w) (observe_irq (watch io) required forbidden snapshot)"
  unfolding observe_irq_def
  by (rule keeps_bind, rule keeps_gets) (auto split: ata_observation.split intro!: keeps_rules)

lemma sent_wait_irq [keeps_rules]:
  "keeps (sent L a w) (wait_status_with_irq (watch io) required forbidden snapshot)"
proof -
  have "keeps (sent L a w) (case r of Some (Some b) \<Rightarrow> return b
     | _ \<Rightarrow> do {
           modify (\<lambda>s. s\<lparr>irq_state := ata_irq_state_record_fallback (irq_state s)\<rparr>);
           wait_status (watch io) required forbidden })" for r
    by (auto split: option.split intro!: keeps_rules)
  then show ?thesis
    unfolding wait_status_with_irq_def cpu_interrupts_enabled_def by (intro keeps_rules)
qed

lemma sent_snapshot [keeps_rules]: "keeps (sent L a w) irq_snapshot"
  unfolding irq_snapshot_def by (intro keeps_rules)

lemma hoare_keeps: "keeps I m \<Longrightarrow> hoare I m (\<lambda>_. I)"
  by (simp add: keeps_hoare)

lemma sent_outb: "hoare (sent L a w) (outb (watch io) p v) (\<lambda>_. sent (L @ [Out8 p v]) a w)"
  by (simp add: hoare_def access_defs sent_def watch_def)

lemma sent_outw: "hoare (sent L a w) (outw (watch io) p v) (\<lambda>_. sent (L @ [Out16 p v]) a w)"
  by (simp add: hoare_def access_defs sent_def watch_def)

section \<open>A write request, write by write\<close>

definition log_lba28 :: "u64 \<Rightarrow> u8 \<Rightarrow> port_write list" where
  "log_lba28 lba count =
     [Out8 ATA_DRIVE (ucast (0xE0 OR (drop_bit 24 lba AND 0x0F))), Out8 ATA_SECTOR_COUNT count,
      Out8 ATA_LBA_LOW (ucast lba), Out8 ATA_LBA_MID (ucast (drop_bit 8 lba)),
      Out8 ATA_LBA_HIGH (ucast (drop_bit 16 lba))]"

definition log_lba48 :: "u64 \<Rightarrow> u8 \<Rightarrow> port_write list" where
  "log_lba48 lba count =
     [Out8 ATA_DRIVE 0xE0, Out8 ATA_SECTOR_COUNT 0, Out8 ATA_LBA_LOW (ucast (drop_bit 24 lba)),
      Out8 ATA_LBA_MID (ucast (drop_bit 32 lba)), Out8 ATA_LBA_HIGH (ucast (drop_bit 40 lba)),
      Out8 ATA_SECTOR_COUNT count, Out8 ATA_LBA_LOW (ucast lba), Out8 ATA_LBA_MID (ucast (drop_bit 8 lba)),
      Out8 ATA_LBA_HIGH (ucast (drop_bit 16 lba))]"

definition write_command :: "u64 \<Rightarrow> u8" where
  "write_command lba = (if request_needs_lba48 lba 1 then ATA_CMD_WRITE_EXT else ATA_CMD_WRITE)"

definition log_command :: "u64 \<Rightarrow> port_write list" where
  "log_command lba =
     (if request_needs_lba48 lba 1 then log_lba48 lba 1 else log_lba28 lba 1) @ [Out8 ATA_COMMAND (write_command lba)]"

fun sector_words :: "bytes \<Rightarrow> u16 list" where
  "sector_words (a # b # rest) = (ucast a OR push_bit 8 (ucast b)) # sector_words rest"
| "sector_words _ = []"

definition log_data :: "bytes \<Rightarrow> port_write list" where
  "log_data source = map (Out16 ATA_DATA) (sector_words source)"

lemma sent_select28:
  "hoare (sent L a w) (select_lba28 (watch io) lba count) (\<lambda>_. sent (L @ log_lba28 lba count) a w)"
  unfolding select_lba28_def log_lba28_def
  by (rule hoare_bind, rule sent_outb, rule hoare_bind, rule hoare_keeps, rule sent_delay,
      (rule hoare_bind, rule sent_outb)+, rule hoare_weaken, rule sent_outb, assumption, simp)

lemma sent_select48:
  "hoare (sent L a w) (select_lba48 (watch io) lba count) (\<lambda>_. sent (L @ log_lba48 lba count) a w)"
  unfolding select_lba48_def log_lba48_def
  by (rule hoare_bind, rule sent_outb, rule hoare_bind, rule hoare_keeps, rule sent_delay,
      (rule hoare_bind, rule sent_outb)+, rule hoare_weaken, rule sent_outb, assumption, simp)

lemma sent_select:
  "hoare (sent L a w) (select_request (watch io) lba count)
     (\<lambda>r. sent (if r then L @ (if request_needs_lba48 lba count then log_lba48 lba count
                               else log_lba28 lba count) else L) a w)"
  unfolding select_request_def
  by (rule hoare_bind [OF hoare_keeps [OF keeps_gets]])
     (auto intro!: hoare_return hoare_bind [OF sent_select28] hoare_bind [OF sent_select48])

lemma sent_write_words:
  "hoare (sent L a w) (write_words (watch io) source) (\<lambda>_. sent (L @ log_data source) a w)"
proof (induction source arbitrary: L rule: sector_words.induct)
  case (1 x y rest)
  have split_log: "L @ log_data (x # y # rest) =
      (L @ [Out16 ATA_DATA (ucast x OR push_bit 8 (ucast y))]) @ log_data rest"
    by (simp add: log_data_def)
  show ?case
    unfolding split_log write_words.simps by (rule hoare_bind [OF sent_outw], rule 1)
qed (simp_all add: log_data_def hoare_return)

text \<open>One sector: nothing is sent when the address cannot be selected, the command alone when the
  device does not ask for the data, and otherwise the command and the data.\<close>

lemma sent_write_one:
  "hoare (sent L a w) (write_one (watch io) lba source)
     (\<lambda>r s. (\<not> r \<and> sent L a w s) \<or> (\<not> r \<and> sent (L @ log_command lba) a w s) \<or>
            sent (L @ log_command lba @ log_data (take ATA_SECTOR_SIZE source)) a w s)"
proof -
  let ?sel = "if request_needs_lba48 lba 1 then log_lba48 lba 1 else log_lba28 lba 1"
  let ?post = "\<lambda>r s. (\<not> r \<and> sent L a w s) \<or> (\<not> r \<and> sent (L @ log_command lba) a w s) \<or>
            sent (L @ log_command lba @ log_data (take ATA_SECTOR_SIZE source)) a w s"
  have data: "hoare (sent (L @ log_command lba) a w)
      (do { snapshot' \<leftarrow> irq_snapshot; write_words (watch io) (take ATA_SECTOR_SIZE source);
            wait_status_with_irq (watch io) 0 ATA_STATUS_FAILED snapshot' }) ?post"
    by (rule hoare_bind [OF hoare_keeps [OF sent_snapshot]], rule hoare_bind [OF sent_write_words])
       (rule hoare_weaken [OF hoare_keeps [OF sent_wait_irq]], assumption, simp)
  have command: "hoare (sent (L @ ?sel) a w)
      (do { snapshot \<leftarrow> irq_snapshot;
            outb (watch io) ATA_COMMAND (if request_needs_lba48 lba 1 then ATA_CMD_WRITE_EXT else ATA_CMD_WRITE);
            ata_400ns_delay (watch io);
            ready \<leftarrow> wait_status_with_irq (watch io) ATA_STATUS_DRQ ATA_STATUS_FAILED snapshot;
            if \<not> ready then return False
            else do { snapshot' \<leftarrow> irq_snapshot; write_words (watch io) (take ATA_SECTOR_SIZE source);
              wait_status_with_irq (watch io) 0 ATA_STATUS_FAILED snapshot' } }) ?post"
  proof (rule hoare_bind [OF hoare_keeps [OF sent_snapshot]], rule hoare_bind [OF sent_outb],
      rule hoare_bind [OF hoare_keeps [OF sent_delay(1)]], rule hoare_bind [OF hoare_keeps [OF sent_wait_irq]],
      rule hoare_if)
    show "hoare (sent ((L @ ?sel) @ [Out8 ATA_COMMAND (if request_needs_lba48 lba 1 then ATA_CMD_WRITE_EXT else ATA_CMD_WRITE)]) a w)
        (return False) ?post"
      by (rule hoare_return) (simp add: log_command_def write_command_def)
    show "hoare (sent ((L @ ?sel) @ [Out8 ATA_COMMAND (if request_needs_lba48 lba 1 then ATA_CMD_WRITE_EXT else ATA_CMD_WRITE)]) a w)
        (do { snapshot' \<leftarrow> irq_snapshot; write_words (watch io) (take ATA_SECTOR_SIZE source);
              wait_status_with_irq (watch io) 0 ATA_STATUS_FAILED snapshot' }) ?post"
      using data by (simp add: log_command_def write_command_def)
  qed
  show ?thesis
    unfolding write_one_def
  proof (rule hoare_bind [OF sent_select], rule hoare_if)
    fix r :: bool
    assume "\<not> r"
    then show "hoare (sent (if r then L @ ?sel else L) a w) (return False) ?post" by (simp add: hoare_return)
  next
    fix r :: bool
    assume "\<not> \<not> r"
    then show "hoare (sent (if r then L @ ?sel else L) a w) (do { snapshot \<leftarrow> irq_snapshot;
            outb (watch io) ATA_COMMAND (if request_needs_lba48 lba 1 then ATA_CMD_WRITE_EXT else ATA_CMD_WRITE);
            ata_400ns_delay (watch io);
            ready \<leftarrow> wait_status_with_irq (watch io) ATA_STATUS_DRQ ATA_STATUS_FAILED snapshot;
            if \<not> ready then return False
            else do { snapshot' \<leftarrow> irq_snapshot; write_words (watch io) (take ATA_SECTOR_SIZE source);
              wait_status_with_irq (watch io) 0 ATA_STATUS_FAILED snapshot' } }) ?post"
      using command by simp
  qed
qed

section \<open>What the device makes of it\<close>

datatype transaction = Transfer u8 u64 u16 "u16 list" | Other u8

record task_file =
  drive_reg :: u8
  count_reg :: "u8 \<times> u8"
  low_reg :: "u8 \<times> u8"
  mid_reg :: "u8 \<times> u8"
  high_reg :: "u8 \<times> u8"
  issued :: "transaction list"

definition shift_in :: "u8 \<Rightarrow> u8 \<times> u8 \<Rightarrow> u8 \<times> u8" where
  "shift_in v r = (v, fst r)"

definition address28 :: "task_file \<Rightarrow> u64" where
  "address28 d = ucast (fst (low_reg d)) OR push_bit 8 (ucast (fst (mid_reg d))) OR
     push_bit 16 (ucast (fst (high_reg d))) OR push_bit 24 (ucast (drive_reg d) AND 0x0F)"

definition address48 :: "task_file \<Rightarrow> u64" where
  "address48 d = ucast (fst (low_reg d)) OR push_bit 8 (ucast (fst (mid_reg d))) OR
     push_bit 16 (ucast (fst (high_reg d))) OR push_bit 24 (ucast (snd (low_reg d))) OR
     push_bit 32 (ucast (snd (mid_reg d))) OR push_bit 40 (ucast (snd (high_reg d)))"

definition start_command :: "u8 \<Rightarrow> task_file \<Rightarrow> transaction" where
  "start_command c d =
     (if c \<in> {ATA_CMD_READ, ATA_CMD_READ_DMA, ATA_CMD_WRITE}
      then Transfer c (address28 d) (ucast (fst (count_reg d))) []
      else if c \<in> {ATA_CMD_READ_EXT, ATA_CMD_READ_DMA_EXT, ATA_CMD_WRITE_EXT}
      then Transfer c (address48 d) (ucast (fst (count_reg d)) OR push_bit 8 (ucast (snd (count_reg d)))) []
      else Other c)"

fun take_word :: "u16 \<Rightarrow> transaction list \<Rightarrow> transaction list" where
  "take_word v [] = []"
| "take_word v [Transfer c x n ws] = [Transfer c x n (ws @ [v])]"
| "take_word v (t # ts) = t # take_word v ts"

fun device_step :: "port_write \<Rightarrow> task_file \<Rightarrow> task_file" where
  "device_step (Out8 p v) d =
     (if p = ATA_DRIVE then d\<lparr>drive_reg := v\<rparr>
      else if p = ATA_SECTOR_COUNT then d\<lparr>count_reg := shift_in v (count_reg d)\<rparr>
      else if p = ATA_LBA_LOW then d\<lparr>low_reg := shift_in v (low_reg d)\<rparr>
      else if p = ATA_LBA_MID then d\<lparr>mid_reg := shift_in v (mid_reg d)\<rparr>
      else if p = ATA_LBA_HIGH then d\<lparr>high_reg := shift_in v (high_reg d)\<rparr>
      else if p = ATA_COMMAND then d\<lparr>issued := issued d @ [start_command v d]\<rparr>
      else d)"
| "device_step (Out16 p v) d = (if p = ATA_DATA then d\<lparr>issued := take_word v (issued d)\<rparr> else d)"
| "device_step (Out32 p v) d = d"

definition idle_device :: task_file where
  "idle_device = \<lparr>drive_reg = 0, count_reg = (0, 0), low_reg = (0, 0), mid_reg = (0, 0),
     high_reg = (0, 0), issued = []\<rparr>"

definition commands_sent :: "port_write list \<Rightarrow> transaction list" where
  "commands_sent L = issued (fold device_step L idle_device)"

lemma bit_byte_at:
  "k \<le> 56 \<Longrightarrow> bit (push_bit k (ucast (ucast (drop_bit k x) :: u8)) :: u64) n \<longleftrightarrow> k \<le> n \<and> n < k + 8 \<and> bit (x :: u64) n"
proof -
  assume k: "k \<le> 56"
  have "bit (push_bit k (ucast (ucast (drop_bit k x) :: u8)) :: u64) n \<longleftrightarrow>
      k \<le> n \<and> n < 64 \<and> n - k < 8 \<and> bit x (k + (n - k))"
    by (auto simp: bit_push_bit_iff bit_unsigned_iff bit_drop_bit_eq dest: bit_imp_le_length)
  then show ?thesis using k by (auto dest: bit_imp_le_length)
qed

lemma bit_low8: "bit (ucast (ucast x :: u8) :: u64) n \<longleftrightarrow> n < 8 \<and> bit (x :: u64) n"
  using bit_byte_at [of 0 x n] by simp

lemma bit_low_nibble:
  "bit (push_bit 24 (ucast (ucast (0xE0 OR (drop_bit 24 x AND 0x0F)) :: u8) AND 0x0F) :: u64) n \<longleftrightarrow>
   24 \<le> n \<and> n < 28 \<and> bit (x :: u64) n"
proof -
  have f: "bit (0x0F :: u64) m \<longleftrightarrow> m < 4" for m
  proof -
    have "(0x0F :: u64) = mask 4" by (simp add: mask_eq_exp_minus_1)
    then show ?thesis by (simp only: bit_mask_iff) auto
  qed
  have e: "m < 4 \<Longrightarrow> \<not> bit (0xE0 :: u64) m" for m
  proof -
    have "(0xE0 :: u64) = push_bit 5 7" by simp
    then show "m < 4 \<Longrightarrow> \<not> bit (0xE0 :: u64) m" by (simp only: bit_push_bit_iff) auto
  qed
  have low: "bit (ucast (ucast (0xE0 OR (drop_bit 24 x AND 0x0F)) :: u8) AND 0x0F :: u64) m \<longleftrightarrow> m < 4 \<and> bit x (24 + m)" for m
    by (simp only: bit_and_iff f bit_low8 bit_or_iff bit_drop_bit_eq comp_def) (auto dest: e)
  have shifted: "bit (push_bit 24 y) n \<longleftrightarrow> 24 \<le> n \<and> n < 64 \<and> bit y (n - 24)" for y :: u64
    by (auto simp: bit_push_bit_iff)
  show ?thesis unfolding shifted low by (cases "24 \<le> n") auto
qed

lemma small_lba_bits: "unat (x :: u64) < 2 ^ k \<Longrightarrow> bit x m \<Longrightarrow> m < k"
proof -
  assume x: "unat x < 2 ^ k" and "bit x m"
  then have "bit (unat x) m" by (simp add: bit_unsigned_iff)
  then have "bit (take_bit k (unat x)) m" using take_bit_nat_eq_self [OF x] by simp
  then show "m < k" by (simp add: bit_take_bit_iff)
qed

lemma address28_split:
  assumes "unat (lba :: u64) < 2 ^ 28"
  shows "ucast (ucast lba :: u8) OR push_bit 8 (ucast (ucast (drop_bit 8 lba) :: u8)) OR
     push_bit 16 (ucast (ucast (drop_bit 16 lba) :: u8)) OR
     push_bit 24 (ucast (ucast (0xE0 OR (drop_bit 24 lba AND 0x0F)) :: u8) AND 0x0F) = lba"
proof (rule bit_word_eqI)
  fix n
  show "bit (ucast (ucast lba :: u8) OR push_bit 8 (ucast (ucast (drop_bit 8 lba) :: u8)) OR
     push_bit 16 (ucast (ucast (drop_bit 16 lba) :: u8)) OR
     push_bit 24 (ucast (ucast (0xE0 OR (drop_bit 24 lba AND 0x0F)) :: u8) AND 0x0F) :: u64) n \<longleftrightarrow> bit lba n"
    by (simp only: bit_or_iff bit_low_nibble bit_byte_at bit_low8 numeral_le_iff semiring_norm)
       (use small_lba_bits [OF assms, of n] in linarith)
qed

lemma address48_split:
  assumes "unat (lba :: u64) < 2 ^ 48"
  shows "ucast (ucast lba :: u8) OR push_bit 8 (ucast (ucast (drop_bit 8 lba) :: u8)) OR
     push_bit 16 (ucast (ucast (drop_bit 16 lba) :: u8)) OR push_bit 24 (ucast (ucast (drop_bit 24 lba) :: u8)) OR
     push_bit 32 (ucast (ucast (drop_bit 32 lba) :: u8)) OR push_bit 40 (ucast (ucast (drop_bit 40 lba) :: u8)) = lba"
proof (rule bit_word_eqI)
  fix n
  show "bit (ucast (ucast lba :: u8) OR push_bit 8 (ucast (ucast (drop_bit 8 lba) :: u8)) OR
     push_bit 16 (ucast (ucast (drop_bit 16 lba) :: u8)) OR push_bit 24 (ucast (ucast (drop_bit 24 lba) :: u8)) OR
     push_bit 32 (ucast (ucast (drop_bit 32 lba) :: u8)) OR push_bit 40 (ucast (ucast (drop_bit 40 lba) :: u8)) :: u64) n \<longleftrightarrow> bit lba n"
    by (simp only: bit_or_iff bit_byte_at bit_low8 numeral_le_iff semiring_norm)
       (use small_lba_bits [OF assms, of n] in linarith)
qed

text \<open>The transfers a write request of \<open>n\<close> sectors stands for.\<close>

fun transfers :: "u64 \<Rightarrow> nat \<Rightarrow> bytes \<Rightarrow> transaction list" where
  "transfers lba 0 source = []"
| "transfers lba (Suc n) source =
     Transfer (write_command lba) lba 1 (sector_words (take ATA_SECTOR_SIZE source)) #
     transfers (lba + 1) n (drop ATA_SECTOR_SIZE source)"

fun abandoned :: "transaction \<Rightarrow> transaction" where
  "abandoned (Transfer c x n ws) = Transfer c x n []"
| "abandoned (Other c) = Other c"

text \<open>The beginnings of a list of transfers; the last one may lack its data.\<close>

definition begun :: "transaction list \<Rightarrow> transaction list \<Rightarrow> bool" where
  "begun W T \<longleftrightarrow> (\<exists>k \<le> length W. T = take k W \<or> (k < length W \<and> T = take k W @ [abandoned (W ! k)]))"

lemma begun_simps:
  "begun W []" "begun (t # W) [abandoned t]" "begun (t # W) [t]" "begun W T \<Longrightarrow> begun (t # W) (t # T)" "begun W W"
proof -
  show "begun W []" unfolding begun_def by (rule exI [of _ 0]) simp
  show "begun (t # W) [abandoned t]" unfolding begun_def by (rule exI [of _ 0]) simp
  show "begun (t # W) [t]" unfolding begun_def by (rule exI [of _ 1]) simp
  show "begun W W" unfolding begun_def by (rule exI [of _ "length W"]) simp
  assume "begun W T"
  then obtain k where "k \<le> length W" "T = take k W \<or> (k < length W \<and> T = take k W @ [abandoned (W ! k)])"
    unfolding begun_def by blast
  then show "begun (t # W) (t # T)" unfolding begun_def by (intro exI [of _ "Suc k"]) auto
qed

lemma begun_append: "begun W T \<Longrightarrow> begun (W @ V) T"
proof -
  assume "begun W T"
  then obtain k where "k \<le> length W" "T = take k W \<or> (k < length W \<and> T = take k W @ [abandoned (W ! k)])"
    unfolding begun_def by blast
  then show "begun (W @ V) T" unfolding begun_def by (intro exI [of _ k]) (auto simp: nth_append)
qed

lemma take_word_last: "take_word v (ts @ [Transfer c x n ws]) = ts @ [Transfer c x n (ws @ [v])]"
proof (induction ts)
  case (Cons t ts)
  then show ?case by (cases t; cases ts) auto
qed simp

lemma device_data:
  "issued d = ts @ [Transfer c x n ws] \<Longrightarrow>
   issued (fold device_step (map (Out16 ATA_DATA) vs) d) = ts @ [Transfer c x n (ws @ vs)]"
  by (induction vs arbitrary: d ws) (simp_all add: take_word_last)

lemma device_log_data:
  "issued d = ts @ [Transfer c x n []] \<Longrightarrow>
   issued (fold device_step (log_data source) d) = ts @ [Transfer c x n (sector_words source)]"
  unfolding log_data_def using device_data [of d ts c x n "[]"] by simp

lemma narrow_request: "\<not> request_needs_lba48 lba 1 \<Longrightarrow> unat lba < 2 ^ 28"
  by (simp add: request_needs_lba48_def word_le_nat_alt)

lemma device_log_command:
  assumes "unat lba < 2 ^ 48"
  shows "issued (fold device_step (log_command lba) d) = issued d @ [Transfer (write_command lba) lba 1 []]"
proof (cases "request_needs_lba48 lba 1")
  case True
  then show ?thesis
    using address48_split [OF assms]
    by (simp add: log_command_def write_command_def log_lba48_def shift_in_def start_command_def address48_def)
next
  case False
  then show ?thesis
    using address28_split [OF narrow_request [OF False]]
    by (simp add: log_command_def write_command_def log_lba28_def shift_in_def start_command_def address28_def)
qed

definition extends :: "port_write list \<Rightarrow> port_write list \<Rightarrow> transaction list \<Rightarrow> bool" where
  "extends L M T \<longleftrightarrow> commands_sent M = commands_sent L @ T"

lemma extends_command: "unat lba < 2 ^ 48 \<Longrightarrow> extends L (L @ log_command lba) [Transfer (write_command lba) lba 1 []]"
  by (simp add: extends_def commands_sent_def device_log_command)

lemma extends_sector:
  "unat lba < 2 ^ 48 \<Longrightarrow>
   extends L (L @ log_command lba @ log_data source) [Transfer (write_command lba) lba 1 (sector_words source)]"
  by (simp add: extends_def commands_sent_def device_log_data [OF device_log_command])

lemma extends_trans: "extends L M T \<Longrightarrow> extends M N U \<Longrightarrow> extends L N (T @ U)"
  by (simp add: extends_def)

lemma extends_refl: "extends L L []"
  by (simp add: extends_def)

definition wrote :: "port_write list \<Rightarrow> bool \<Rightarrow> transaction list \<Rightarrow> bool \<Rightarrow>
    ('h \<times> port_write list, 'z) ata_scheme \<Rightarrow> bool" where
  "wrote L wide W r s \<longleftrightarrow> (\<exists>M T. sent M True wide s \<and> extends L M T \<and> begun W T \<and> (r \<longrightarrow> T = W))"

lemma wrote_one:
  assumes "unat lba < 2 ^ 48"
  shows "hoare (sent L True w) (write_one (watch io) lba source)
     (\<lambda>r. wrote L w [Transfer (write_command lba) lba 1 (sector_words (take ATA_SECTOR_SIZE source))] r)"
proof (rule hoare_weaken [OF sent_write_one], assumption)
  fix r and s :: "('a \<times> port_write list, 'b) ata_scheme"
  let ?t = "Transfer (write_command lba) lba 1 (sector_words (take ATA_SECTOR_SIZE source))"
  assume "(\<not> r \<and> sent L True w s) \<or> (\<not> r \<and> sent (L @ log_command lba) True w s) \<or>
            sent (L @ log_command lba @ log_data (take ATA_SECTOR_SIZE source)) True w s"
  then show "wrote L w [?t] r s"
    unfolding wrote_def
    using extends_refl extends_command [OF assms, of L] extends_sector [OF assms, of L "take ATA_SECTOR_SIZE source"]
      begun_simps(1) [of "[?t]"] begun_simps(2,3) [of ?t "[]"] by fastforce
qed

lemma hoare_continue:
  "hoare P m R \<Longrightarrow> (\<And>s. R False s \<Longrightarrow> Q False s) \<Longrightarrow> hoare (R True) k Q \<Longrightarrow>
   hoare P (do { ok \<leftarrow> m; if \<not> ok then return False else k }) Q"
  by (fastforce simp: hoare_def split: prod.split bool.split)

lemma hoare_and_else:
  "hoare P m R \<Longrightarrow> (\<And>s. R False s \<Longrightarrow> Q False s) \<Longrightarrow> hoare (R True) k Q \<Longrightarrow> hoare P (and_then m k) Q"
  unfolding and_then_def by (fastforce simp: hoare_def split: prod.split bool.split)

lemma wrote_all:
  assumes "unat lba + n \<le> 2 ^ 48"
  shows "hoare (sent L True w :: ('a \<times> port_write list, 'b) ata_scheme \<Rightarrow> bool) (write_all (watch io) lba n source) (wrote L w (transfers lba n source))"
  using assms
proof (induction n arbitrary: L lba source)
  case 0
  show ?case
    unfolding write_all.simps transfers.simps wrote_def
    by (rule hoare_return) (use extends_refl begun_simps(1) in blast)
next
  case (Suc n)
  let ?t = "Transfer (write_command lba) lba 1 (sector_words (take ATA_SECTOR_SIZE source))"
  let ?W = "transfers (lba + 1) n (drop ATA_SECTOR_SIZE source)"
  have here: "unat lba < 2 ^ 48" using Suc.prems by simp
  have next_lba: "unat (lba + 1) + n \<le> 2 ^ 48"
    using Suc.prems by (simp add: unat_word_ariths)
  have rest: "hoare (wrote L w [?t] True :: ('a \<times> port_write list, 'b) ata_scheme \<Rightarrow> bool)
      (write_all (watch io) (lba + 1) n (drop ATA_SECTOR_SIZE source))
      (wrote L w (?t # ?W))"
  proof (rule hoareI)
    fix s :: "('a \<times> port_write list, 'b) ata_scheme" and r s'
    assume "wrote L w [?t] True s"
      and run: "run_state (write_all (watch io) (lba + 1) n (drop ATA_SECTOR_SIZE source)) s = (r, s')"
    then obtain M where M: "sent M True w s" "extends L M [?t]" by (auto simp: wrote_def)
    obtain N U where N: "sent N True w s'" "extends M N U" "begun ?W U" "r \<longrightarrow> U = ?W"
      using hoareD [OF Suc.IH [OF next_lba, of M] M(1) run] by (auto simp: wrote_def)
    show "wrote L w (?t # ?W) r s'"
      unfolding wrote_def using N extends_trans [OF M(2) N(2)] begun_simps(4) [OF N(3), of ?t] by auto
  qed
  have stop: "wrote L w [?t] False s \<Longrightarrow> wrote L w (?t # ?W) False s" for s :: "('a \<times> port_write list, 'b) ata_scheme"
    using begun_append [of "[?t]" _ ?W] by (auto simp: wrote_def)
  show ?case
    unfolding write_all.simps transfers.simps by (rule hoare_continue [OF wrote_one [OF here] stop rest])
qed

section \<open>Write requests\<close>

definition write_transactions :: "u64 \<Rightarrow> u8 \<Rightarrow> bytes \<Rightarrow> bool \<Rightarrow> transaction list" where
  "write_transactions lba count data wide =
     transfers lba (unat count) data @ [Other (if wide then ATA_CMD_FLUSH_EXT else ATA_CMD_FLUSH)]"

fun inside :: "u64 \<Rightarrow> u64 \<Rightarrow> transaction \<Rightarrow> bool" where
  "inside start len (Transfer c x n ws) \<longleftrightarrow>
     c \<in> {ATA_CMD_WRITE, ATA_CMD_WRITE_EXT} \<and> n = 1 \<and> unat start \<le> unat x \<and> unat x < unat start + unat len"
| "inside start len (Other c) \<longleftrightarrow> c \<in> {ATA_CMD_FLUSH, ATA_CMD_FLUSH_EXT}"

lemma inside_abandoned [simp]: "inside start len (abandoned t) = inside start len t"
  by (cases t) simp_all

lemma begun_subset: "begun W T \<Longrightarrow> set T \<subseteq> set W \<union> abandoned ` set W"
  unfolding begun_def using set_take_subset by fastforce

lemma transfers_inside:
  assumes "unat start \<le> unat lba" "unat lba + n \<le> unat start + unat len" "unat lba + n \<le> 2 ^ 48"
  shows "list_all (inside start len) (transfers lba n source)"
  using assms
proof (induction n arbitrary: lba source)
  case (Suc n)
  have "unat (lba + 1) = unat lba + 1" using Suc.prems(3) by (simp add: unat_word_ariths)
  then show ?case using Suc by (simp add: write_command_def)
qed simp

lemma wrote_flush:
  assumes "unat lba + unat count \<le> 2 ^ 48"
  shows "hoare (sent L True w :: ('a \<times> port_write list, 'b) ata_scheme \<Rightarrow> bool)
     (and_then (wait_status (watch io) 0 ATA_STATUS_BSY)
       (and_then (write_all (watch io) lba (unat count) data) (do {
         snapshot \<leftarrow> irq_snapshot;
         wide \<leftarrow> gets lba48_supported;
         outb (watch io) ATA_COMMAND (if wide then ATA_CMD_FLUSH_EXT else ATA_CMD_FLUSH);
         wait_status_with_irq (watch io) 0 ATA_STATUS_FAILED snapshot })))
     (wrote L w (write_transactions lba count data w))"
    (is "hoare _ (and_then ?wait (and_then ?all ?flush)) (wrote L w ?W)")
proof -
  let ?F = "if w then ATA_CMD_FLUSH_EXT else ATA_CMD_FLUSH"
  have flush: "hoare (sent M True w :: ('a \<times> port_write list, 'b) ata_scheme \<Rightarrow> bool) ?flush
      (\<lambda>r. sent (M @ [Out8 ATA_COMMAND ?F]) True w)" for M
  proof (rule hoare_bind [OF hoare_keeps [OF sent_snapshot]],
      rule hoare_bind [where R = "\<lambda>wide s. wide = w \<and> sent M True w s"])
    show "hoare (sent M True w :: ('a \<times> port_write list, 'b) ata_scheme \<Rightarrow> bool) (gets lba48_supported)
        (\<lambda>wide s. wide = w \<and> sent M True w s)"
      by (rule hoare_gets) (simp add: sent_def)
    show "hoare (\<lambda>s. wide = w \<and> sent M True w s :: bool)
        (do { outb (watch io) ATA_COMMAND (if wide then ATA_CMD_FLUSH_EXT else ATA_CMD_FLUSH);
              wait_status_with_irq (watch io) 0 ATA_STATUS_FAILED snapshot })
        (\<lambda>r. sent (M @ [Out8 ATA_COMMAND ?F]) True w :: ('a \<times> port_write list, 'b) ata_scheme \<Rightarrow> bool)" for wide snapshot
      by (rule hoare_value, rule hoare_bind [OF sent_outb], rule hoare_keeps [OF sent_wait_irq])
  qed
  have started: "extends M (M @ [Out8 ATA_COMMAND ?F]) [Other ?F]" for M
    by (simp add: extends_def commands_sent_def start_command_def)
  have last: "hoare (wrote L w (transfers lba (unat count) data) True :: ('a \<times> port_write list, 'b) ata_scheme \<Rightarrow> bool)
      ?flush (wrote L w ?W)"
  proof (rule hoareI)
    fix s :: "('a \<times> port_write list, 'b) ata_scheme" and r s'
    assume "wrote L w (transfers lba (unat count) data) True s" and run: "run_state ?flush s = (r, s')"
    then obtain M where M: "sent M True w s" "extends L M (transfers lba (unat count) data)" by (auto simp: wrote_def)
    show "wrote L w ?W r s'"
      using hoareD [OF flush M(1) run] extends_trans [OF M(2) started] begun_simps(5) [of ?W]
      unfolding wrote_def write_transactions_def by blast
  qed
  have stop: "wrote L w (transfers lba (unat count) data) False s \<Longrightarrow> wrote L w ?W False s"
    for s :: "('a \<times> port_write list, 'b) ata_scheme"
    unfolding wrote_def write_transactions_def using begun_append by blast
  have quiet: "sent L True w s \<Longrightarrow> wrote L w ?W False s" for s :: "('a \<times> port_write list, 'b) ata_scheme"
    using extends_refl begun_simps(1) by (auto simp: wrote_def)
  have "hoare (sent L True w :: ('a \<times> port_write list, 'b) ata_scheme \<Rightarrow> bool) (and_then ?all ?flush) (wrote L w ?W)"
    by (rule hoare_and_else [OF wrote_all [OF assms] stop last])
  then show ?thesis
    by (rule hoare_and_else [where R = "\<lambda>_. sent L True w", OF hoare_keeps [OF sent_wait_status], rotated]) (rule quiet)
qed

lemma write_permitted_bounds:
  assumes "write_permitted lba count b s" "unat (sectors s) \<le> 2 ^ 48"
  shows "unat (write_window_start s) \<le> unat lba"
    and "unat lba + unat count \<le> unat (write_window_start s) + unat (write_window_sectors s)"
    and "unat lba + unat count \<le> 2 ^ 48"
proof -
  have v: "\<not> sectors s \<le> lba" "\<not> sectors s - lba < ucast count" "\<not> lba < write_window_start s"
    "\<not> write_window_sectors s \<le> lba - write_window_start s"
    "\<not> write_window_sectors s - (lba - write_window_start s) < ucast count"
    using assms(1) by (auto simp: write_permitted_def valid_request_def not_le not_less)
  have c: "unat (ucast count :: u64) = unat count" by (simp add: unsigned_ucast_eq take_bit_eq_mod order_less_trans [OF unsigned_less [of count]])
  show start: "unat (write_window_start s) \<le> unat lba" using v(3) by (simp add: word_less_nat_alt not_less)
  have d: "unat (lba - write_window_start s) = unat lba - unat (write_window_start s)"
    using v(3) by (simp add: unat_sub not_less)
  have "unat (lba - write_window_start s) < unat (write_window_sectors s)"
    using v(4) by (simp add: word_le_nat_alt)
  moreover have "unat (write_window_sectors s - (lba - write_window_start s)) =
      unat (write_window_sectors s) - unat (lba - write_window_start s)"
    using v(4) by (simp add: unat_sub)
  ultimately show "unat lba + unat count \<le> unat (write_window_start s) + unat (write_window_sectors s)"
    using v(5) c d start by (simp add: word_less_nat_alt)
  have "unat (sectors s - lba) = unat (sectors s) - unat lba" using v(1) by (simp add: unat_sub)
  then show "unat lba + unat count \<le> 2 ^ 48"
    using v(1,2) c assms(2) by (simp add: word_less_nat_alt word_le_nat_alt)
qed

text \<open>C30: Whatever the device does, a write request the driver refuses leaves every port untouched
  and the driver as it was. A request it accepts sends, in order, a beginning of the list of
  single-sector write commands for its sectors with their data and a final cache flush, the whole
  list when it reports success; every command addresses, by the 28-bit or 48-bit task file it was
  given, one sector inside the write window; and the driver accepts new requests afterwards.\<close>
theorem ata_write_commands:
  assumes "run_state (ata_write_sectors (watch io) lba count (Some data)) s = (r, s')"
    and "snd (hw s) = []" "unat (sectors s) \<le> 2 ^ 48"
  shows "if write_permitted lba count True s \<and> \<not> request_active s
    then let T = commands_sent (snd (hw s')); W = write_transactions lba count data (lba48_supported s)
         in begun W T \<and> (r \<longrightarrow> T = W) \<and>
            list_all (inside (write_window_start s) (write_window_sectors s)) T \<and> \<not> request_active s'
    else \<not> r \<and> s' = s"
proof (cases "write_permitted lba count True s \<and> \<not> request_active s")
  case True
  note bounds = write_permitted_bounds [OF conjunct1 [OF True] assms(3)]
  let ?body = "and_then (wait_status (watch io) 0 ATA_STATUS_BSY)
       (and_then (write_all (watch io) lba (unat count) data) (do {
         snapshot \<leftarrow> irq_snapshot;
         wide \<leftarrow> gets lba48_supported;
         outb (watch io) ATA_COMMAND (if wide then ATA_CMD_FLUSH_EXT else ATA_CMD_FLUSH);
         wait_status_with_irq (watch io) 0 ATA_STATUS_FAILED snapshot }))"
  let ?s1 = "s\<lparr>request_active := True\<rparr>"
  let ?W = "write_transactions lba count data (lba48_supported s)"
  obtain r1 s1 where run: "run_state ?body ?s1 = (r1, s1)" by fastforce
  have res: "r = r1" "s' = s1\<lparr>request_active := False\<rparr>"
    using assms(1) True run
    by (simp_all add: ata_write_sectors_def begin_request_def end_request_def)
  have "sent [] True (lba48_supported s) ?s1" using assms(2) by (simp add: sent_def)
  from hoareD [OF wrote_flush [OF bounds(3)] this run]
  obtain M T where M: "sent M True (lba48_supported s) s1" "extends [] M T" "begun ?W T" "r1 \<longrightarrow> T = ?W"
    by (auto simp: wrote_def)
  have T: "commands_sent (snd (hw s')) = T"
    using M res by (simp add: sent_def extends_def commands_sent_def idle_device_def)
  have "list_all (inside (write_window_start s) (write_window_sectors s)) ?W"
    using transfers_inside [OF bounds] by (simp add: write_transactions_def)
  then have "list_all (inside (write_window_start s) (write_window_sectors s)) T"
    using begun_subset [OF M(3)] by (auto simp: list_all_iff)
  then show ?thesis using True T M res by simp
next
  case False
  then show ?thesis
    using assms(1) by (auto simp: ata_write_sectors_def begin_request_def split: if_splits)
qed

text \<open>A device that is always ready, and a driver with a window of four sectors.\<close>

definition ready_device :: "unit bus" where
  "ready_device =
     \<lparr>in8 = (\<lambda>p h. (0x48, h)), in16 = (\<lambda>p h. (0, h)), in32 = (\<lambda>p h. (0, h)), out8 = (\<lambda>p v h. h),
      out16 = (\<lambda>p v h. h), out32 = (\<lambda>p v h. h), mem_load8 = (\<lambda>a h. (0, h)), mem_store8 = (\<lambda>a v h. h),
      mem_load32 = (\<lambda>a h. (0, h)), mem_store32 = (\<lambda>a v h. h), interrupt_flag = (\<lambda>h. False),
      relax = (\<lambda>h. (False, h))\<rparr>"

definition ata_example :: "pmm \<Rightarrow> (unit \<times> port_write list) ata" where
  "ata_example p =
     \<lparr>hw = ((), []), frames = p, devices = [], device_count = 0, ahci_msi_state = clear_saved_state,
      ahci_msi_bus = 0, ahci_msi_slot = 0, ahci_msi_function = 0, device_present = True,
      sectors = 0x10000010, last_status = 0, identify_type = 0, identify_capabilities = 0,
      identify_multiword_dma = 0, lba48_supported = True, writes_protected = False,
      write_window_start = 0x0FFFFFFE, write_window_sectors = 4, primary_block_sectors = 0x10000010,
      irq_state = ata_irq_state_reset, request_active = False, dma_controller = None, dma_io_base = 0,
      dma_bounce_physical = 0, dma_prdt_physical = 0, dma_transfer_mode = 0, dma_enabled = False,
      dma_transfers = 0, dma_fallbacks = 0\<rparr>"

theorem ata_write_commands_witness:
  "\<exists>p r s'. run_state (ata_write_sectors (watch ready_device) 0x0FFFFFFF 2 (Some (replicate 1024 7))) (ata_example p) = (r, s') \<and>
     begun (write_transactions 0x0FFFFFFF 2 (replicate 1024 7) True) (commands_sent (snd (hw s'))) \<and>
     list_all (inside 0x0FFFFFFE 4) (commands_sent (snd (hw s'))) \<and> \<not> request_active s'"
proof -
  fix p
  obtain r s' where run: "run_state (ata_write_sectors (watch ready_device) 0x0FFFFFFF 2 (Some (replicate 1024 7))) (ata_example p) = (r, s')"
    by fastforce
  have "write_permitted 0x0FFFFFFF 2 True (ata_example p)"
    by (simp add: write_permitted_def valid_request_def ata_example_def word_le_nat_alt)
  then show ?thesis
    using run ata_write_commands [OF run] by (auto simp: ata_example_def Let_def intro!: exI [of _ p])
qed

section \<open>The geometry of the device\<close>

definition geometry :: "('h, 'z) ata_scheme \<Rightarrow> bool \<times> u64 \<times> bool \<times> u64 \<times> u64 \<times> bool" where
  "geometry s = (device_present s, sectors s, lba48_supported s, write_window_start s, write_window_sectors s,
     writes_protected s)"

abbreviation fixed :: "bool \<times> u64 \<times> bool \<times> u64 \<times> u64 \<times> bool \<Rightarrow> ('h, 'z) ata_scheme \<Rightarrow> bool" where
  "fixed G s \<equiv> geometry s = G"

lemma fixed_access [keeps_rules]:
  "keeps (fixed G) (on_hw f)" "keeps (fixed G) (on_frames g)"
  "keeps (fixed G) (inb io p)" "keeps (fixed G) (inw io p)" "keeps (fixed G) (inl io p)"
  "keeps (fixed G) (outb io p b)" "keeps (fixed G) (outw io p v)" "keeps (fixed G) (outl io p u)"
  "keeps (fixed G) (load8 io a)" "keeps (fixed G) (store8 io a b)" "keeps (fixed G) (store32 io a u)"
  by (simp_all add: keeps_def access_defs geometry_def)

lemma fixed_fields [keeps_rules]:
  "keeps (fixed G) (modify (\<lambda>s. s\<lparr>last_status := f s\<rparr>))" "keeps (fixed G) (modify (\<lambda>s. s\<lparr>irq_state := g s\<rparr>))"
  "keeps (fixed G) (modify (\<lambda>s. s\<lparr>last_status := v, irq_state := g s\<rparr>))"
  "keeps (fixed G) (modify (\<lambda>s. s\<lparr>request_active := b\<rparr>))"
  "keeps (fixed G) (modify (\<lambda>s. if dma_enabled s then s\<lparr>dma_enabled := b, dma_fallbacks := n s\<rparr> else s))"
  "keeps (fixed G) (modify forget_dma)" "keeps (fixed G) (modify (\<lambda>s. s\<lparr>dma_transfers := n s\<rparr>))"
  "keeps (fixed G) (modify (\<lambda>s. s\<lparr>dma_controller := c, dma_io_base := x, dma_bounce_physical := y,
     dma_prdt_physical := z, dma_transfer_mode := m\<rparr>))"
  "keeps (fixed G) (modify (\<lambda>s. s\<lparr>dma_enabled := b\<rparr>))"
  by (simp_all add: keeps_def geometry_def forget_dma_def)

lemma fixed_waits [keeps_rules]:
  "keeps (fixed G) (ata_400ns_delay io)" "keeps (fixed G) (ata_poll_delay io)"
  "keeps (fixed G) begin_request" "keeps (fixed G) end_request"
  "keeps (fixed G) (wait_status io required forbidden)" "keeps (fixed G) (ata_irq_handler io)"
  "keeps (fixed G) irq_snapshot"
  unfolding ata_400ns_delay_def ata_poll_delay_def begin_request_def end_request_def wait_status_def poll_status_def
    ata_irq_handler_def irq_snapshot_def
  by (intro keeps_rules)+

lemma fixed_observe [keeps_rules]: "keeps (fixed G) (observe_irq io required forbidden snapshot)"
  unfolding observe_irq_def
  by (rule keeps_bind, rule keeps_gets) (auto split: ata_observation.split intro!: keeps_rules)

lemma fixed_wait_irq [keeps_rules]: "keeps (fixed G) (wait_status_with_irq io required forbidden snapshot)"
proof -
  have "keeps (fixed G) (case r of Some (Some b) \<Rightarrow> return b
     | _ \<Rightarrow> do {
           modify (\<lambda>s. s\<lparr>irq_state := ata_irq_state_record_fallback (irq_state s)\<rparr>);
           wait_status io required forbidden })" for r
    by (auto split: option.split intro!: keeps_rules)
  then show ?thesis
    unfolding wait_status_with_irq_def cpu_interrupts_enabled_def by (intro keeps_rules)
qed

lemma fixed_select [keeps_rules]:
  "keeps (fixed G) (ata_soft_reset io)" "keeps (fixed G) (select_request io lba count)"
  unfolding ata_soft_reset_def select_request_def select_lba28_def select_lba48_def Let_def by (intro keeps_rules)+

lemma fixed_config [keeps_rules]:
  "keeps (fixed G) (pci_enable_ide_bus_master io d)" "keeps (fixed G) (pci_disable_ide_bus_master io d)"
  unfolding pci_enable_ide_bus_master_def pci_disable_ide_bus_master_def command_read_def command_write_def
    pci_config_read_word_def pci_config_write_word_def pci_config_read_def
  by (intro keeps_rules)+

lemma fixed_dma [keeps_rules]:
  "keeps (fixed G) (stop_dma_engine io)" "keeps (fixed G) (free_frame a)"
  "keeps (fixed G) (disable_dma_after_failure io)" "keeps (fixed G) (set_dma_transfer_mode io mode)"
  "keeps (fixed G) find_dma_controller" "keeps (fixed G) (store_prd io a prd)"
  unfolding stop_dma_engine_def free_frame_def disable_dma_after_failure_def set_dma_transfer_mode_def
    find_dma_controller_def store_prd_def
  by (intro keeps_rules)+

lemma fixed_memory [keeps_rules]: "keeps (fixed G) (clear_memory io a n)" "keeps (fixed G) (copy_memory io a n)"
  by (induction n arbitrary: a) (auto intro!: keeps_rules)

lemma fixed_chunk [keeps_rules]: "keeps (fixed G) (ata_read_dma_chunk io lba count)"
  unfolding ata_read_dma_chunk_def Let_def by (intro keeps_rules)

lemma fixed_chunks [keeps_rules]: "keeps (fixed G) (read_dma_chunks io lba n)"
proof (induction n arbitrary: lba rule: less_induct)
  case (less n)
  then show ?case
    by (subst read_dma_chunks.simps) (auto simp: Let_def intro!: keeps_rules)
qed

lemma fixed_words [keeps_rules]:
  "keeps (fixed G) (read_words io n)" "keeps (fixed G) (read_identify io n)"
  by (induction n) (auto intro!: keeps_rules)

lemma fixed_pio [keeps_rules]: "keeps (fixed G) (read_pio_sectors io snapshot n)"
  by (induction n arbitrary: snapshot) (auto intro!: keeps_rules)

lemma fixed_attempts [keeps_rules]: "keeps (fixed G) (read_attempts io lba count n)"
  by (induction n) (auto simp: ata_read_dma_once_def ata_read_pio_once_def intro!: keeps_rules)

lemma fixed_write [keeps_rules]:
  "keeps (fixed G) (write_words io source)" "keeps (fixed G) (write_all io lba n source)"
proof -
  show words: "keeps (fixed G) (write_words io source)" for source
    by (induction io source rule: write_words.induct) (auto intro!: keeps_rules)
  show "keeps (fixed G) (write_all io lba n source)"
    by (induction n arbitrary: lba source) (auto simp: write_one_def intro!: keeps_rules words)
qed

text \<open>
  The device has at most as many sectors as its addressing mode reaches, and an open write window
  lies inside the device.
\<close>

fun geometry_ok :: "bool \<times> u64 \<times> bool \<times> u64 \<times> u64 \<times> bool \<Rightarrow> bool" where
  "geometry_ok (present, n, wide, start, len, protected) \<longleftrightarrow>
     unat n \<le> (if wide then 2 ^ 48 else 2 ^ 28) \<and> (present \<longleftrightarrow> n \<noteq> 0) \<and>
     (protected \<or> unat start + unat len \<le> unat n)"

datatype ata_call = Ata_init | Ata_read u64 u8 bool | Ata_write u64 u8 "bytes option"
  | Ata_enable_writes u64 u64 | Ata_disable_writes | Ata_irq | Ata_enable_irq | Ata_enable_dma

fun do_call :: "'h bus \<Rightarrow> ata_call \<Rightarrow> ('h, 'z, unit) ata_m" where
  "do_call io Ata_init = ata_init io"
| "do_call io (Ata_read lba count buffer) = do { ata_read_sectors io lba count buffer; return () }"
| "do_call io (Ata_write lba count buffer) = do { ata_write_sectors io lba count buffer; return () }"
| "do_call io (Ata_enable_writes start len) = do { ata_enable_transactional_writes start len; return () }"
| "do_call io Ata_disable_writes = ata_disable_transactional_writes"
| "do_call io Ata_irq = ata_irq_handler io"
| "do_call io Ata_enable_irq = do { ata_enable_irq_mode io; return () }"
| "do_call io Ata_enable_dma = do { ata_enable_dma_mode io; return () }"

lemma keeps_geometry: "(\<And>G. keeps (fixed G) m) \<Longrightarrow> keeps (\<lambda>s. P (geometry s)) m"
  by (simp add: keeps_def)

lemma fixed_requests:
  "keeps (fixed G) (ata_read_sectors io lba count buffer)" "keeps (fixed G) (ata_write_sectors io lba count data)"
  "keeps (fixed G) (ata_enable_irq_mode io)"
  unfolding ata_read_sectors_def ata_write_sectors_def ata_enable_irq_mode_def
  by (intro keeps_rules; simp add: keeps_def)+

lemma fixed_enable_dma: "keeps (fixed G) (ata_enable_dma_mode io)"
  unfolding ata_enable_dma_mode_def install_dma_def
  by (intro keeps_rules; simp add: keeps_def)

lemma identify_capacity_bounds:
  "identify_capacity words = Some (n, wide) \<Longrightarrow> n \<noteq> 0 \<and> unat n \<le> (if wide then 2 ^ 48 else 2 ^ 28)"
  by (auto simp: identify_capacity_def Let_def word_less_nat_alt not_less split: if_splits)

lemma init_ok: "hoare (\<lambda>_. True) (ata_init io) (\<lambda>_ s. geometry_ok (geometry s))"
proof -
  let ?I = "\<lambda>s. (\<lambda>(present, n, wide, start, len, protected).
    protected \<and> geometry_ok (present, n, wide, start, len, protected)) (geometry s)"
  note fixed = fixed_access fixed_waits fixed_words fixed_dma fixed_select
  have reset: "hoare (\<lambda>_. True) (modify ata_reset_state) (\<lambda>_. ?I)"
    by (rule hoare_modify) (simp add: geometry_def ata_reset_state_def)
  have ident: "keeps ?I (modify (\<lambda>s. s\<lparr>identify_type := a, identify_capabilities := b, identify_multiword_dma := c\<rparr>))" for a b c
    by (simp add: keeps_def geometry_def)
  have found: "keeps ?I (modify (\<lambda>s. s\<lparr>sectors := n, lba48_supported := wide, device_present := True\<rparr>))"
    if "identify_capacity words = Some (n, wide)" for words n wide
    using identify_capacity_bounds [OF that] by (auto simp: keeps_def geometry_def)
  have configured: "keeps ?I (modify (\<lambda>s. s\<lparr>primary_block_sectors := n\<rparr>))"
    "keeps ?I (modify (\<lambda>s. s\<lparr>device_present := False, sectors := 0\<rparr>))" for n
    by (auto simp: keeps_def geometry_def)
  note steps = keeps_return keeps_bind keeps_if keeps_option keeps_prod ident found configured keeps_geometry [OF fixed(1)]
    keeps_geometry [OF fixed_access(3)] keeps_geometry [OF fixed_access(6)] keeps_geometry [OF fixed_waits(1)]
    keeps_geometry [OF fixed_waits(5)] keeps_geometry [OF fixed_words(2)]
  have "hoare (\<lambda>_. True) (ata_init io) (\<lambda>_. ?I)"
    unfolding ata_init_def
    by (rule hoare_bind [where R = "\<lambda>_ _. True"], simp add: hoare_def case_prod_beta,
        rule hoare_bind [where R = "\<lambda>_ _. True"], simp add: hoare_def case_prod_beta, rule hoare_bind [OF reset],
        rule hoare_keeps, (intro steps | simp)+)
  then show ?thesis by (rule hoare_weaken) (auto split: prod.splits)
qed

lemma keeps_run: "keeps I m \<Longrightarrow> I s \<Longrightarrow> I (snd (run_state m s))"
  by (simp add: keeps_def)

lemma init_run: "geometry_ok (geometry (snd (run_state (ata_init io) s)))"
  by (rule hoareD [OF init_ok TrueI, of io s "fst (run_state (ata_init io) s)"]) (rule prod.collapse [symmetric])

lemma call_ok: "keeps (\<lambda>s. geometry_ok (geometry s)) (do_call io c)"
proof (cases c)
  case Ata_init
  then show ?thesis by (simp add: keeps_def init_run)
next
  case (Ata_enable_writes start len)
  have opened: "geometry_ok (True, n, wide, start, len, False)"
    if "geometry_ok (True, n, wide, x, y, b)" "\<not> n \<le> start" "\<not> n - start < len" for n wide x y b
  proof -
    have "unat (n - start) = unat n - unat start" using that(2) by (simp add: unat_sub not_le)
    then show ?thesis using that by (auto simp: word_less_nat_alt word_le_nat_alt)
  qed
  show ?thesis
    unfolding Ata_enable_writes do_call.simps keeps_def
  proof (intro allI impI)
    fix s :: "('a, 'b) ata_scheme"
    assume ok: "geometry_ok (geometry s)"
    show "geometry_ok (geometry (snd (run_state (do { ata_enable_transactional_writes start len; return () }) s)))"
    proof (cases "\<not> device_present s \<or> len = 0 \<or> sectors s \<le> start \<or> sectors s - start < len")
      case True
      then show ?thesis using ok by (simp add: ata_enable_transactional_writes_def)
    next
      case False
      then show ?thesis
        using ok opened [of "sectors s" "lba48_supported s" "write_window_start s" "write_window_sectors s" "writes_protected s"]
        by (simp add: ata_enable_transactional_writes_def geometry_def)
    qed
  qed
next
  case Ata_disable_writes
  then show ?thesis by (simp add: ata_disable_transactional_writes_def keeps_def geometry_def)
qed (simp_all only: do_call.simps,
  (rule keeps_geometry [where P = geometry_ok], intro keeps_bind keeps_return fixed_requests fixed_enable_dma fixed_waits(6))+)

text \<open>C34: From ata_init on, whatever the device answers and whichever calls of the driver follow,
  the sector count stays within the reach of the addressing mode in use, a device is present
  exactly when it has sectors, and an open write window lies inside the device.\<close>
theorem ata_geometry_invariant:
  "geometry_ok (geometry (snd (run_state (each (Ata_init # calls) (do_call io)) s)))"
  by (simp add: case_prod_beta) (rule keeps_run [OF keeps_each [OF call_ok] init_run])

end
