(* ===== verification/Fat.thy ===== *)
theory Fat
  imports Effects Ramfs
begin

text \<open>
  The FAT16 reader of \<open>fs/fat.c\<close> over the sector-read callback of its caller: mounting, the root
  directory listing, path lookup and file reads. Counts and cluster numbers are 32-bit and sector
  addresses 64-bit words, with the wrap-around of the source. The loops over cluster chains are
  bounded by the number of clusters, as in the source.
\<close>

section \<open>State\<close>

abbreviation FAT_SECTOR_SIZE :: u32 where "FAT_SECTOR_SIZE \<equiv> 512"
abbreviation FAT16_EOC :: u16 where "FAT16_EOC \<equiv> 0xFFF8"
abbreviation FAT16_BAD :: u16 where "FAT16_BAD \<equiv> 0xFFF7"
abbreviation FAT_ATTR_DIRECTORY :: u8 where "FAT_ATTR_DIRECTORY \<equiv> 0x10"
abbreviation FAT_ATTR_VOLUME_ID :: u8 where "FAT_ATTR_VOLUME_ID \<equiv> 0x08"
abbreviation FAT_ATTR_LFN :: u8 where "FAT_ATTR_LFN \<equiv> 0x0F"

type_synonym 'd fat_read_fn = "u64 \<Rightarrow> ('d, bytes option) state"

record fat_volume =
  start_lba :: u64
  total_sectors :: u32
  fat_start :: u64
  root_start :: u64
  data_start :: u64
  sectors_per_fat :: u32
  fat_count :: u32
  root_entries :: u32
  sectors_per_cluster :: u32
  cluster_count :: u32
  mounted :: bool

record fat_directory =
  dir_cluster :: u32
  dir_root :: bool

section \<open>Sectors and numbers\<close>

definition read_sector :: "'d fat_read_fn \<Rightarrow> fat_volume \<Rightarrow> u64 \<Rightarrow> ('d, bytes option) state" where
  "read_sector rd volume lba =
     (if \<not> mounted volume \<or> lba < start_lba volume \<or> lba - start_lba volume \<ge> ucast (total_sectors volume)
      then return None else rd lba)"

definition fat_read_u16 :: "bytes \<Rightarrow> nat \<Rightarrow> u16" where
  "fat_read_u16 data off = ucast (data ! off) OR push_bit 8 (ucast (data ! (off + 1)))"

definition fat_read_u32 :: "bytes \<Rightarrow> nat \<Rightarrow> u32" where
  "fat_read_u32 data off = ucast (data ! off) OR push_bit 8 (ucast (data ! (off + 1))) OR
     push_bit 16 (ucast (data ! (off + 2))) OR push_bit 24 (ucast (data ! (off + 3)))"

section \<open>Names\<close>

text \<open>The scan for the dot: \<open>None\<close> when the name is refused, otherwise the position of the dot,
  the length when there is none.\<close>

fun find_dot :: "bytes \<Rightarrow> nat \<Rightarrow> nat list \<Rightarrow> nat \<Rightarrow> nat option" where
  "find_dot name_text len [] dot = Some dot"
| "find_dot name_text len (i # is) dot =
     (if name_text ! i = 0x2E
      then if dot \<noteq> len \<or> i = 0 \<or> i + 1 = len then None else find_dot name_text len is i
      else find_dot name_text len is dot)"

definition bad_short_character :: "u8 \<Rightarrow> bool" where
  "bad_short_character c \<longleftrightarrow>
     c < 0x21 \<or> c = 0x2F \<or> c = 0x5C \<or> c = 0x3A \<or> c = 0x22 \<or> c = 0x2A \<or> c = 0x3F \<or> c = 0x3C \<or> c = 0x3E \<or> c = 0x7C"

definition upper_case :: "u8 \<Rightarrow> u8" where
  "upper_case c = (if c \<ge> 0x61 \<and> c \<le> 0x7A then c - 0x20 else c)"

fun store_short :: "bytes \<Rightarrow> nat \<Rightarrow> bytes \<Rightarrow> (nat \<times> bytes) option" where
  "store_short [] output short_name = Some (output, short_name)"
| "store_short (c # cs) output short_name =
     (if c = 0x2E then store_short cs 8 short_name
      else if bad_short_character c then None
      else if output \<ge> 11 then None
      else store_short cs (output + 1) (short_name[output := upper_case c]))"

definition short_name_from_text :: "bytes option \<Rightarrow> bytes option" where
  "short_name_from_text name_text =
     (let len = string_length name_text 13 in
      if len = 0 \<or> len \<ge> 13 then None
      else let s = the name_text in
        case find_dot s len [0 ..< len] len of None \<Rightarrow> None
        | Some dot \<Rightarrow>
            if dot > 8 \<or> (dot \<noteq> len \<and> len - dot - 1 > 3) then None
            else case store_short (take len s) 0 (replicate 11 0x20) of None \<Rightarrow> None
              | Some (output, short_name) \<Rightarrow> if output \<noteq> 0 then Some short_name else None)"

definition name_matches :: "bytes \<Rightarrow> bytes \<Rightarrow> bool" where
  "name_matches entry short_name = list_all (\<lambda>i. entry ! i = short_name ! i) [0 ..< 11]"

text \<open>\<open>entry_to_text\<close>: the characters written before the terminator, for a buffer of the given
  capacity.\<close>

definition entry_to_text :: "bytes \<Rightarrow> nat \<Rightarrow> bytes" where
  "entry_to_text entry capacity =
     (if capacity = 0 then []
      else let base = take (capacity - 1) (takeWhile (\<lambda>c. c \<noteq> 0x20) (take 8 entry)) in
        if entry ! 8 \<noteq> 0x20 \<and> length base + 1 < capacity
        then take (capacity - 1) (base @ [0x2E] @ takeWhile (\<lambda>c. c \<noteq> 0x20) (take 3 (drop 8 entry)))
        else base)"

section \<open>The file allocation table\<close>

text \<open>The comparison with the mirrored tables, from copy \<open>i\<close> on.\<close>

fun mirrors_agree :: "'d fat_read_fn \<Rightarrow> fat_volume \<Rightarrow> u32 \<Rightarrow> bytes \<Rightarrow> nat list \<Rightarrow> ('d, bool) state" where
  "mirrors_agree rd volume offset primary [] = return True"
| "mirrors_agree rd volume offset primary (i # is) = do {
     r \<leftarrow> read_sector rd volume (fat_start volume + ucast (of_nat i * sectors_per_fat volume) + ucast (offset div FAT_SECTOR_SIZE));
     case r of None \<Rightarrow> return False
     | Some mirror \<Rightarrow>
         let at = unat (offset mod FAT_SECTOR_SIZE) in
         if mirror ! at \<noteq> primary ! at \<or> mirror ! (at + 1) \<noteq> primary ! (at + 1) then return False
         else mirrors_agree rd volume offset primary is }"

definition read_fat_entry :: "'d fat_read_fn \<Rightarrow> fat_volume \<Rightarrow> u32 \<Rightarrow> ('d, u16 option) state" where
  "read_fat_entry rd volume cluster =
     (if cluster < 2 \<or> cluster \<ge> cluster_count volume + 2 then return None
      else let offset = cluster * 2 in do {
        r \<leftarrow> read_sector rd volume (fat_start volume + ucast (offset div FAT_SECTOR_SIZE));
        case r of None \<Rightarrow> return None
        | Some primary \<Rightarrow> do {
            agree \<leftarrow> mirrors_agree rd volume offset primary [1 ..< unat (fat_count volume)];
            let next = fat_read_u16 primary (unat (offset mod FAT_SECTOR_SIZE));
            return (if agree \<and> next \<noteq> FAT16_BAD \<and> next < FAT16_EOC then Some next else None) } })"

section \<open>Directories\<close>

datatype dir_scan = Scan_found bytes | Scan_stop | Scan_more

definition dir_item :: "bytes \<Rightarrow> nat \<Rightarrow> bytes" where
  "dir_item sector item = take 32 (drop (item * 32) sector)"

fun scan_items :: "bytes \<Rightarrow> bytes \<Rightarrow> nat list \<Rightarrow> dir_scan" where
  "scan_items sector short_name [] = Scan_more"
| "scan_items sector short_name (item # rest) =
     (let candidate = dir_item sector item in
      if candidate ! 0 = 0 then Scan_stop
      else if candidate ! 0 = 0xE5 \<or> candidate ! 11 = FAT_ATTR_LFN \<or> candidate ! 11 AND FAT_ATTR_VOLUME_ID \<noteq> 0
      then scan_items sector short_name rest
      else if name_matches candidate short_name then Scan_found candidate
      else scan_items sector short_name rest)"

text \<open>The items of sector \<open>i\<close> of the root directory.\<close>

definition root_items :: "fat_volume \<Rightarrow> nat \<Rightarrow> nat list" where
  "root_items volume i = filter (\<lambda>item. i * 16 + item < unat (root_entries volume)) [0 ..< 16]"

definition root_sectors :: "fat_volume \<Rightarrow> nat" where
  "root_sectors volume = unat ((root_entries volume + 15) div 16)"

definition cluster_lba :: "fat_volume \<Rightarrow> u32 \<Rightarrow> nat \<Rightarrow> u64" where
  "cluster_lba volume cluster i =
     data_start volume + ucast ((cluster - 2) * sectors_per_cluster volume) + of_nat i"

fun scan_sectors :: "'d fat_read_fn \<Rightarrow> fat_volume \<Rightarrow> bytes \<Rightarrow> (u64 \<times> nat list) list \<Rightarrow> ('d, dir_scan) state" where
  "scan_sectors rd volume short_name [] = return Scan_more"
| "scan_sectors rd volume short_name ((lba, items) # rest) = do {
     r \<leftarrow> read_sector rd volume lba;
     case r of None \<Rightarrow> return Scan_stop
     | Some sector \<Rightarrow>
         (case scan_items sector short_name items of
            Scan_more \<Rightarrow> scan_sectors rd volume short_name rest
          | found \<Rightarrow> return found) }"

definition cluster_sectors :: "fat_volume \<Rightarrow> u32 \<Rightarrow> (u64 \<times> nat list) list" where
  "cluster_sectors volume cluster =
     map (\<lambda>i. (cluster_lba volume cluster i, [0 ..< 16])) [0 ..< unat (sectors_per_cluster volume)]"

function scan_clusters :: "'d fat_read_fn \<Rightarrow> fat_volume \<Rightarrow> bytes \<Rightarrow> u32 \<Rightarrow> nat \<Rightarrow> ('d, bytes option) state" where
  "scan_clusters rd volume short_name cluster guard = do {
     r \<leftarrow> scan_sectors rd volume short_name (cluster_sectors volume cluster);
     case r of
       Scan_found entry \<Rightarrow> return (Some entry)
     | Scan_stop \<Rightarrow> return None
     | Scan_more \<Rightarrow> do {
         next \<leftarrow> read_fat_entry rd volume cluster;
         case next of None \<Rightarrow> return None
         | Some next_cluster \<Rightarrow>
             if guard + 1 \<ge> unat (cluster_count volume) then return None
             else scan_clusters rd volume short_name (ucast next_cluster) (guard + 1) } }"
  by pat_completeness auto
termination
  by (relation "measure (\<lambda>(rd, volume, s, c, guard). unat (cluster_count volume) - guard)") auto

declare scan_clusters.simps [simp del]

definition find_entry_in_directory :: "'d fat_read_fn \<Rightarrow> fat_volume \<Rightarrow> fat_directory \<Rightarrow> bytes \<Rightarrow>
    ('d, bytes option) state" where
  "find_entry_in_directory rd volume dir short_name =
     (if \<not> dir_root dir \<and> (dir_cluster dir < 2 \<or> dir_cluster dir \<ge> cluster_count volume + 2) then return None
      else if dir_root dir then do {
        r \<leftarrow> scan_sectors rd volume short_name
          (map (\<lambda>i. (root_start volume + of_nat i, root_items volume i)) [0 ..< root_sectors volume]);
        return (case r of Scan_found entry \<Rightarrow> Some entry | _ \<Rightarrow> None) }
      else scan_clusters rd volume short_name (dir_cluster dir) 0)"

text \<open>The path from one component on; a component ends at a slash or at the end of the text.\<close>

definition is_slash :: "u8 \<Rightarrow> bool" where "is_slash c \<longleftrightarrow> c = 0x2F"

lemma shorter_rest: "dropWhile P xs \<noteq> [] \<Longrightarrow> length (tl (dropWhile P xs)) < length xs"
  using length_dropWhile_le [of P xs] by (cases "dropWhile P xs") simp_all

function walk_path :: "'d fat_read_fn \<Rightarrow> fat_volume \<Rightarrow> fat_directory \<Rightarrow> bytes \<Rightarrow> ('d, bytes option) state" where
  "walk_path rd volume dir path =
     (let component = takeWhile (\<lambda>c. \<not> is_slash c) path; rest = dropWhile (\<lambda>c. \<not> is_slash c) path in
      if length component + 1 > 13 \<or> component = [] then return None
      else case short_name_from_text (Some component) of None \<Rightarrow> return None
        | Some short_name \<Rightarrow> do {
            r \<leftarrow> find_entry_in_directory rd volume dir short_name;
            case r of None \<Rightarrow> return None
            | Some entry \<Rightarrow>
                if rest = [] then return (Some entry)
                else if entry ! 11 AND FAT_ATTR_DIRECTORY = 0 then return None
                else let cluster = ucast (fat_read_u16 entry 26) in
                  if cluster < 2 \<or> cluster \<ge> cluster_count volume + 2 then return None
                  else if tl rest = [] then return None
                  else walk_path rd volume \<lparr>dir_cluster = cluster, dir_root = False\<rparr> (tl rest) })"
  by pat_completeness auto
termination
  by (relation "measure (\<lambda>(rd, volume, dir, path). length path)") (simp_all add: shorter_rest del: length_tl)

declare walk_path.simps [simp del]

definition find_path :: "'d fat_read_fn \<Rightarrow> fat_volume \<Rightarrow> bytes option \<Rightarrow> ('d, bytes option) state" where
  "find_path rd volume path =
     (case path of None \<Rightarrow> return None
      | Some p \<Rightarrow>
          if deref p = 0x2F then return None
          else walk_path rd volume \<lparr>dir_cluster = 0, dir_root = True\<rparr> (cstring p))"

section \<open>Mounting\<close>

text \<open>What the boot sector states: the error number when it is refused, else the volume.\<close>

definition fat_layout :: "u64 \<Rightarrow> bytes \<Rightarrow> u32 + fat_volume" where
  "fat_layout start boot =
     (if boot ! 510 \<noteq> 0x55 \<or> boot ! 511 \<noteq> 0xAA then Inl 3
      else
        let bytes_per_sector = fat_read_u16 boot 11;
            cluster_size = boot ! 13;
            reserved = fat_read_u16 boot 14;
            fats = boot ! 16;
            roots = fat_read_u16 boot 17;
            per_fat = fat_read_u16 boot 22;
            media = boot ! 21;
            total = (if fat_read_u16 boot 19 = 0 then fat_read_u32 boot 32 else ucast (fat_read_u16 boot 19))
        in if bytes_per_sector \<noteq> 512 \<or> media < 0xF0 \<or> cluster_size = 0 \<or> cluster_size > 128 \<or>
              cluster_size AND (cluster_size - 1) \<noteq> 0 \<or> reserved = 0 \<or> fats = 0 \<or> roots = 0 \<or> per_fat = 0 \<or> total = 0
        then Inl 4
        else
          let tables = ucast fats * ucast per_fat;
              root_secs = (ucast roots * 32 + FAT_SECTOR_SIZE - 1) div FAT_SECTOR_SIZE
          in if total \<le> ucast reserved + tables + root_secs then Inl 5
          else
            let data_sectors = total - ucast reserved - tables - root_secs;
                clusters = data_sectors div ucast cluster_size;
                capacity = (ucast per_fat * FAT_SECTOR_SIZE) div 2
            in if data_sectors = 0 \<or> clusters < 4085 \<or> clusters \<ge> 65525 \<or> capacity < clusters + 2 then Inl 6
            else if start > 0xFFFFFFFFFFFFFFFF - (ucast total - 1) then Inl 7
            else Inr \<lparr>start_lba = start, total_sectors = total, fat_start = start + ucast reserved,
                   root_start = start + ucast reserved + ucast tables,
                   data_start = start + ucast reserved + ucast tables + ucast root_secs,
                   sectors_per_fat = ucast per_fat, fat_count = ucast fats, root_entries = ucast roots,
                   sectors_per_cluster = ucast cluster_size, cluster_count = clusters, mounted = True\<rparr>)"

text \<open>The address of the first sector of table \<open>i\<close>, kept in 32 bits by the source.\<close>

definition fat_header_lba :: "u64 \<Rightarrow> u16 \<Rightarrow> u16 \<Rightarrow> nat \<Rightarrow> u32" where
  "fat_header_lba start reserved per_fat i = ucast (start + ucast reserved + ucast (of_nat i * ucast per_fat :: u32))"

fun check_headers :: "'d fat_read_fn \<Rightarrow> u64 \<Rightarrow> bytes \<Rightarrow> nat list \<Rightarrow> ('d, bool) state" where
  "check_headers rd start boot [] = return True"
| "check_headers rd start boot (i # is) = do {
     r \<leftarrow> rd (ucast (fat_header_lba start (fat_read_u16 boot 14) (fat_read_u16 boot 22) i));
     case r of None \<Rightarrow> return False
     | Some header \<Rightarrow>
         if header ! 0 \<noteq> boot ! 21 \<or> header ! 1 \<noteq> 0xFF \<or> header ! 2 \<noteq> 0xFF then return False
         else check_headers rd start boot is }"

text \<open>The error number, 0 on success, and the volume left behind.\<close>

definition fat_mount :: "'d fat_read_fn \<Rightarrow> u64 \<Rightarrow> fat_volume \<Rightarrow> ('d, u32 \<times> fat_volume) state" where
  "fat_mount rd start volume =
     (let refused = volume\<lparr>mounted := False, start_lba := start\<rparr> in do {
        r \<leftarrow> rd start;
        case r of None \<Rightarrow> return (2, refused)
        | Some boot \<Rightarrow>
            (case fat_layout start boot of
               Inl err \<Rightarrow> return (err, refused)
             | Inr v \<Rightarrow> do {
                 ok \<leftarrow> check_headers rd start boot [0 ..< unat (boot ! 16)];
                 return (if ok then (0, v) else (8, refused)) }) })"

section \<open>Listing and reading\<close>

definition is_file_entry :: "bytes \<Rightarrow> bool" where
  "is_file_entry entry \<longleftrightarrow> entry ! 0 \<noteq> 0xE5 \<and> entry ! 11 \<noteq> FAT_ATTR_LFN \<and>
     entry ! 11 AND (FAT_ATTR_DIRECTORY OR FAT_ATTR_VOLUME_ID) = 0"

text \<open>The files of the root directory up to the first free entry or unreadable sector; the flag
  tells whether the whole directory was read without a failed sector.\<close>

fun root_file_entries :: "bytes \<Rightarrow> nat list \<Rightarrow> bytes list \<times> bool" where
  "root_file_entries sector [] = ([], True)"
| "root_file_entries sector (item # rest) =
     (let entry = dir_item sector item in
      if entry ! 0 = 0 then ([], False)
      else case root_file_entries sector rest of
          (es, go) \<Rightarrow> (if is_file_entry entry then entry # es else es, go))"

fun root_files :: "'d fat_read_fn \<Rightarrow> fat_volume \<Rightarrow> nat list \<Rightarrow> ('d, bytes list) state" where
  "root_files rd volume [] = return []"
| "root_files rd volume (i # is) = do {
     r \<leftarrow> read_sector rd volume (root_start volume + of_nat i);
     case r of None \<Rightarrow> return []
     | Some sector \<Rightarrow>
         (case root_file_entries sector (root_items volume i) of
            (es, go) \<Rightarrow>
              if go then do { rest \<leftarrow> root_files rd volume is; return (es @ rest) } else return es) }"

definition fat_file_count :: "'d fat_read_fn \<Rightarrow> fat_volume \<Rightarrow> ('d, nat) state" where
  "fat_file_count rd volume =
     (if \<not> mounted volume then return 0
      else do { es \<leftarrow> root_files rd volume [0 ..< root_sectors volume]; return (length es) })"

text \<open>The listing stops at the wanted file: sectors behind it are not read.\<close>

fun nth_root_file :: "'d fat_read_fn \<Rightarrow> fat_volume \<Rightarrow> nat list \<Rightarrow> nat \<Rightarrow> ('d, bytes option) state" where
  "nth_root_file rd volume [] index = return None"
| "nth_root_file rd volume (i # is) index = do {
     r \<leftarrow> read_sector rd volume (root_start volume + of_nat i);
     case r of None \<Rightarrow> return None
     | Some sector \<Rightarrow>
         (case root_file_entries sector (root_items volume i) of
            (es, go) \<Rightarrow>
              if index < length es then return (Some (es ! index))
              else if go then nth_root_file rd volume is (index - length es) else return None) }"

definition fat_file_name :: "'d fat_read_fn \<Rightarrow> fat_volume \<Rightarrow> nat \<Rightarrow> nat \<Rightarrow> ('d, bytes option) state" where
  "fat_file_name rd volume index capacity =
     (if \<not> mounted volume \<or> capacity = 0 then return None
      else do {
        r \<leftarrow> nth_root_file rd volume [0 ..< root_sectors volume] index;
        return (map_option (\<lambda>entry. entry_to_text entry capacity) r) })"

text \<open>The sectors of one cluster while bytes remain: the bytes read and the number still to read.\<close>

fun read_cluster :: "'d fat_read_fn \<Rightarrow> fat_volume \<Rightarrow> u32 \<Rightarrow> nat list \<Rightarrow> u32 \<Rightarrow> ('d, (bytes \<times> u32) option) state" where
  "read_cluster rd volume cluster [] remaining = return (Some ([], remaining))"
| "read_cluster rd volume cluster (i # is) remaining =
     (if remaining = 0 then return (Some ([], 0))
      else do {
        r \<leftarrow> read_sector rd volume (cluster_lba volume cluster i);
        case r of None \<Rightarrow> return None
        | Some sector \<Rightarrow>
            let amount = (if remaining < FAT_SECTOR_SIZE then remaining else FAT_SECTOR_SIZE) in do {
              rest \<leftarrow> read_cluster rd volume cluster is (remaining - amount);
              return (map_option (\<lambda>(bs, n). (take (unat amount) sector @ bs, n)) rest) } })"

function read_chain :: "'d fat_read_fn \<Rightarrow> fat_volume \<Rightarrow> u32 \<Rightarrow> nat \<Rightarrow> u32 \<Rightarrow> ('d, bytes option) state" where
  "read_chain rd volume cluster guard remaining =
     (if remaining = 0 then return (Some [])
      else if cluster < 2 \<or> cluster \<ge> cluster_count volume + 2 \<or> guard \<ge> unat (cluster_count volume) then return None
      else do {
        r \<leftarrow> read_cluster rd volume cluster [0 ..< unat (sectors_per_cluster volume)] remaining;
        case r of None \<Rightarrow> return None
        | Some (bs, left) \<Rightarrow>
            if left = 0 then return (Some bs)
            else do {
              next \<leftarrow> read_fat_entry rd volume cluster;
              case next of None \<Rightarrow> return None
              | Some next_cluster \<Rightarrow> do {
                  rest \<leftarrow> read_chain rd volume (ucast next_cluster) (guard + 1) left;
                  return (map_option (\<lambda>tl. bs @ tl) rest) } } })"
  by pat_completeness auto
termination
  by (relation "measure (\<lambda>(rd, volume, c, guard, n). unat (cluster_count volume) - guard)") auto

declare read_chain.simps [simp del]

text \<open>The part of \<open>fat_read_file\<close> behind the lookup.\<close>

definition read_found :: "'d fat_read_fn \<Rightarrow> fat_volume \<Rightarrow> bytes \<Rightarrow> u32 \<Rightarrow> ('d, bytes option) state" where
  "read_found rd volume entry capacity =
     (if entry ! 11 AND (FAT_ATTR_DIRECTORY OR FAT_ATTR_VOLUME_ID OR FAT_ATTR_LFN) \<noteq> 0 then return None
      else let remaining = fat_read_u32 entry 28;
               max_sectors = cluster_count volume * sectors_per_cluster volume;
               cluster = ucast (fat_read_u16 entry 26)
        in if remaining > capacity \<or> remaining div FAT_SECTOR_SIZE > max_sectors \<or>
              (remaining mod FAT_SECTOR_SIZE \<noteq> 0 \<and> remaining div FAT_SECTOR_SIZE \<ge> max_sectors) then return None
           else if remaining = 0 then return (if cluster \<noteq> (0 :: u32) then None else Some [])
           else read_chain rd volume cluster 0 remaining)"

definition fat_read_file :: "'d fat_read_fn \<Rightarrow> fat_volume \<Rightarrow> bytes option \<Rightarrow> u32 \<Rightarrow> ('d, bytes option) state" where
  "fat_read_file rd volume path capacity =
     (if \<not> mounted volume then return None
      else do {
        found \<leftarrow> find_path rd volume path;
        case found of None \<Rightarrow> return None | Some entry \<Rightarrow> read_found rd volume entry capacity })"

end
