(* ===== verification/FatFiles.thy ===== *)
theory FatFiles
  imports Fat
begin

text \<open>
  What the FAT16 reader computes over a device whose sectors do not change while it reads. The
  contents of a file are stated over the chain of clusters in the mirrored allocation tables; the
  reader returns exactly these contents, or fails exactly when there are none.
\<close>

section \<open>The contents of a volume\<close>

type_synonym contents = "u64 \<Rightarrow> bytes option"

definition sector_at :: "contents \<Rightarrow> fat_volume \<Rightarrow> contents" where
  "sector_at disk v lba =
     (if mounted v \<and> start_lba v \<le> lba \<and> lba - start_lba v < ucast (total_sectors v) then disk lba else None)"

definition sized :: "contents \<Rightarrow> bool" where
  "sized disk \<longleftrightarrow> (\<forall>lba b. disk lba = Some b \<longrightarrow> length b = 512)"

definition in_range :: "fat_volume \<Rightarrow> u32 \<Rightarrow> bool" where
  "in_range v c \<longleftrightarrow> 2 \<le> c \<and> c < cluster_count v + 2"

text \<open>The entry of cluster \<open>c\<close> in copy \<open>i\<close> of the table.\<close>

definition table_entry :: "contents \<Rightarrow> fat_volume \<Rightarrow> nat \<Rightarrow> u32 \<Rightarrow> u16 option" where
  "table_entry disk v i c =
     map_option (\<lambda>sector. fat_read_u16 sector (unat (c * 2 mod 512)))
       (sector_at disk v (fat_start v + ucast (of_nat i * sectors_per_fat v) + ucast (c * 2 div 512)))"

definition fat_link :: "contents \<Rightarrow> fat_volume \<Rightarrow> u32 \<Rightarrow> u16 option" where
  "fat_link disk v c =
     (case table_entry disk v 0 c of None \<Rightarrow> None
      | Some n \<Rightarrow>
          if in_range v c \<and> n < FAT16_BAD \<and> (\<forall>i\<in>{1 ..< unat (fat_count v)}. table_entry disk v i c = Some n)
          then Some n else None)"

fun linked :: "contents \<Rightarrow> fat_volume \<Rightarrow> u32 list \<Rightarrow> bool" where
  "linked disk v [] = True"
| "linked disk v [c] = in_range v c"
| "linked disk v (c # d # cs) = (map_option ucast (fat_link disk v c) = Some d \<and> linked disk v (d # cs))"

definition cluster_lbas :: "fat_volume \<Rightarrow> u32 \<Rightarrow> u64 list" where
  "cluster_lbas v c = map (cluster_lba v c) [0 ..< unat (sectors_per_cluster v)]"

definition sectors_for :: "nat \<Rightarrow> nat" where
  "sectors_for n = (n + 511) div 512"

definition cluster_bytes :: "fat_volume \<Rightarrow> nat" where
  "cluster_bytes v = 512 * unat (sectors_per_cluster v)"

definition stored :: "contents \<Rightarrow> fat_volume \<Rightarrow> u64 list \<Rightarrow> nat \<Rightarrow> bytes \<Rightarrow> bool" where
  "stored disk v lbas n bs \<longleftrightarrow>
     (\<forall>lba\<in>set lbas. sector_at disk v lba \<noteq> None) \<and> bs = take n (concat (map (\<lambda>lba. the (sector_at disk v lba)) lbas))"

text \<open>\<open>n\<close> bytes are stored from cluster \<open>c\<close> on: the chain has just the clusters they need.\<close>

definition occupies :: "contents \<Rightarrow> fat_volume \<Rightarrow> u32 \<Rightarrow> nat \<Rightarrow> bytes \<Rightarrow> bool" where
  "occupies disk v c n bs \<longleftrightarrow>
     (\<exists>cs. linked disk v (c # cs) \<and> length (c # cs) = (n + cluster_bytes v - 1) div cluster_bytes v \<and>
        stored disk v (take (sectors_for n) (concat (map (cluster_lbas v) (c # cs)))) n bs)"

section \<open>One cluster at a time\<close>

lemma sectors_for_simps [simp]: "sectors_for 0 = 0" "sectors_for (512 * k + n) = k + sectors_for n"
  by (simp_all add: sectors_for_def)

lemma sectors_for_step: "0 < n \<Longrightarrow> sectors_for n = Suc (sectors_for (n - 512))"
proof (cases "n \<le> 512")
  case False
  then obtain m where "n = 512 * 1 + m" by (metis add.commute le_add_diff_inverse2 linorder_le_cases mult_1_right)
  then show ?thesis using sectors_for_simps(2) [of 1 m] by simp
next
  case True
  assume "0 < n"
  with True have "(n + 511) div 512 = 1" by (intro div_nat_eqI) auto
  then show ?thesis using True by (simp add: sectors_for_def)
qed

lemma sectors_for_le: "sectors_for n \<le> k \<longleftrightarrow> n \<le> 512 * k"
  unfolding sectors_for_def by (simp add: less_Suc_eq_le [symmetric] div_less_iff_less_mult) linarith

lemma length_cluster_lbas [simp]: "length (cluster_lbas v c) = unat (sectors_per_cluster v)"
  by (simp add: cluster_lbas_def)

lemma linked_in_range: "linked disk v (c # cs) \<Longrightarrow> in_range v c"
  by (cases cs) (auto simp: fat_link_def split: option.splits if_splits)

lemma occupies_one:
  assumes "0 < n" "n \<le> cluster_bytes v"
  shows "occupies disk v c n bs \<longleftrightarrow> in_range v c \<and> stored disk v (take (sectors_for n) (cluster_lbas v c)) n bs"
proof -
  have "(n + cluster_bytes v - 1) div cluster_bytes v = 1"
    using assms by (intro div_nat_eqI) auto
  then show ?thesis by (auto simp: occupies_def)
qed

lemma stored_append:
  assumes "sized disk" and "n = 512 * length xs + m"
  shows "stored disk v (xs @ ys) n bs \<longleftrightarrow>
    (\<exists>a b. stored disk v xs (512 * length xs) a \<and> stored disk v ys m b \<and> bs = a @ b)"
proof -
  have len: "length (concat (map (\<lambda>lba. the (sector_at disk v lba)) xs)) = 512 * length xs"
    if "\<forall>lba\<in>set xs. sector_at disk v lba \<noteq> None"
    using that assms(1) by (induction xs) (auto simp: sector_at_def sized_def split: if_splits)
  then show ?thesis unfolding stored_def assms(2) by auto
qed

lemma occupies_more:
  assumes sizes: "sized disk"
    and n: "n = cluster_bytes v + m" "0 < m" "0 < sectors_per_cluster v"
  shows "occupies disk v c n bs \<longleftrightarrow>
    (\<exists>x a b. fat_link disk v c = Some x \<and> stored disk v (cluster_lbas v c) (cluster_bytes v) a \<and>
       occupies disk v (ucast x) m b \<and> bs = a @ b)"
proof -
  have pos: "0 < cluster_bytes v" using n(3) by (simp add: cluster_bytes_def unat_gt_0)
  have count: "(n + cluster_bytes v - 1) div cluster_bytes v = Suc ((m + cluster_bytes v - 1) div cluster_bytes v)"
    using pos n div_add_self1 [of "cluster_bytes v" "m + cluster_bytes v - 1"] by (simp add: add.commute)
  have more: "(m + cluster_bytes v - 1) div cluster_bytes v \<noteq> 0" using pos n(2) by (simp add: div_eq_0_iff)
  have split: "stored disk v (take (sectors_for n) (concat (map (cluster_lbas v) (c # cs)))) n bs \<longleftrightarrow>
      (\<exists>a b. stored disk v (cluster_lbas v c) (cluster_bytes v) a \<and>
         stored disk v (take (sectors_for m) (concat (map (cluster_lbas v) cs))) m b \<and> bs = a @ b)" for cs
    using stored_append [of disk n "cluster_lbas v c" m v "take (sectors_for m) (concat (map (cluster_lbas v) cs))" bs] sizes
    by (simp add: n(1) cluster_bytes_def)
  show ?thesis
  proof
    assume "occupies disk v c n bs"
    then obtain cs where cs: "linked disk v (c # cs)"
      "length (c # cs) = Suc ((m + cluster_bytes v - 1) div cluster_bytes v)"
      "stored disk v (take (sectors_for n) (concat (map (cluster_lbas v) (c # cs)))) n bs"
      unfolding occupies_def count by blast
    then obtain d ds where ds: "cs = d # ds" using more by (cases cs) auto
    then obtain x where "fat_link disk v c = Some x" "d = ucast x" "linked disk v (d # ds)" using cs(1) by auto
    then show "\<exists>x a b. fat_link disk v c = Some x \<and> stored disk v (cluster_lbas v c) (cluster_bytes v) a \<and>
       occupies disk v (ucast x) m b \<and> bs = a @ b"
      using cs(2,3) unfolding split ds occupies_def by auto
  next
    assume "\<exists>x a b. fat_link disk v c = Some x \<and> stored disk v (cluster_lbas v c) (cluster_bytes v) a \<and>
       occupies disk v (ucast x) m b \<and> bs = a @ b"
    then obtain x a b cs where "fat_link disk v c = Some x" "stored disk v (cluster_lbas v c) (cluster_bytes v) a"
      "linked disk v (ucast x # cs)" "length (ucast x # cs :: u32 list) = (m + cluster_bytes v - 1) div cluster_bytes v"
      "stored disk v (take (sectors_for m) (concat (map (cluster_lbas v) (ucast x # cs)))) m b" "bs = a @ b"
      unfolding occupies_def by blast
    then show "occupies disk v c n bs"
      unfolding occupies_def split count by (intro exI [of _ "ucast x # cs"]) auto
  qed
qed

lemma stored_whole:
  assumes sizes: "sized disk" and n: "512 * length ls \<le> n"
  shows "stored disk v (take (sectors_for n) ls) n a \<longleftrightarrow> stored disk v ls (512 * length ls) a"
proof -
  have "length ls \<le> sectors_for n" using n by (auto simp: sectors_for_def less_eq_div_iff_mult_less_eq)
  moreover have "stored disk v ls n a \<longleftrightarrow> stored disk v ls (512 * length ls) a"
    using stored_append [OF sizes, of n ls "n - 512 * length ls" v "[]" a] n by (simp add: stored_def)
  ultimately show ?thesis by simp
qed

lemma occupies_step:
  assumes sizes: "sized disk" and pos: "0 < n" "0 < sectors_per_cluster v"
  shows "occupies disk v c n bs \<longleftrightarrow> in_range v c \<and>
    (\<exists>a. stored disk v (take (sectors_for n) (cluster_lbas v c)) n a \<and>
       (if n \<le> cluster_bytes v then bs = a
        else \<exists>x b. fat_link disk v c = Some x \<and> occupies disk v (ucast x) (n - cluster_bytes v) b \<and> bs = a @ b))"
proof (cases "n \<le> cluster_bytes v")
  case True
  then show ?thesis using occupies_one [of n v disk c bs] pos by auto
next
  case False
  then have "stored disk v (take (sectors_for n) (cluster_lbas v c)) n a =
      stored disk v (cluster_lbas v c) (cluster_bytes v) a" for a
    using stored_whole [of disk "cluster_lbas v c" n v a] sizes by (simp add: cluster_bytes_def)
  moreover have "fat_link disk v c = Some x \<Longrightarrow> in_range v c" for x
    by (auto simp: fat_link_def split: option.splits if_splits)
  ultimately show ?thesis
    using False occupies_more [of disk n v "n - cluster_bytes v" c bs] sizes pos by auto
qed

section \<open>Reading over a stable device\<close>

text \<open>What the reader relies on: from the states \<open>I\<close> every sector read returns the contents.\<close>

definition serves :: "('d \<Rightarrow> bool) \<Rightarrow> 'd fat_read_fn \<Rightarrow> contents \<Rightarrow> bool" where
  "serves I rd disk \<longleftrightarrow> (\<forall>lba. yields I (rd lba) (disk lba))"

lemma read_sector_yields: "serves I rd disk \<Longrightarrow> yields I (read_sector rd v lba) (sector_at disk v lba)"
  by (auto simp: read_sector_def sector_at_def serves_def intro: yields_return)

lemma fat_read_u16_bytes: "bit (fat_read_u16 s k) j \<longleftrightarrow> (if j < 8 then bit (s ! k) j else bit (s ! Suc k) (j - 8))"
  by (auto simp: fat_read_u16_def bit_simps dest: bit_imp_le_length)

lemma fat_read_u16_inject: "fat_read_u16 s k = fat_read_u16 t k \<longleftrightarrow> s ! k = t ! k \<and> s ! Suc k = t ! Suc k"
proof
  assume eq: "fat_read_u16 s k = fat_read_u16 t k"
  have "bit (s ! k) j = bit (t ! k) j \<and> bit (s ! Suc k) j = bit (t ! Suc k) j" if "j < 8" for j
    using arg_cong [OF eq, of "\<lambda>w. bit w j"] arg_cong [OF eq, of "\<lambda>w. bit w (j + 8)"] that
    by (simp add: fat_read_u16_bytes)
  then show "s ! k = t ! k \<and> s ! Suc k = t ! Suc k" by (auto intro!: bit_word_eqI)
qed (simp add: fat_read_u16_def)

lemma mirrors_agree_yields:
  assumes "serves I rd disk"
  shows "yields I (mirrors_agree rd v (c * 2) p is)
    (\<forall>i\<in>set is. table_entry disk v i c = Some (fat_read_u16 p (unat (c * 2 mod 512))))"
proof (induction "is")
  case (Cons i "is")
  show ?case
    unfolding mirrors_agree.simps
    by (rule yields_bind [OF read_sector_yields [OF assms]])
      (use Cons in \<open>auto simp: table_entry_def Let_def fat_read_u16_inject intro!: yields_return split: option.split\<close>)
qed (simp add: yields_return)

lemma read_fat_entry_yields:
  assumes "serves I rd disk"
  shows "yields I (read_fat_entry rd v c) (fat_link disk v c)"
proof (cases "in_range v c")
  case True
  note first = read_sector_yields [OF assms, of v "fat_start v + ucast (c * 2 div 512)"]
  show ?thesis
  proof (cases "sector_at disk v (fat_start v + ucast (c * 2 div 512))")
    case None
    then show ?thesis using True first
      by (auto simp: read_fat_entry_def in_range_def fat_link_def table_entry_def Let_def not_less not_le
          intro!: yields_bind [OF first] yields_return)
  next
    case (Some p)
    then have entry: "table_entry disk v 0 c = Some (fat_read_u16 p (unat (c * 2 mod 512)))"
      by (simp add: table_entry_def)
    have less: "(n \<noteq> FAT16_BAD \<and> n < FAT16_EOC) = (n < FAT16_BAD)" for n :: u16
      by (simp add: word_less_nat_alt word_unat_eq_iff) linarith
    have link: "fat_link disk v c =
        (let n = fat_read_u16 p (unat (c * 2 mod 512)) in
         if (\<forall>i\<in>set [1 ..< unat (fat_count v)]. table_entry disk v i c = Some n) \<and> n \<noteq> FAT16_BAD \<and> n < FAT16_EOC
         then Some n else None)"
      unfolding fat_link_def entry Let_def less using True by (auto split: if_splits)
    have ok: "(c < 2 \<or> c \<ge> cluster_count v + 2) = False" using True by (auto simp: in_range_def)
    have body: "yields I (read_fat_entry rd v c)
        (let n = fat_read_u16 p (unat (c * 2 mod 512)) in
         if (\<forall>i\<in>set [1 ..< unat (fat_count v)]. table_entry disk v i c = Some n) \<and> n \<noteq> FAT16_BAD \<and> n < FAT16_EOC
         then Some n else None)"
      unfolding read_fat_entry_def Let_def
      by (simp only: ok if_False)
        (rule yields_bind [OF first], simp only: Some option.case,
          rule yields_bind [OF mirrors_agree_yields [OF assms]], rule yields_return, rule refl)
    show ?thesis using body unfolding link .
  qed
next
  case False
  then show ?thesis
    by (auto simp: read_fat_entry_def in_range_def fat_link_def not_less not_le intro!: yields_return split: option.split)
qed

lemma stored_Cons:
  assumes "sized disk"
  shows "stored disk v (lba # ls) n bs \<longleftrightarrow>
    (\<exists>s b. sector_at disk v lba = Some s \<and> stored disk v ls (n - 512) b \<and> bs = take n s @ b)"
proof (cases "sector_at disk v lba")
  case (Some s)
  then have "length s = 512" using assms by (auto simp: sector_at_def sized_def split: if_splits)
  then show ?thesis using Some by (auto simp: stored_def)
qed (simp add: stored_def)

lemma read_cluster_yields:
  assumes "serves I rd disk" and sizes: "sized disk"
  shows "\<exists>r. yields I (read_cluster rd v c is rem) r \<and>
    (\<forall>bs left. r = Some (bs, left) \<longleftrightarrow>
       stored disk v (take (sectors_for (unat rem)) (map (cluster_lba v c) is)) (unat rem) bs \<and>
       unat left = unat rem - 512 * length is)"
proof (induction "is" arbitrary: rem)
  case Nil
  show ?case by (rule exI [of _ "Some ([], rem)"]) (auto simp: stored_def word_unat_eq_iff intro: yields_return)
next
  case (Cons i "is")
  show ?case
  proof (cases "rem = 0")
    case True
    then show ?thesis
      by (intro exI [of _ "Some ([], 0)"]) (auto simp: stored_def unat_eq_0 intro: yields_return)
  next
    case False
    define amount where "amount = (if rem < FAT_SECTOR_SIZE then rem else FAT_SECTOR_SIZE)"
    have pos: "0 < unat rem" using False by (simp add: unat_gt_0)
    have amount: "unat amount = min (unat rem) 512" "unat (rem - amount) = unat rem - 512"
      by (auto simp: amount_def word_less_nat_alt unat_sub word_le_nat_alt)
    have need: "sectors_for (unat rem) = Suc (sectors_for (unat (rem - amount)))"
      using pos unfolding amount by (rule sectors_for_step)
    note first = read_sector_yields [OF assms(1), of v "cluster_lba v c i"]
    obtain r where r: "yields I (read_cluster rd v c is (rem - amount)) r"
      "\<And>bs left. r = Some (bs, left) \<longleftrightarrow>
         stored disk v (take (sectors_for (unat (rem - amount))) (map (cluster_lba v c) is)) (unat (rem - amount)) bs \<and>
         unat left = unat (rem - amount) - 512 * length is"
      using Cons by blast
    define x where "x = (case sector_at disk v (cluster_lba v c i) of None \<Rightarrow> None
      | Some s \<Rightarrow> map_option (\<lambda>(bs, n). (take (unat amount) s @ bs, n)) r)"
    have "yields I (read_cluster rd v c (i # is) rem) x"
      unfolding read_cluster.simps Let_def amount_def [symmetric] x_def
      using False by (simp add: split: option.split) (auto intro!: yields_bind [OF first] yields_bind [OF r(1)] yields_return)
    moreover have "x = Some (bs, left) \<longleftrightarrow>
        stored disk v (take (sectors_for (unat rem)) (map (cluster_lba v c) (i # is))) (unat rem) bs \<and>
        unat left = unat rem - 512 * length (i # is)" for bs left
    proof (cases "sector_at disk v (cluster_lba v c i)")
      case (Some s)
      then have "length s = 512" using sizes by (auto simp: sector_at_def sized_def split: if_splits)
      then have "take (unat amount) s = take (unat rem) s" by (simp add: amount min_def)
      then show ?thesis
        unfolding need using Some r(2) by (auto simp: x_def stored_Cons [OF sizes] amount)
    qed (simp add: x_def need stored_Cons [OF sizes])
    ultimately show ?thesis by blast
  qed
qed

lemma left_exists: "\<exists>left :: u32. unat left = unat (rem :: u32) - k"
proof
  show "unat (of_nat (unat rem - k) :: u32) = unat rem - k"
    using unsigned_less [of rem, where 'a = nat] by (simp add: unsigned_of_nat take_bit_eq_mod)
qed

text \<open>One round of the chain: the cluster, then its link, then the rest.\<close>

lemma read_chain_round:
  assumes serves: "serves I rd disk" and c: "rem \<noteq> 0" "in_range v c" "guard < unat (cluster_count v)"
    and r: "yields I (read_cluster rd v c [0 ..< unat (sectors_per_cluster v)] rem) r"
    and rest: "\<And>a left d. r = Some (a, left) \<Longrightarrow> left \<noteq> 0 \<Longrightarrow> yields I (read_chain rd v d (guard + 1) left) (q d)"
  shows "yields I (read_chain rd v c guard rem)
    (case r of None \<Rightarrow> None
     | Some (a, left) \<Rightarrow> if left = 0 then Some a
         else (case fat_link disk v c of None \<Rightarrow> None | Some x \<Rightarrow> map_option (\<lambda>tl. a @ tl) (q (ucast x))))"
proof -
  note link = read_fat_entry_yields [OF serves]
  have ok: "(rem = 0) = False"
    "(c < 2 \<or> c \<ge> cluster_count v + 2 \<or> guard \<ge> unat (cluster_count v)) = False"
    using c by (auto simp: in_range_def)
  show ?thesis
    by (subst read_chain.simps, simp only: ok if_False, rule yields_bind [OF r])
      (auto simp: yields_return split: option.split intro!: yields_bind [OF link] yields_bind [OF rest [simplified]])
qed

lemma occupies_round:
  assumes sizes: "sized disk" and n: "rem \<noteq> 0" "in_range v c" "0 < sectors_per_cluster v"
    and r_iff: "\<And>a left. r = Some (a, left) \<longleftrightarrow>
      stored disk v (take (sectors_for (unat rem)) (cluster_lbas v c)) (unat (rem :: u32)) a \<and>
      unat (left :: u32) = unat rem - cluster_bytes v"
  shows "occupies disk v c (unat rem) bs \<longleftrightarrow> (\<exists>a left. r = Some (a, left) \<and>
    (if left = 0 then bs = a
     else \<exists>x b. fat_link disk v c = Some x \<and> occupies disk v (ucast x) (unat left) b \<and> bs = a @ b))"
proof -
  have pos: "0 < unat rem" using n(1) by (simp add: unat_gt_0)
  obtain l :: u32 where l3: "unat l = unat rem - cluster_bytes v" using left_exists by blast
  have l: "unat left = unat rem - cluster_bytes v \<longleftrightarrow> left = l" "l = 0 \<longleftrightarrow> unat rem \<le> cluster_bytes v"
    "unat l = unat rem - cluster_bytes v" for left :: u32
    using l3 by (auto simp: word_unat_eq_iff)
  show ?thesis
    unfolding occupies_step [OF sizes pos n(3), of c bs] r_iff l(1) using n(2) by (simp add: l(2) flip: l(3))
qed

lemma read_chain_yields:
  assumes serves: "serves I rd disk" and sizes: "sized disk" and spc: "0 < sectors_per_cluster v"
  shows "unat rem \<le> (unat (cluster_count v) - guard) * cluster_bytes v \<Longrightarrow>
    \<exists>r. yields I (read_chain rd v c guard rem) r \<and>
      (\<forall>bs. r = Some bs \<longleftrightarrow> (if rem = 0 then bs = [] else occupies disk v c (unat rem) bs))"
proof (induction "unat (cluster_count v) - guard" arbitrary: guard c rem)
  case 0
  then have "rem = 0" by (simp add: unat_eq_0)
  then show ?case by (intro exI [of _ "Some []"]) (auto simp: read_chain.simps intro: yields_return)
next
  case (Suc k)
  consider "rem = 0" | "rem \<noteq> 0" "\<not> in_range v c" | "rem \<noteq> 0" "in_range v c" by blast
  then show ?case
  proof cases
    case 1
    then show ?thesis by (intro exI [of _ "Some []"]) (auto simp: read_chain.simps intro: yields_return)
  next
    case 2
    then have "\<not> occupies disk v c n bs" for n bs using linked_in_range by (auto simp: occupies_def)
    moreover have "read_chain rd v c guard rem = return None"
      using 2 by (subst read_chain.simps) (auto simp: in_range_def)
    ultimately show ?thesis using 2 by (intro exI [of _ None]) (auto intro: yields_return)
  next
    case 3
    obtain r where r: "yields I (read_cluster rd v c [0 ..< unat (sectors_per_cluster v)] rem) r"
      and r_iff: "\<And>bs left. r = Some (bs, left) \<longleftrightarrow>
         stored disk v (take (sectors_for (unat rem)) (cluster_lbas v c)) (unat rem) bs \<and>
         unat left = unat rem - cluster_bytes v"
      using read_cluster_yields [OF serves sizes, of v c "[0 ..< unat (sectors_per_cluster v)]" rem]
      by (auto simp: cluster_lbas_def cluster_bytes_def)
    have "\<exists>q. \<forall>a left. r = Some (a, left) \<longrightarrow> left \<noteq> 0 \<longrightarrow> yields I (read_chain rd v d (guard + 1) left) q \<and>
        (\<forall>bs. q = Some bs \<longleftrightarrow> occupies disk v d (unat left) bs)" for d
    proof (cases "\<exists>a left. r = Some (a, left) \<and> left \<noteq> 0")
      case True
      then obtain a left where left: "r = Some (a, left)" "left \<noteq> 0" by blast
      then have "unat left \<le> (unat (cluster_count v) - (guard + 1)) * cluster_bytes v"
        using r_iff Suc.prems Suc.hyps(2) by (auto simp: diff_mult_distrib)
      then show ?thesis using Suc.hyps(1) [of "guard + 1" left d] Suc.hyps(2) left by simp
    qed auto
    then obtain q where q: "\<And>d a left. r = Some (a, left) \<Longrightarrow> left \<noteq> 0 \<Longrightarrow>
        yields I (read_chain rd v d (guard + 1) left) (q d) \<and> (\<forall>bs. q d = Some bs \<longleftrightarrow> occupies disk v d (unat left) bs)"
      by metis
    have guard: "guard < unat (cluster_count v)" using Suc.hyps(2) by simp
    note round = read_chain_round [OF serves 3 guard r conjunct1 [OF q]]
    show ?thesis
      by (rule exI, rule conjI [OF round])
        (use occupies_round [OF sizes 3 spc r_iff] q 3(1) in \<open>auto split: option.splits prod.splits if_splits\<close>)
  qed
qed

section \<open>Looking up a path\<close>

definition settles :: "('d \<Rightarrow> bool) \<Rightarrow> ('d, 'a) state \<Rightarrow> bool" where
  "settles I m \<longleftrightarrow> (\<exists>x. yields I m x)"

lemma settles_return: "settles I (return x)"
  by (auto simp: settles_def intro: yields_return)

lemma settles_bind: "settles I m \<Longrightarrow> (\<And>a. settles I (f a)) \<Longrightarrow> settles I (State_Monad.bind m f)"
  by (metis settles_def yields_bind)

lemma settles_option:
  "settles I m \<Longrightarrow> (\<And>a. settles I (f a)) \<Longrightarrow> settles I (case x of None \<Rightarrow> m | Some a \<Rightarrow> f a)"
  by (cases x) simp_all

lemma settles_read_sector: "serves I rd disk \<Longrightarrow> settles I (read_sector rd v lba)"
  unfolding settles_def by (blast intro: read_sector_yields)

lemma settles_read_fat_entry: "serves I rd disk \<Longrightarrow> settles I (read_fat_entry rd v c)"
  unfolding settles_def by (blast intro: read_fat_entry_yields)

lemmas settles_rules = settles_return settles_bind settles_option settles_read_sector settles_read_fat_entry

lemma settles_scan_sectors: "serves I rd disk \<Longrightarrow> settles I (scan_sectors rd v sn ls)"
  by (induction rd v sn ls rule: scan_sectors.induct) (auto intro!: settles_rules split: dir_scan.split)

lemma settles_scan_clusters: "serves I rd disk \<Longrightarrow> settles I (scan_clusters rd v sn c g)"
proof (induction rd v sn c g rule: scan_clusters.induct)
  case (1 rd v sn c g)
  show ?case
    by (subst scan_clusters.simps)
      (use 1 in \<open>auto intro!: settles_rules settles_scan_sectors split: dir_scan.split\<close>)
qed

lemma settles_find_entry: "serves I rd disk \<Longrightarrow> settles I (find_entry_in_directory rd v dir sn)"
  unfolding find_entry_in_directory_def
  by (auto intro!: settles_rules settles_scan_sectors settles_scan_clusters)

lemma settles_walk_path: "serves I rd disk \<Longrightarrow> settles I (walk_path rd v dir path)"
proof (induction "length path" arbitrary: dir path rule: less_induct)
  case less
  have rest: "settles I (walk_path rd v d (tl (dropWhile P path)))" if "dropWhile P path \<noteq> []" for d P
    using less.hyps [OF shorter_rest [OF that]] less.prems by simp
  show ?case
    by (subst walk_path.simps, unfold Let_def)
      (use less.prems in \<open>auto intro!: settles_rules settles_find_entry rest\<close>)
qed

lemma settles_find_path: "serves I rd disk \<Longrightarrow> settles I (find_path rd v path)"
  unfolding find_path_def by (auto intro!: settles_rules settles_walk_path)

section \<open>The layout of a mounted volume\<close>

definition volume_ok :: "fat_volume \<Rightarrow> bool" where
  "volume_ok v \<longleftrightarrow>
     mounted v \<and> unat (start_lba v) + unat (total_sectors v) \<le> 2 ^ 64 \<and>
     unat (start_lba v) < unat (fat_start v) \<and>
     unat (root_start v) = unat (fat_start v) + unat (fat_count v) * unat (sectors_per_fat v) \<and>
     unat (data_start v) = unat (root_start v) + root_sectors v \<and>
     unat (data_start v) + unat (cluster_count v) * unat (sectors_per_cluster v)
       \<le> unat (start_lba v) + unat (total_sectors v) \<and>
     0 < unat (fat_count v) \<and> unat (sectors_per_cluster v) \<in> {1 .. 128} \<and>
     unat (cluster_count v) \<in> {4085 ..< 65525} \<and>
     2 * (unat (cluster_count v) + 2) \<le> 512 * unat (sectors_per_fat v)"

lemma unat_up: "unat (ucast (a :: u8) :: u32) = unat a" "unat (ucast (b :: u16) :: u32) = unat b"
  "unat (ucast (b :: u16) :: u64) = unat b"
  using unsigned_less [of a, where 'a = nat] unsigned_less [of b, where 'a = nat]
  by (simp_all add: unsigned_ucast_eq take_bit_eq_mod)

lemma unat_small_add: "unat a + unat b < 2 ^ LENGTH('n::len) \<Longrightarrow> unat (a + b :: 'n word) = unat a + unat b"
  by (simp add: unat_word_ariths)

lemma unat_small_mult: "unat a * unat b < 2 ^ LENGTH('n::len) \<Longrightarrow> unat (a * b :: 'n word) = unat a * unat b"
  by (simp add: unat_word_ariths)

lemma unat_root_sectors:
  "unat ((ucast (roots :: u16) * 32 + FAT_SECTOR_SIZE - 1) div FAT_SECTOR_SIZE) = (unat roots + 15) div 16"
proof -
  have "unat (ucast roots * 32 + 511 :: u32) = unat roots * 32 + 511"
    using unsigned_less [of roots, where 'a = nat] by (simp add: unat_word_ariths unat_up)
  moreover have "ucast roots * 32 + FAT_SECTOR_SIZE - 1 = (ucast roots * 32 + 511 :: u32)" by simp
  ultimately have "unat ((ucast roots * 32 + FAT_SECTOR_SIZE - 1) div FAT_SECTOR_SIZE) = (unat roots * 32 + 511) div 512"
    by (simp only: unat_div) simp
  then show ?thesis by simp
qed

lemma volume_room:
  fixes total :: u32 and start :: u64
  assumes "\<not> start > 0xFFFFFFFFFFFFFFFF - (ucast total - 1)" "0 < unat (total :: u32)"
  shows "unat (start :: u64) + unat total \<le> 2 ^ 64"
proof -
  have b: "unat total < 2 ^ 32" using unsigned_less [of total, where 'a = nat] by simp
  have "unat (ucast total - 1 :: u64) = unat total - 1"
    using assms(2) by (subst unat_sub) (simp_all add: word_le_nat_alt unat_ucast_u64)
  then have "unat (0xFFFFFFFFFFFFFFFF - (ucast total - 1) :: u64) = 2 ^ 64 - 1 - (unat total - 1)"
    using b by (subst unat_sub) (simp_all add: word_le_nat_alt)
  then have "unat start \<le> 2 ^ 64 - 1 - (unat total - 1)" using assms(1) by (simp add: word_less_nat_alt)
  then show ?thesis using assms(2) b by simp
qed

lemma layout_arith:
  fixes reserved per_fat roots :: u16 and fats cluster_size :: u8 and total :: u32 and start :: u64
  defines "tables \<equiv> ucast fats * ucast per_fat :: u32"
    and "root_secs \<equiv> (ucast roots * 32 + FAT_SECTOR_SIZE - 1) div FAT_SECTOR_SIZE"
  defines "data_sectors \<equiv> total - ucast reserved - tables - root_secs"
  defines "clusters \<equiv> data_sectors div ucast cluster_size"
  assumes nz: "cluster_size \<noteq> 0" "\<not> cluster_size > 128" "reserved \<noteq> 0" "fats \<noteq> 0"
    and fits: "\<not> total \<le> ucast reserved + tables + root_secs"
    and counts: "\<not> clusters < 4085" "\<not> clusters \<ge> 65525" "\<not> ucast per_fat * FAT_SECTOR_SIZE div 2 < clusters + 2"
    and start: "\<not> start > 0xFFFFFFFFFFFFFFFF - (ucast total - 1)"
  shows "volume_ok \<lparr>start_lba = start, total_sectors = total, fat_start = start + ucast reserved,
     root_start = start + ucast reserved + ucast tables,
     data_start = start + ucast reserved + ucast tables + ucast root_secs,
     sectors_per_fat = ucast per_fat, fat_count = ucast fats, root_entries = ucast roots,
     sectors_per_cluster = ucast cluster_size, cluster_count = clusters, mounted = True\<rparr>"
proof -
  have b: "unat fats < 256" "unat per_fat < 65536" "unat roots < 65536" "unat reserved < 65536" "unat total < 2 ^ 32"
    "unat start < 2 ^ 64"
    using unsigned_less [of fats, where 'a = nat] unsigned_less [of per_fat, where 'a = nat]
      unsigned_less [of roots, where 'a = nat] unsigned_less [of reserved, where 'a = nat]
      unsigned_less [of total, where 'a = nat] unsigned_less [of start, where 'a = nat] by simp_all
  have prod: "unat fats * unat per_fat \<le> 255 * 65535" using b by (intro mult_le_mono) auto
  have tables: "unat tables = unat fats * unat per_fat"
    unfolding tables_def using prod by (subst unat_small_mult) (simp_all add: unat_up)
  have roots: "unat root_secs = (unat roots + 15) div 16" unfolding root_secs_def by (rule unat_root_sectors)
  have root_bound: "unat root_secs \<le> 4096" using roots b by (simp add: less_Suc_eq_le [symmetric] div_less_iff_less_mult)
  have sum: "unat (ucast reserved + tables + root_secs :: u32) = unat reserved + unat tables + unat root_secs"
    using prod root_bound b tables by (simp add: unat_word_ariths unat_up)
  then have less: "unat reserved + unat tables + unat root_secs < unat total"
    using fits by (simp add: word_less_nat_alt not_le)
  have data: "unat data_sectors = unat total - (unat reserved + unat tables + unat root_secs)"
  proof -
    have "data_sectors = total - (ucast reserved + tables + root_secs)" by (simp add: data_sectors_def)
    then show ?thesis using less sum by (simp add: unat_sub word_le_nat_alt)
  qed
  have clusters: "unat clusters = unat data_sectors div unat cluster_size"
    by (simp add: clusters_def unat_div unat_up)
  have room: "unat start + unat total \<le> 2 ^ 64" using start less by (intro volume_room) auto
  have lbas: "unat (start + ucast reserved) = unat start + unat reserved"
    "unat (start + ucast reserved + ucast tables) = unat start + unat reserved + unat tables"
    "unat (start + ucast reserved + ucast tables + ucast root_secs) =
       unat start + unat reserved + unat tables + unat root_secs"
    using less room by (simp_all add: unat_word_ariths unat_up unat_ucast_u64)
  have capacity: "unat clusters + 2 \<le> unat per_fat * 256"
  proof -
    have "unat (ucast per_fat * FAT_SECTOR_SIZE :: u32) = unat per_fat * 512"
      using b by (subst unat_small_mult) (simp_all add: unat_up)
    moreover have "unat (clusters + 2) = unat clusters + 2"
      using counts by (subst unat_small_add) (simp_all add: word_le_nat_alt word_less_nat_alt)
    ultimately show ?thesis using counts(3) by (simp add: word_less_nat_alt unat_div)
  qed
  have "unat clusters * unat cluster_size \<le> unat data_sectors" by (simp add: clusters)
  then have last: "unat reserved + unat tables + unat root_secs + unat clusters * unat cluster_size \<le> unat total"
    using data less by linarith
  have "unat reserved \<noteq> 0" "unat fats \<noteq> 0" "unat cluster_size \<noteq> 0" "unat cluster_size \<le> 128"
    using nz by (simp_all add: unat_eq_0 word_less_nat_alt)
  moreover have "root_sectors \<lparr>start_lba = start, total_sectors = total, fat_start = start + ucast reserved,
     root_start = start + ucast reserved + ucast tables,
     data_start = start + ucast reserved + ucast tables + ucast root_secs,
     sectors_per_fat = ucast per_fat, fat_count = ucast fats, root_entries = ucast roots,
     sectors_per_cluster = ucast cluster_size, cluster_count = clusters, mounted = True\<rparr> = unat root_secs"
    using b by (simp add: root_sectors_def roots unat_div unat_word_ariths unat_up)
  ultimately show ?thesis
    unfolding volume_ok_def using room lbas tables last capacity counts
    by (simp add: unat_up word_less_nat_alt word_le_nat_alt)
qed

lemma if_Inl_eq: "(if A then Inl e else m) = Inr v \<longleftrightarrow> \<not> A \<and> m = Inr v"
  by simp

lemma fat_layout_ok:
  assumes "fat_layout start boot = Inr v"
  shows "volume_ok v \<and> start_lba v = start"
  using assms unfolding fat_layout_def Let_def if_Inl_eq sum.inject de_Morgan_disj
  by (elim conjE, hypsubst) (intro conjI layout_arith, assumption+, simp)

lemma fat_layout_error: "fat_layout start boot = Inl e \<Longrightarrow> e \<noteq> 0"
  by (auto simp: fat_layout_def Let_def split: if_splits)

lemma fat_mount_result:
  assumes "fst (run_state (fat_mount rd start v0) s) = (err, v)"
  shows "if err = 0 then volume_ok v \<and> start_lba v = start else \<not> mounted v"
  using assms fat_layout_ok fat_layout_error
  by (auto simp: fat_mount_def Let_def split: prod.splits option.splits sum.splits if_splits)

lemma volume_room_ok: "volume_ok v \<Longrightarrow> unat (cluster_count v) * unat (sectors_per_cluster v) \<le> 65524 * 128"
  unfolding volume_ok_def by (intro mult_le_mono) auto

lemma unat_cluster_lba:
  assumes ok: "volume_ok v" and c: "in_range v c" and i: "i < unat (sectors_per_cluster v)"
  shows "unat (cluster_lba v c i) = unat (data_start v) + (unat c - 2) * unat (sectors_per_cluster v) + i"
    and "unat (cluster_lba v c i) < unat (start_lba v) + unat (total_sectors v)"
    and "unat c - 2 < unat (cluster_count v)"
proof -
  have spc: "unat (sectors_per_cluster v) \<le> 128" and cc: "unat (cluster_count v) < 65525" using ok by (auto simp: volume_ok_def)
  then have limit: "unat (cluster_count v + 2) = unat (cluster_count v) + 2" by (simp add: unat_word_ariths)
  then have c2: "unat c \<ge> 2" "unat c - 2 < unat (cluster_count v)" using c by (auto simp: in_range_def word_le_nat_alt word_less_nat_alt)
  then show "unat c - 2 < unat (cluster_count v)" by simp
  have "(unat c - 2) * unat (sectors_per_cluster v) + unat (sectors_per_cluster v)
      \<le> unat (cluster_count v) * unat (sectors_per_cluster v)"
    using c2(2) mult_le_mono1 [of "Suc (unat c - 2)" "unat (cluster_count v)" "unat (sectors_per_cluster v)"] by simp
  then have fits: "(unat c - 2) * unat (sectors_per_cluster v) + i < unat (cluster_count v) * unat (sectors_per_cluster v)"
    using i by linarith
  have room: "unat (data_start v) + unat (cluster_count v) * unat (sectors_per_cluster v)
      \<le> unat (start_lba v) + unat (total_sectors v)" "unat (start_lba v) + unat (total_sectors v) \<le> 2 ^ 64"
    using ok by (auto simp: volume_ok_def)
  have "unat ((c - 2) * sectors_per_cluster v) = (unat c - 2) * unat (sectors_per_cluster v)"
    using fits volume_room_ok [OF ok] c2(1) by (subst unat_small_mult) (simp_all add: unat_sub word_le_nat_alt)
  moreover have "unat (of_nat i :: u64) = i"
    using i spc by (simp add: unsigned_of_nat take_bit_eq_mod)
  ultimately show eq: "unat (cluster_lba v c i) = unat (data_start v) + (unat c - 2) * unat (sectors_per_cluster v) + i"
    using fits room unfolding cluster_lba_def by (simp add: unat_word_ariths unat_ucast_u64)
  show "unat (cluster_lba v c i) < unat (start_lba v) + unat (total_sectors v)"
    unfolding eq using fits room by linarith
qed

lemma mult_add_inject:
  fixes a b i j k :: nat
  assumes "i < k" "j < k" "a * k + i = b * k + j"
  shows "a = b \<and> i = j"
  using assms(1,2) arg_cong [OF assms(3), of "\<lambda>n. n div k"] arg_cong [OF assms(3), of "\<lambda>n. n mod k"] by simp

lemma cluster_lba_inject:
  assumes "volume_ok v" "in_range v c" "in_range v d" "i < unat (sectors_per_cluster v)" "j < unat (sectors_per_cluster v)"
    and "cluster_lba v c i = cluster_lba v d j"
  shows "c = d \<and> i = j"
proof -
  have "(unat c - 2) * unat (sectors_per_cluster v) + i = (unat d - 2) * unat (sectors_per_cluster v) + j"
    using unat_cluster_lba(1) [OF assms(1,2,4)] unat_cluster_lba(1) [OF assms(1,3,5)] assms(6) by simp
  then have "unat c - 2 = unat d - 2 \<and> i = j" by (rule mult_add_inject [OF assms(4,5)])
  then show ?thesis using assms(2,3) by (auto simp: in_range_def word_le_nat_alt word_unat_eq_iff)
qed

section \<open>The host test's volume\<close>

definition read_fixture :: "(u64 \<Rightarrow> bytes) fat_read_fn" where
  "read_fixture lba = gets (\<lambda>disk. if lba \<ge> 8192 then None else Some (disk lba))"

definition blank_sector :: bytes where
  "blank_sector = replicate 512 0"

definition build_fixture :: "u64 \<Rightarrow> bytes" where
  "build_fixture = (\<lambda>_. blank_sector)
     (0 := blank_sector[11 := 0, 12 := 2, 13 := 1, 14 := 1, 15 := 0, 16 := 2, 17 := 32, 18 := 0, 19 := 0, 20 := 0x20,
        21 := 0xF8, 22 := 32, 23 := 0, 510 := 0x55, 511 := 0xAA],
      65 := [0x48, 0x45, 0x4C, 0x4C, 0x4F, 0x20, 0x20, 0x20, 0x54, 0x58, 0x54, 0x20] @ replicate 14 0 @
        [2, 0, 14, 0, 0, 0] @
        [0x56, 0x4F, 0x4C, 0x55, 0x4D, 0x45, 0x20, 0x20, 0x20, 0x20, 0x20, 0x08] @ replicate 468 0,
      1 := [0xF8, 0xFF, 0xFF, 0xFF, 0xF8, 0xFF] @ replicate 506 0,
      33 := [0xF8, 0xFF, 0xFF, 0xFF, 0xF8, 0xFF] @ replicate 506 0,
      67 := [0x45, 0x66, 0x65, 0x73, 0x4F, 0x53, 0x20, 0x64, 0x69, 0x73, 0x6B, 0x21, 0x0D, 0x0A] @ replicate 498 0)"

definition no_volume :: fat_volume where
  "no_volume = \<lparr>start_lba = 0, total_sectors = 0, fat_start = 0, root_start = 0, data_start = 0, sectors_per_fat = 0,
     fat_count = 0, root_entries = 0, sectors_per_cluster = 0, cluster_count = 0, mounted = False\<rparr>"

definition fixture_volume :: fat_volume where
  "fixture_volume = \<lparr>start_lba = 0, total_sectors = 8192, fat_start = 1, root_start = 65, data_start = 67,
     sectors_per_fat = 32, fat_count = 2, root_entries = 32, sectors_per_cluster = 1, cluster_count = 8125, mounted = True\<rparr>"

lemma fixture_mounts: "fst (run_state (fat_mount read_fixture 0 no_volume) build_fixture) = (0, fixture_volume)"
  by code_simp

lemma fixture_sectors: "length (build_fixture lba) = 512"
  by (simp add: build_fixture_def blank_sector_def)

definition fixture_contents :: contents where
  "fixture_contents lba = (if lba \<ge> 8192 then None else Some (build_fixture lba))"

lemma fixture_serves: "serves (\<lambda>d. d = build_fixture) read_fixture fixture_contents" "sized fixture_contents"
  by (auto simp: serves_def yields_def read_fixture_def fixture_contents_def sized_def fixture_sectors)

section \<open>Properties\<close>

text \<open>The size check of a read in natural numbers.\<close>

lemma size_check:
  fixes n m :: u32
  assumes "unat m < 2 ^ 23"
  shows "(n div FAT_SECTOR_SIZE > m \<or> (n mod FAT_SECTOR_SIZE \<noteq> 0 \<and> n div FAT_SECTOR_SIZE \<ge> m)) \<longleftrightarrow> unat n > 512 * unat m"
proof -
  have q: "unat (n div FAT_SECTOR_SIZE) = unat n div 512" "unat (n mod FAT_SECTOR_SIZE) = unat n mod 512"
    by (simp_all add: unat_div unat_mod)
  have z: "n mod FAT_SECTOR_SIZE \<noteq> 0 \<longleftrightarrow> unat n mod 512 \<noteq> 0" using q(2) by (metis unat_eq_zero)
  have "(m' < k \<or> (r \<noteq> 0 \<and> m' \<le> k)) \<longleftrightarrow> 512 * m' < 512 * k + r" if "r < 512" for m' k r :: nat
    using that by arith
  from this [of "unat n mod 512" "unat m" "unat n div 512"] show ?thesis
    unfolding z word_less_nat_alt word_le_nat_alt q by simp
qed

text \<open>A file of a directory entry, as the caller of a read sees it.\<close>

definition file_bytes :: "contents \<Rightarrow> fat_volume \<Rightarrow> u32 \<Rightarrow> bytes \<Rightarrow> bytes \<Rightarrow> bool" where
  "file_bytes disk v capacity entry bs \<longleftrightarrow>
     entry ! 11 AND 0x1F = 0 \<and>
     (let n = unat (fat_read_u32 entry 28); first = ucast (fat_read_u16 entry 26) in
      n \<le> unat capacity \<and> n \<le> unat (cluster_count v) * cluster_bytes v \<and>
      (if n = 0 then first = 0 \<and> bs = [] else occupies disk v first n bs))"

lemma read_found_yields:
  assumes "serves I rd disk" "sized disk" and ok: "volume_ok v"
  shows "\<exists>r. yields I (read_found rd v entry capacity) r \<and> (\<forall>bs. r = Some bs \<longleftrightarrow> file_bytes disk v capacity entry bs)"
proof -
  let ?n = "fat_read_u32 entry 28" and ?first = "ucast (fat_read_u16 entry 26) :: u32"
  have spc: "0 < sectors_per_cluster v" using ok by (auto simp: volume_ok_def word_less_nat_alt)
  have max: "unat (cluster_count v * sectors_per_cluster v) = unat (cluster_count v) * unat (sectors_per_cluster v)"
    using volume_room_ok [OF ok] by (intro unat_small_mult) simp
  have check: "(?n > capacity \<or> ?n div FAT_SECTOR_SIZE > cluster_count v * sectors_per_cluster v \<or>
      (?n mod FAT_SECTOR_SIZE \<noteq> 0 \<and> ?n div FAT_SECTOR_SIZE \<ge> cluster_count v * sectors_per_cluster v)) \<longleftrightarrow>
      \<not> (unat ?n \<le> unat capacity \<and> unat ?n \<le> unat (cluster_count v) * cluster_bytes v)"
    using size_check [of "cluster_count v * sectors_per_cluster v" ?n] volume_room_ok [OF ok]
    by (simp add: max cluster_bytes_def word_less_nat_alt) linarith
  have attr: "entry ! 11 AND (FAT_ATTR_DIRECTORY OR FAT_ATTR_VOLUME_ID OR FAT_ATTR_LFN) = entry ! 11 AND 0x1F" by simp
  obtain r where r: "unat ?n \<le> unat (cluster_count v) * cluster_bytes v \<longrightarrow>
      yields I (read_chain rd v ?first 0 ?n) r \<and>
      (\<forall>bs. r = Some bs \<longleftrightarrow> (if ?n = 0 then bs = [] else occupies disk v ?first (unat ?n) bs))"
    using read_chain_yields [OF assms(1,2) spc, of ?n 0 ?first] by auto
  show ?thesis
    unfolding read_found_def Let_def check attr file_bytes_def using r
    by (intro exI [of _ "if entry ! 11 AND 0x1F = 0 \<and> unat ?n \<le> unat capacity \<and>
        unat ?n \<le> unat (cluster_count v) * cluster_bytes v \<and> (?n = 0 \<longrightarrow> ?first = 0) then r else None"])
      (auto simp: unat_eq_0 intro!: yields_return)
qed

locale stable_source =
  fixes I :: "'d \<Rightarrow> bool" and rd :: "'d fat_read_fn" and disk :: contents
  assumes serves: "serves I rd disk" and sized: "sized disk"
begin

lemma file_read:
  assumes ok: "volume_ok v" and s: "I s"
  shows "fst (run_state (fat_read_file rd v path capacity) s) = Some bs \<longleftrightarrow>
    (\<exists>entry. fst (run_state (find_path rd v path) s) = Some entry \<and> file_bytes disk v capacity entry bs)"
proof -
  have mounted: "mounted v" using ok by (simp add: volume_ok_def)
  obtain found where found: "yields I (find_path rd v path) found"
    using settles_find_path [OF serves, of v path] by (auto simp: settles_def)
  have result: "fst (run_state (find_path rd v path) s) = found" using yieldsD [OF found s] .
  show ?thesis
  proof (cases found)
    case None
    have "yields I (fat_read_file rd v path capacity) None"
      unfolding fat_read_file_def by (auto simp: None yields_return intro!: yields_bind [OF found])
    from yieldsD [OF this s] show ?thesis using result None by simp
  next
    case (Some entry)
    obtain r where r: "yields I (read_found rd v entry capacity) r" "\<And>bs. r = Some bs \<longleftrightarrow> file_bytes disk v capacity entry bs"
      using read_found_yields [OF serves sized ok] by blast
    have "yields I (fat_read_file rd v path capacity) r"
      unfolding fat_read_file_def using mounted r(1) by (auto simp: Some intro!: yields_bind [OF found])
    from yieldsD [OF this s] show ?thesis using result Some r(2) by simp
  qed
qed

end

interpretation fixture: stable_source "\<lambda>d. d = build_fixture" read_fixture fixture_contents
  by unfold_locales (fact fixture_serves)+

text \<open>C31: Over a device whose sectors keep their contents, a file read on a volume that \<open>fat_mount\<close> accepted
  returns some bytes exactly when the path names an ordinary file whose size fits the caller's buffer and the
  volume, and whose bytes lie in the clusters of a chain that every copy of the allocation table agrees on; the
  bytes returned are then the first \<open>size\<close> bytes of these clusters, in the order of the chain. An empty file must
  have no first cluster. The read always ends.\<close>

theorem fat_read_file_exact:
  assumes device: "serves I rd disk" "sized disk" "I s"
    and mount: "fst (run_state (fat_mount rd start v0) s0) = (0, v)"
  shows "fst (run_state (fat_read_file rd v path capacity) s) = Some bs \<longleftrightarrow>
    (\<exists>entry. fst (run_state (find_path rd v path) s) = Some entry \<and> file_bytes disk v capacity entry bs)"
  using stable_source.file_read [OF stable_source.intro, OF device(1,2) _ device(3)] fat_mount_result [OF mount] by simp

theorem fat_read_file_exact_witness:
  "\<exists>entry. fst (run_state (find_path read_fixture fixture_volume
       (Some [0x68, 0x65, 0x6C, 0x6C, 0x6F, 0x2E, 0x74, 0x78, 0x74, 0])) build_fixture) = Some entry \<and>
     file_bytes fixture_contents fixture_volume 32 entry
       [0x45, 0x66, 0x65, 0x73, 0x4F, 0x53, 0x20, 0x64, 0x69, 0x73, 0x6B, 0x21, 0x0D, 0x0A]"
proof -
  have "fst (run_state (fat_read_file read_fixture fixture_volume
      (Some [0x68, 0x65, 0x6C, 0x6C, 0x6F, 0x2E, 0x74, 0x78, 0x74, 0]) 32) build_fixture) =
    Some [0x45, 0x66, 0x65, 0x73, 0x4F, 0x53, 0x20, 0x64, 0x69, 0x73, 0x6B, 0x21, 0x0D, 0x0A]"
    by code_simp
  then show ?thesis using fat_read_file_exact [OF fixture_serves refl fixture_mounts] by blast
qed

text \<open>C32: \<open>fat_mount\<close> either refuses with an error number and leaves the volume unmounted, or accepts a volume
  whose parts follow one another inside its sectors without wrapping: the reserved sectors, every copy of the
  allocation table, the root directory and the clusters. Each table has room for an entry of every cluster, every
  sector of every cluster is a sector of the volume behind the root directory, and different clusters share no
  sector.\<close>

theorem fat_mount_layout:
  assumes "fst (run_state (fat_mount rd start v0) s) = (err, v)"
  shows "(err = 0 \<longleftrightarrow> mounted v) \<and>
    (mounted v \<longrightarrow> volume_ok v \<and> start_lba v = start \<and>
       inj_on (\<lambda>(c, i). cluster_lba v c i) {(c, i). in_range v c \<and> i < unat (sectors_per_cluster v)} \<and>
       (\<forall>c i. in_range v c \<and> i < unat (sectors_per_cluster v) \<longrightarrow>
          unat (cluster_lba v c i) \<in> {unat (data_start v) ..< unat (start_lba v) + unat (total_sectors v)}))"
proof (cases "err = 0")
  case True
  then have ok: "volume_ok v" "start_lba v = start" using fat_mount_result [OF assms] by simp_all
  have "inj_on (\<lambda>(c, i). cluster_lba v c i) {(c, i). in_range v c \<and> i < unat (sectors_per_cluster v)}"
    using cluster_lba_inject [OF ok(1)] by (auto simp: inj_on_def)
  then show ?thesis using True ok unat_cluster_lba [OF ok(1)] by (auto simp: volume_ok_def)
next
  case False
  then show ?thesis using fat_mount_result [OF assms] by simp
qed

theorem fat_mount_layout_witness:
  "((0 :: u32) = 0 \<longleftrightarrow> mounted fixture_volume) \<and> unat (cluster_lba fixture_volume 8126 0) \<in> {67 ..< 8192}"
proof -
  note layout = fat_mount_layout [OF fixture_mounts]
  have "in_range fixture_volume 8126 \<and> 0 < unat (sectors_per_cluster fixture_volume)"
    by (simp add: in_range_def fixture_volume_def)
  moreover have "mounted fixture_volume" by (simp add: fixture_volume_def)
  ultimately have "unat (cluster_lba fixture_volume 8126 0) \<in>
      {unat (data_start fixture_volume) ..< unat (start_lba fixture_volume) + unat (total_sectors fixture_volume)}"
    using layout by blast
  then show ?thesis using layout by (simp add: fixture_volume_def)
qed

end
