(* ===== verification/Vfs.thy ===== *)
theory Vfs
  imports FatFiles BlockDevice
begin

text \<open>
  The file layer of \<open>fs/vfs.c\<close>: it finds a FAT16 volume on a block device, at the first sector or in
  a partition of the boot record, and guards the region of the persistence journal against it. The
  static variables \<open>volume\<close> and \<open>storage_device\<close> are the record \<open>vfs\<close>.
\<close>

section \<open>Operations\<close>

record 's vfs =
  vfs_volume :: fat_volume
  storage_device :: "'s block_device option"

abbreviation ATA_READ_RETRIES :: nat where "ATA_READ_RETRIES \<equiv> 3"

definition read_with_retry :: "'s block_device option \<Rightarrow> 's fat_read_fn" where
  "read_with_retry device lba = poll ATA_READ_RETRIES (block_device_read device lba 1 True)"

definition mounted_volume_fits_device :: "'s vfs \<Rightarrow> bool" where
  "mounted_volume_fits_device v =
     (let device_sectors = block_device_sector_count (storage_device v) in
      mounted (vfs_volume v) \<and> start_lba (vfs_volume v) < device_sectors \<and> total_sectors (vfs_volume v) \<noteq> 0 \<and>
      ucast (total_sectors (vfs_volume v)) \<le> device_sectors - start_lba (vfs_volume v))"

definition unmount :: "'s vfs \<Rightarrow> 's vfs" where
  "unmount v = v\<lparr>vfs_volume := (vfs_volume v)\<lparr>mounted := False\<rparr>\<rparr>"

text \<open>\<open>fat_mount (...) && mounted_volume_fits_device ()\<close>, with the volume it leaves.\<close>

definition try_mount :: "u64 \<Rightarrow> 's vfs \<Rightarrow> ('s, bool \<times> 's vfs) state" where
  "try_mount start v = do {
     (err, vol) \<leftarrow> fat_mount (read_with_retry (storage_device v)) start (vfs_volume v);
     let v' = v\<lparr>vfs_volume := vol\<rparr>;
     return (err = 0 \<and> mounted_volume_fits_device v', v') }"

definition partition_candidate :: "u64 \<Rightarrow> bytes \<Rightarrow> bool" where
  "partition_candidate device_sectors part \<longleftrightarrow>
     (let t = part ! 4; start = ucast (fat_read_u32 part 8); len = fat_read_u32 part 12 in
      (t = 0x04 \<or> t = 0x06 \<or> t = 0x0E) \<and> len \<noteq> 0 \<and> start < device_sectors \<and> ucast len \<le> device_sectors - start)"

fun scan_partitions :: "bytes \<Rightarrow> u64 \<Rightarrow> nat list \<Rightarrow> 's vfs \<Rightarrow> ('s, 's vfs) state" where
  "scan_partitions mbr device_sectors [] v = return v"
| "scan_partitions mbr device_sectors (index # rest) v =
     (let part = drop (446 + index * 16) mbr in
      if partition_candidate device_sectors part
      then do {
        (ok, v') \<leftarrow> try_mount (ucast (fat_read_u32 part 8)) v;
        if ok then return v' else scan_partitions mbr device_sectors rest (unmount v') }
      else scan_partitions mbr device_sectors rest (unmount v))"

text \<open>The search through the partition table, when no volume starts at sector 0.\<close>

definition mount_partition :: "'s block_device option \<Rightarrow> 's vfs \<Rightarrow> ('s, 's vfs) state" where
  "mount_partition device v = do {
     r \<leftarrow> read_with_retry device 0;
     case r of None \<Rightarrow> return v
     | Some mbr \<Rightarrow>
         if mbr ! 510 \<noteq> 0x55 \<or> mbr ! 511 \<noteq> 0xAA then return v
         else scan_partitions mbr (block_device_sector_count device) [0 ..< 4] v }"

definition vfs_init :: "'s block_device option \<Rightarrow> 's vfs \<Rightarrow> ('s, 's vfs) state" where
  "vfs_init device v =
     (let off = (unmount v)\<lparr>storage_device := None\<rparr> in
      if \<not> block_device_is_ready device then return off
      else do {
        (ok, v') \<leftarrow> try_mount 0 (off\<lparr>storage_device := device\<rparr>);
        if ok then return v' else mount_partition device (unmount v') })"

definition vfs_is_mounted :: "'s vfs \<Rightarrow> bool" where
  "vfs_is_mounted v = mounted (vfs_volume v)"

definition vfs_file_count :: "'s vfs \<Rightarrow> ('s, nat) state" where
  "vfs_file_count v = fat_file_count (read_with_retry (storage_device v)) (vfs_volume v)"

definition vfs_file_name :: "'s vfs \<Rightarrow> nat \<Rightarrow> nat \<Rightarrow> ('s, bytes option) state" where
  "vfs_file_name v index capacity = fat_file_name (read_with_retry (storage_device v)) (vfs_volume v) index capacity"

definition vfs_read_file :: "'s vfs \<Rightarrow> bytes option \<Rightarrow> u32 \<Rightarrow> ('s, bytes option) state" where
  "vfs_read_file v path capacity = fat_read_file (read_with_retry (storage_device v)) (vfs_volume v) path capacity"

definition vfs_journal_region_available :: "'s vfs \<Rightarrow> u64 \<Rightarrow> u64 \<Rightarrow> bool" where
  "vfs_journal_region_available v start count =
     (let device_sectors = block_device_sector_count (storage_device v) in
      if count = 0 \<or> device_sectors = 0 \<or> start \<ge> device_sectors \<or> count > device_sectors - start then False
      else let region_end = start + count in
        if \<not> mounted (vfs_volume v) then True
        else start \<ge> start_lba (vfs_volume v) + ucast (total_sectors (vfs_volume v)) \<or>
          region_end \<le> start_lba (vfs_volume v))"

section \<open>The invariant of the mounted volume\<close>

definition vfs_ok :: "'s vfs \<Rightarrow> bool" where
  "vfs_ok v \<longleftrightarrow> (mounted (vfs_volume v) \<longrightarrow> volume_ok (vfs_volume v) \<and>
     unat (start_lba (vfs_volume v)) + unat (total_sectors (vfs_volume v))
       \<le> unat (block_device_sector_count (storage_device v)))"

lemma fits_device: "mounted_volume_fits_device v \<Longrightarrow>
    unat (start_lba (vfs_volume v)) + unat (total_sectors (vfs_volume v))
      \<le> unat (block_device_sector_count (storage_device v))"
  using range_check [of "start_lba (vfs_volume v)" "block_device_sector_count (storage_device v)" "total_sectors (vfs_volume v)"]
  by (simp add: mounted_volume_fits_device_def Let_def)

lemma unmount_ok: "vfs_ok (unmount v)" "storage_device (unmount v) = storage_device v"
  by (simp_all add: vfs_ok_def unmount_def)

lemma try_mount_ok: "hoare (\<lambda>_. True) (try_mount start v)
    (\<lambda>r _. storage_device (snd r) = storage_device v \<and> (fst r \<longrightarrow> vfs_ok (snd r)))"
proof (rule hoareI)
  fix s a s'
  assume run: "run_state (try_mount start v) s = (a, s')"
  obtain err vol s1 where m: "run_state (fat_mount (read_with_retry (storage_device v)) start (vfs_volume v)) s = ((err, vol), s1)"
    by (metis prod.exhaust)
  then have "a = (err = 0 \<and> mounted_volume_fits_device (v\<lparr>vfs_volume := vol\<rparr>), v\<lparr>vfs_volume := vol\<rparr>)"
    using run by (simp add: try_mount_def Let_def)
  moreover have "err = 0 \<Longrightarrow> volume_ok vol" using fat_mount_result [of "read_with_retry (storage_device v)" start "vfs_volume v" s err vol] m by simp
  ultimately show "storage_device (snd a) = storage_device v \<and> (fst a \<longrightarrow> vfs_ok (snd a))"
    using fits_device [of "v\<lparr>vfs_volume := vol\<rparr>"] by (auto simp: vfs_ok_def)
qed

lemma scan_partitions_ok:
  "vfs_ok v \<Longrightarrow> hoare (\<lambda>_. True) (scan_partitions mbr n ixs v) (\<lambda>v' _. storage_device v' = storage_device v \<and> vfs_ok v')"
proof (induction ixs arbitrary: v)
  case (Cons i ixs)
  have "hoare (\<lambda>_. storage_device v' = storage_device v \<and> (ok \<longrightarrow> vfs_ok v'))
      (if ok then return v' else scan_partitions mbr n ixs (unmount v'))
      (\<lambda>v' _. storage_device v' = storage_device v \<and> vfs_ok v')" for ok v'
    using Cons.IH [OF unmount_ok(1), of v'] by (auto simp: hoare_def unmount_ok case_prod_beta)
  then have "hoare (\<lambda>_. True) (State_Monad.bind (try_mount start v)
      (\<lambda>(ok, v'). if ok then return v' else scan_partitions mbr n ixs (unmount v')))
      (\<lambda>v' _. storage_device v' = storage_device v \<and> vfs_ok v')" for start
    by (intro hoare_bind [OF try_mount_ok]) auto
  then show ?case using Cons.IH [OF unmount_ok(1), of v] by (simp add: Let_def unmount_ok)
qed (simp add: hoare_return)

lemma mount_partition_ok:
  assumes "storage_device v = device" "vfs_ok v"
  shows "hoare (\<lambda>_. True) (mount_partition device v) (\<lambda>v' _. storage_device v' = device \<and> vfs_ok v')"
proof -
  have read: "hoare (\<lambda>_. True) (read_with_retry device 0) (\<lambda>_ _. True)" by (simp add: hoare_def case_prod_beta)
  show ?thesis
    unfolding mount_partition_def
    by (rule hoare_bind [OF read])
      (use assms scan_partitions_ok [OF assms(2)] in \<open>auto simp: hoare_return split: option.split\<close>)
qed

lemma vfs_init_ok:
  "hoare (\<lambda>_. True) (vfs_init device v)
     (\<lambda>v' _. vfs_ok v' \<and> block_device_sector_count (storage_device v') = block_device_sector_count device)"
proof (cases "block_device_is_ready device")
  case False
  then show ?thesis
    by (simp add: vfs_init_def hoare_def vfs_ok_def unmount_def block_device_sector_count_def block_device_is_ready_def)
next
  case True
  define on where "on = (unmount v)\<lparr>storage_device := None, storage_device := device\<rparr>"
  let ?post = "\<lambda>v' (_ :: 'a). storage_device v' = device \<and> vfs_ok v'"
  have first: "hoare (\<lambda>_. True) (try_mount 0 on) (\<lambda>r _. storage_device (snd r) = device \<and> (fst r \<longrightarrow> vfs_ok (snd r)))"
    using try_mount_ok [of 0 on] by (simp add: on_def)
  have rest: "hoare (\<lambda>_. storage_device (snd q) = device \<and> (fst q \<longrightarrow> vfs_ok (snd q)))
      (case q of (ok, v') \<Rightarrow> if ok then return v' else mount_partition device (unmount v')) ?post" for q
    using mount_partition_ok [of "unmount (snd q)" device] by (cases q) (auto simp: hoare_def unmount_ok)
  have "hoare (\<lambda>_. True) (vfs_init device v) ?post"
    unfolding vfs_init_def Let_def using True hoare_bind [OF first rest] by (simp add: on_def)
  then show ?thesis by (rule hoare_weaken) auto
qed

section \<open>Reading through the block layer\<close>

text \<open>A block device whose single-sector reads return fixed contents is a source for the FAT reader; the
  retries do not change what is read.\<close>

lemma poll_yields:
  assumes "yields I body r"
  shows "yields I (poll (Suc n) body) r"
proof (induction n)
  case (Suc n)
  show ?case
    by (subst poll.simps, rule yields_bind [OF assms]) (use Suc in \<open>auto simp: yields_return split: option.split\<close>)
next
  case 0
  show ?case
    by (subst poll.simps, rule yields_bind [OF assms]) (auto simp: yields_return split: option.split)
qed

locale stable_block =
  fixes I :: "'s \<Rightarrow> bool" and device :: "'s block_device option" and disk :: contents
  assumes block: "yields I (block_device_read device lba 1 True) (disk lba)" and block_sized: "sized disk"
begin

lemma retry_serves: "serves I (read_with_retry device) disk"
  using poll_yields [OF block, of 2] by (simp add: serves_def read_with_retry_def eval_nat_numeral)

lemma vfs_read:
  assumes "vfs_ok v" "vfs_is_mounted v" "storage_device v = device" "I s"
  shows "fst (run_state (vfs_read_file v path capacity) s) = Some bs \<longleftrightarrow>
    (\<exists>entry. fst (run_state (find_path (read_with_retry device) (vfs_volume v) path) s) = Some entry \<and>
       file_bytes disk (vfs_volume v) capacity entry bs)"
  using stable_source.file_read [OF stable_source.intro, OF retry_serves block_sized _ assms(4), of "vfs_volume v"] assms
  by (simp add: vfs_read_file_def vfs_ok_def vfs_is_mounted_def)

end

sublocale stable_block \<subseteq> retry: stable_source I "read_with_retry device" disk
  by unfold_locales (fact retry_serves, fact block_sized)

text \<open>The volume of the host test behind the block layer.\<close>

definition fixture_device :: "(u64 \<Rightarrow> bytes) block_device" where
  "fixture_device = snd (block_device_configure 8192 512 128 (Some (\<lambda>lba _. read_fixture lba)) None)"

interpretation fixture_block: stable_block "\<lambda>d. d = build_fixture" "Some fixture_device" fixture_contents
proof
  have conf: "block_device_configure 8192 512 128 (Some (\<lambda>lba _. read_fixture lba)) None = (True, fixture_device)"
    by (simp add: fixture_device_def block_device_configure_def)
  have valid: "request_is_valid (Some fixture_device) lba 1 True \<longleftrightarrow> lba < 8192" for lba
  proof -
    have "1 \<le> 8192 - lba" if "lba < 8192" using that by (simp add: word_le_nat_alt word_less_nat_alt unat_sub)
    then show ?thesis
      by (auto simp: request_is_valid_def fixture_device_def block_device_configure_def block_device_is_ready_def)
  qed
  show "yields (\<lambda>d. d = build_fixture) (block_device_read (Some fixture_device) lba 1 True) (fixture_contents lba)" for lba
    by (simp add: block_device_read_def valid yields_def fixture_contents_def not_less)
      (auto simp: fixture_device_def block_device_configure_def read_fixture_def not_le)
  show "sized fixture_contents" by (fact fixture_serves)
qed

section \<open>Properties\<close>

text \<open>C33: After \<open>vfs_init\<close>, a region for the persistence journal is available exactly when it is not empty, lies
  inside the block device and shares no sector with the mounted FAT volume, if there is one; the sums do not
  wrap.\<close>

theorem vfs_journal_region_exact:
  assumes "run_state (vfs_init device v0) s = (v, s')"
  shows "vfs_journal_region_available v start count \<longleftrightarrow>
    0 < unat count \<and> unat start + unat count \<le> unat (block_device_sector_count device) \<and>
    (vfs_is_mounted v \<longrightarrow>
       {unat start ..< unat start + unat count} \<inter>
       {unat (start_lba (vfs_volume v)) ..< unat (start_lba (vfs_volume v)) + unat (total_sectors (vfs_volume v))} = {})"
proof -
  let ?n = "block_device_sector_count device"
  have ok: "vfs_ok v" and dev: "block_device_sector_count (storage_device v) = ?n"
    using hoareD [OF vfs_init_ok _ assms] by simp_all
  have inside: "\<not> (count = 0 \<or> ?n = 0 \<or> start \<ge> ?n \<or> count > ?n - start) \<longleftrightarrow>
      0 < unat count \<and> unat start + unat count \<le> unat ?n"
    using unat_eq_0 [of count] unat_eq_0 [of ?n] by (auto simp: word_le_nat_alt word_less_nat_alt unat_sub not_le)
  show ?thesis
  proof (cases "0 < unat count \<and> unat start + unat count \<le> unat ?n")
    case True
    have ends: "unat (start + count) = unat start + unat count"
      using True unsigned_less [of ?n, where 'a = nat] by (intro unat_small_add) simp
    have volume: "unat (start_lba (vfs_volume v) + ucast (total_sectors (vfs_volume v))) =
        unat (start_lba (vfs_volume v)) + unat (total_sectors (vfs_volume v))"
      "0 < unat (total_sectors (vfs_volume v))" if "vfs_is_mounted v"
    proof -
      have mounted: "volume_ok (vfs_volume v)"
        "unat (start_lba (vfs_volume v)) + unat (total_sectors (vfs_volume v)) \<le> unat ?n"
        using ok that by (simp_all add: vfs_ok_def vfs_is_mounted_def dev)
      then show "unat (start_lba (vfs_volume v) + ucast (total_sectors (vfs_volume v))) =
          unat (start_lba (vfs_volume v)) + unat (total_sectors (vfs_volume v))"
        using unsigned_less [of ?n, where 'a = nat] by (subst unat_small_add) (simp_all add: unat_ucast_u64)
      show "0 < unat (total_sectors (vfs_volume v))" using mounted(1) unfolding volume_ok_def by linarith
    qed
    show ?thesis
      using True inside volume
      by (auto simp: vfs_journal_region_available_def vfs_is_mounted_def dev Let_def word_le_nat_alt ends)
  next
    case False
    then show ?thesis using inside by (auto simp: vfs_journal_region_available_def dev Let_def)
  qed
qed

definition fixture_vfs :: "(u64 \<Rightarrow> bytes) vfs" where
  "fixture_vfs = fst (run_state (vfs_init (Some fixture_device) \<lparr>vfs_volume = no_volume, storage_device = None\<rparr>) build_fixture)"

lemma fixture_vfs_mounted: "vfs_is_mounted fixture_vfs" "start_lba (vfs_volume fixture_vfs) = 0"
  "total_sectors (vfs_volume fixture_vfs) = 8192"
  by code_simp+

theorem vfs_journal_region_exact_witness:
  "vfs_is_mounted fixture_vfs \<and> \<not> vfs_journal_region_available fixture_vfs 8000 8"
proof -
  have "run_state (vfs_init (Some fixture_device) \<lparr>vfs_volume = no_volume, storage_device = None\<rparr>) build_fixture =
      (fixture_vfs, snd (run_state (vfs_init (Some fixture_device) \<lparr>vfs_volume = no_volume, storage_device = None\<rparr>) build_fixture))"
    by (simp add: fixture_vfs_def)
  from vfs_journal_region_exact [OF this, of 8000 8] show ?thesis
    using fixture_vfs_mounted by auto
qed

end
