(* ===== verification/Features.thy ===== *)
theory Features
  imports Effects
begin

text \<open>
  Processor feature detection of \<open>cpu/features.c\<close>. The instructions \<open>cpuid\<close> and \<open>rdrand\<close> and the
  flag test that decides whether \<open>cpuid\<close> exists are parameters.
\<close>

record cpu_features =
  cpuid :: bool
  pae :: bool
  nx :: bool
  tsc :: bool
  rdrand :: bool
  msr :: bool
  apic :: bool
  x2apic :: bool

definition no_features :: cpu_features where
  "no_features = \<lparr>cpuid = False, pae = False, nx = False, tsc = False, rdrand = False, msr = False, apic = False,
     x2apic = False\<rparr>"

text \<open>The registers \<open>eax\<close>, \<open>ebx\<close>, \<open>ecx\<close> and \<open>edx\<close> of a leaf.\<close>

type_synonym cpuid_fn = "u32 \<Rightarrow> u32 \<times> u32 \<times> u32 \<times> u32"

definition cpu_features_init :: "bool \<Rightarrow> cpuid_fn \<Rightarrow> cpu_features" where
  "cpu_features_init cpuid_supported read_cpuid =
     (if \<not> cpuid_supported then no_features
      else
        let f0 = no_features\<lparr>cpuid := True\<rparr>;
            f1 = (if fst (read_cpuid 0) \<ge> 1
                  then (case read_cpuid 1 of (eax, ebx, ecx, edx) \<Rightarrow>
                    f0\<lparr>pae := bit edx 6, tsc := bit edx 4, rdrand := bit ecx 30, x2apic := bit ecx 21,
                       msr := bit edx 5, apic := bit edx 9\<rparr>)
                  else f0)
        in if fst (read_cpuid 0x80000000) \<ge> 0x80000001
           then (case read_cpuid 0x80000001 of (eax, ebx, ecx, edx) \<Rightarrow> f1\<lparr>nx := bit edx 20\<rparr>)
           else f1)"

text \<open>At most ten attempts; \<open>draw\<close> is one execution of \<open>rdrand\<close>, \<open>None\<close> when the carry flag is clear.\<close>

definition cpu_random_u32 :: "cpu_features \<Rightarrow> ('s, u32 option) state \<Rightarrow> ('s, u32 option) state" where
  "cpu_random_u32 features draw = (if \<not> rdrand features then return None else poll 10 draw)"

end
