(* ===== verification/Paging.thy ===== *)
theory Paging
  imports Pmm Features
begin

text \<open>
  The page tables of \<open>memory/paging.c\<close>, in both formats of the processor: two levels of 32-bit entries,
  or three levels of 64-bit entries (PAE). The tables live in the identity-mapped low memory; \<open>words\<close> is
  that memory as 32-bit words by address, and a table is the address of its first word, 0 for a null
  pointer. The static variables are the fields of \<open>paging\<close>; the frame allocator's state is the field
  \<open>frames\<close>. Flushing the translation cache has no effect on this state.
\<close>

section \<open>State\<close>

record paging =
  words :: "u32 \<Rightarrow> u32"
  frames :: pmm
  page_directory :: u32
  page_directory_physical :: u32
  kernel_page_directory :: u32
  kernel_page_directory_physical :: u32
  address_spaces :: "u32 list"
  address_space_count :: nat
  paging_enabled :: bool
  paging_pae_enabled :: bool
  paging_pae_nx_enabled :: bool
  pae_pdpt :: u32
  pae_pdpt_physical :: u32
  pae_kernel_pdpt :: u32
  pae_kernel_pdpt_physical :: u32
  pae_address_spaces :: "u32 list"
  pae_address_space_count :: nat

abbreviation PAGE_SIZE :: u32 where "PAGE_SIZE \<equiv> 4096"
abbreviation PAGE_TABLE_ENTRIES :: nat where "PAGE_TABLE_ENTRIES \<equiv> 1024"
abbreviation PAE_TABLE_ENTRIES :: nat where "PAE_TABLE_ENTRIES \<equiv> 512"
abbreviation PAE_PDP_ENTRIES :: nat where "PAE_PDP_ENTRIES \<equiv> 4"
abbreviation PAGE_PRESENT :: u32 where "PAGE_PRESENT \<equiv> 0x001"
abbreviation PAGE_FLAG_WRITABLE :: u32 where "PAGE_FLAG_WRITABLE \<equiv> 0x002"
abbreviation PAGE_FLAG_USER :: u32 where "PAGE_FLAG_USER \<equiv> 0x004"
abbreviation PAGE_FLAG_CACHE_DISABLE :: u32 where "PAGE_FLAG_CACHE_DISABLE \<equiv> 0x010"
abbreviation PAGE_FLAG_EXECUTABLE :: u32 where "PAGE_FLAG_EXECUTABLE \<equiv> 0x200"
abbreviation PAGE_ALLOWED_FLAGS :: u32 where "PAGE_ALLOWED_FLAGS \<equiv> 0x216"
abbreviation PAGE_ADDRESS_MASK :: u32 where "PAGE_ADDRESS_MASK \<equiv> 0xFFFFF000"
abbreviation LOW_IDENTITY_LIMIT :: u32 where "LOW_IDENTITY_LIMIT \<equiv> 0x00400000"
abbreviation VBE_FRAMEBUFFER_VIRTUAL :: u32 where "VBE_FRAMEBUFFER_VIRTUAL \<equiv> 0xE0000000"
abbreviation VBE_FRAMEBUFFER_PAGES :: nat where "VBE_FRAMEBUFFER_PAGES \<equiv> 768"
abbreviation USER_ADDRESS_LIMIT :: u32 where "USER_ADDRESS_LIMIT \<equiv> 0xC0000000"
abbreviation USER_MAPPING_MIN :: u32 where "USER_MAPPING_MIN \<equiv> 0x00400000"
abbreviation PAGING_MAX_ADDRESS_SPACES :: nat where "PAGING_MAX_ADDRESS_SPACES \<equiv> 16"
abbreviation PAE_PRESENT :: u64 where "PAE_PRESENT \<equiv> 0x001"
abbreviation PAE_WRITABLE :: u64 where "PAE_WRITABLE \<equiv> 0x002"
abbreviation PAE_USER :: u64 where "PAE_USER \<equiv> 0x004"
abbreviation PAE_ADDRESS_MASK :: u64 where "PAE_ADDRESS_MASK \<equiv> 0x000FFFFFFFFFF000"
abbreviation PAE_NX :: u64 where "PAE_NX \<equiv> 0x8000000000000000"

abbreviation has :: "'a::len word \<Rightarrow> 'a word \<Rightarrow> bool" where "has v flag \<equiv> v AND flag \<noteq> 0"

text \<open>\<open>table[i]\<close> and its update.\<close>

definition entry_at :: "paging \<Rightarrow> u32 \<Rightarrow> u32 \<Rightarrow> u32" where
  "entry_at s table i = words s (table + 4 * i)"

definition set_entry :: "u32 \<Rightarrow> u32 \<Rightarrow> u32 \<Rightarrow> paging \<Rightarrow> paging" where
  "set_entry table i v s = s\<lparr>words := (words s)(table + 4 * i := v)\<rparr>"

definition clear_page :: "u32 \<Rightarrow> paging \<Rightarrow> paging" where
  "clear_page page s = fold (\<lambda>i. set_entry page (of_nat i) 0) [0 ..< PAGE_TABLE_ENTRIES] s"

text \<open>Calls of the frame allocator.\<close>

definition alloc_low :: "paging \<Rightarrow> u32 \<times> paging" where
  "alloc_low s = (case pmm_alloc_block_below LOW_IDENTITY_LIMIT (frames s) of (a, f) \<Rightarrow> (a, s\<lparr>frames := f\<rparr>))"

definition free_frame :: "u32 \<Rightarrow> paging \<Rightarrow> paging" where
  "free_frame a s = s\<lparr>frames := pmm_free_block a (frames s)\<rparr>"

definition release_frame :: "u32 \<Rightarrow> paging \<Rightarrow> paging" where
  "release_frame a s = s\<lparr>frames := pmm_release_user_block a (frames s)\<rparr>"

definition claim_frame :: "u32 \<Rightarrow> paging \<Rightarrow> bool \<times> paging" where
  "claim_frame a s = (case pmm_claim_user_block a (frames s) of (ok, f) \<Rightarrow> (ok, s\<lparr>frames := f\<rparr>))"

section \<open>Three-level tables\<close>

text \<open>An entry is the address of its low word; the high word follows.\<close>

definition pae_entry_value :: "paging \<Rightarrow> u32 \<Rightarrow> u64" where
  "pae_entry_value s entry = push_bit 32 (ucast (words s (entry + 4))) OR ucast (words s entry)"

definition pae_set_entry :: "u32 \<Rightarrow> u64 \<Rightarrow> paging \<Rightarrow> paging" where
  "pae_set_entry entry v s = s\<lparr>words := (words s)(entry := ucast v, entry + 4 := ucast (drop_bit 32 v))\<rparr>"

definition pae_slot :: "u32 \<Rightarrow> u32 \<Rightarrow> u32" where
  "pae_slot table i = table + 8 * i"

definition clear_pae_page :: "u32 \<Rightarrow> paging \<Rightarrow> paging" where
  "clear_pae_page page s = fold (\<lambda>i. pae_set_entry (pae_slot page (of_nat i)) 0) [0 ..< PAE_TABLE_ENTRIES] s"

definition pae_entry_physical :: "paging \<Rightarrow> u32 \<Rightarrow> u32" where
  "pae_entry_physical s entry = ucast (pae_entry_value s entry AND PAE_ADDRESS_MASK)"

definition pae_entry_present :: "paging \<Rightarrow> u32 \<Rightarrow> bool" where
  "pae_entry_present s entry = has (pae_entry_value s entry) PAE_PRESENT"

definition pae_flags_to_entry :: "bool \<Rightarrow> u32 \<Rightarrow> u32 \<Rightarrow> u64" where
  "pae_flags_to_entry nx_enabled physical_address flags =
     ucast physical_address OR PAE_PRESENT OR (if has flags PAGE_FLAG_WRITABLE then PAE_WRITABLE else 0) OR
     (if has flags PAGE_FLAG_USER then PAE_USER else 0) OR ucast (flags AND PAGE_FLAG_CACHE_DISABLE) OR
     (if has flags PAGE_FLAG_EXECUTABLE then ucast PAGE_FLAG_EXECUTABLE else 0) OR
     (if nx_enabled \<and> flags AND PAGE_FLAG_EXECUTABLE = 0 then PAE_NX else 0)"

definition pae_page_directory_for :: "paging \<Rightarrow> u32 \<Rightarrow> u32 \<Rightarrow> u32" where
  "pae_page_directory_for s directory pdpt_index =
     (if directory = 0 \<or> pdpt_index \<ge> 4 \<or> \<not> pae_entry_present s (pae_slot directory pdpt_index) then 0
      else pae_entry_physical s (pae_slot directory pdpt_index))"

definition pdpt_index_of :: "u32 \<Rightarrow> u32" where "pdpt_index_of va = drop_bit 30 va"
definition pae_pde_index :: "u32 \<Rightarrow> u32" where "pae_pde_index va = drop_bit 21 va AND 0x1FF"
definition pae_pte_index :: "u32 \<Rightarrow> u32" where "pae_pte_index va = drop_bit 12 va AND 0x1FF"

definition pae_get_page_table_for :: "paging \<Rightarrow> u32 \<Rightarrow> u32 \<Rightarrow> u32" where
  "pae_get_page_table_for s directory va =
     (let pd = pae_page_directory_for s directory (pdpt_index_of va) in
      if pd = 0 then 0
      else let entry = pae_slot pd (pae_pde_index va) in
        if \<not> pae_entry_present s entry then 0 else pae_entry_physical s entry)"

definition pae_get_page_table :: "paging \<Rightarrow> u32 \<Rightarrow> u32" where
  "pae_get_page_table s va = pae_get_page_table_for s (pae_pdpt_physical s) va"

definition pae_uses_shared_kernel_table :: "paging \<Rightarrow> u32 \<Rightarrow> bool" where
  "pae_uses_shared_kernel_table s va =
     (let kernel_directory = pae_page_directory_for s (pae_kernel_pdpt_physical s) (pdpt_index_of va);
          current_directory = pae_page_directory_for s (pae_pdpt_physical s) (pdpt_index_of va);
          index = pae_pde_index va
      in if pae_pdpt s = 0 \<or> pae_kernel_pdpt s = 0 \<or> pae_pdpt_physical s = pae_kernel_pdpt_physical s \<or>
            kernel_directory = 0 \<or> current_directory = 0 then False
         else pae_entry_present s (pae_slot kernel_directory index) \<and>
           pae_entry_present s (pae_slot current_directory index) \<and>
           pae_entry_physical s (pae_slot kernel_directory index) = pae_entry_physical s (pae_slot current_directory index))"

definition pae_page_table_allows_user_mappings :: "paging \<Rightarrow> u32 \<Rightarrow> bool" where
  "pae_page_table_allows_user_mappings s table =
     (table \<noteq> 0 \<and>
      list_all (\<lambda>i. pae_entry_present s (pae_slot table (of_nat i)) \<longrightarrow> has (pae_entry_value s (pae_slot table (of_nat i))) PAE_USER)
        [0 ..< PAE_TABLE_ENTRIES])"

text \<open>The page directory of an address, allocated when it is missing; then its page table.\<close>

definition pae_ensure_directory :: "u32 \<Rightarrow> paging \<Rightarrow> u32 \<times> paging" where
  "pae_ensure_directory va s =
     (let pd = pae_page_directory_for s (pae_pdpt_physical s) (pdpt_index_of va) in
      if pd \<noteq> 0 then (pd, s)
      else if pdpt_index_of va \<ge> 4 then (0, s)
      else case alloc_low s of (physical, s1) \<Rightarrow>
        if physical = 0 then (0, s1)
        else (physical, pae_set_entry (pae_slot (pae_pdpt s) (pdpt_index_of va)) (ucast physical OR PAE_PRESENT)
                          (clear_pae_page physical s1)))"

definition pae_ensure_page_table :: "u32 \<Rightarrow> u32 \<Rightarrow> paging \<Rightarrow> u32 \<times> paging" where
  "pae_ensure_page_table va flags s =
     (case pae_ensure_directory va s of (pd, s1) \<Rightarrow>
      if pd = 0 then (0, s1)
      else let entry = pae_slot pd (pae_pde_index va) in
        if pae_entry_present s1 entry then
          if pae_uses_shared_kernel_table s1 va then (0, s1)
          else if has flags PAGE_FLAG_USER then
            if \<not> pae_page_table_allows_user_mappings s1 (pae_entry_physical s1 entry) then (0, s1)
            else let s2 = pae_set_entry entry (pae_entry_value s1 entry OR PAE_USER) s1 in (pae_entry_physical s2 entry, s2)
          else (pae_entry_physical s1 entry, s1)
        else case alloc_low s1 of (physical, s2) \<Rightarrow>
          if physical = 0 then (0, s2)
          else (physical, pae_set_entry entry
                  (ucast physical OR PAE_PRESENT OR PAE_WRITABLE OR (if has flags PAGE_FLAG_USER then PAE_USER else 0))
                  (clear_pae_page physical s2)))"

definition pae_map_page :: "u32 \<Rightarrow> u32 \<Rightarrow> u32 \<Rightarrow> paging \<Rightarrow> bool \<times> paging" where
  "pae_map_page va pa flags s =
     (if pae_pdpt s = 0 \<or> va < PAGE_SIZE \<or> pa < PAGE_SIZE \<or> has va (PAGE_SIZE - 1) \<or> has pa (PAGE_SIZE - 1) \<or>
         has flags (NOT PAGE_ALLOWED_FLAGS) \<or>
         flags AND (PAGE_FLAG_WRITABLE OR PAGE_FLAG_EXECUTABLE) = (PAGE_FLAG_WRITABLE OR PAGE_FLAG_EXECUTABLE) \<or>
         (has flags PAGE_FLAG_USER \<and> \<not> pmm_block_is_user_owned pa (frames s)) \<or>
         (pae_pdpt_physical s = pae_kernel_pdpt_physical s \<and> has flags PAGE_FLAG_USER) \<or>
         pae_uses_shared_kernel_table s va \<or>
         (has flags PAGE_FLAG_USER \<and> (va < USER_MAPPING_MIN \<or> va \<ge> USER_ADDRESS_LIMIT))
      then (False, s)
      else case pae_ensure_page_table va flags s of (table, s1) \<Rightarrow>
        if table = 0 then (False, s1)
        else let entry = pae_slot table (pae_pte_index va) in
          if pae_entry_present s1 entry then (False, s1)
          else case (if has flags PAGE_FLAG_USER then claim_frame pa s1 else (True, s1)) of (ok, s2) \<Rightarrow>
            if \<not> ok then (False, s2)
            else (True, pae_set_entry entry (pae_flags_to_entry (paging_pae_nx_enabled s2) pa flags) s2))"

definition pae_protect_page :: "u32 \<Rightarrow> u32 \<Rightarrow> paging \<Rightarrow> bool \<times> paging" where
  "pae_protect_page va flags s =
     (if pae_pdpt s = 0 \<or> va < PAGE_SIZE \<or> has va (PAGE_SIZE - 1) \<or>
         flags AND (PAGE_FLAG_WRITABLE OR PAGE_FLAG_EXECUTABLE) = (PAGE_FLAG_WRITABLE OR PAGE_FLAG_EXECUTABLE) \<or>
         (pae_pdpt_physical s = pae_kernel_pdpt_physical s \<and> has flags PAGE_FLAG_USER) \<or>
         pae_uses_shared_kernel_table s va \<or>
         (has flags PAGE_FLAG_USER \<and> (va < USER_MAPPING_MIN \<or> va \<ge> USER_ADDRESS_LIMIT)) \<or>
         has flags (NOT PAGE_ALLOWED_FLAGS)
      then (False, s)
      else let table = pae_get_page_table s va in
        if table = 0 then (False, s)
        else let entry = pae_slot table (pae_pte_index va); v = pae_entry_value s entry in
          if v AND PAE_PRESENT = 0 \<or> has v PAE_USER \<noteq> has flags PAGE_FLAG_USER then (False, s)
          else if has flags PAGE_FLAG_USER \<and> \<not> pmm_block_is_user_owned (pae_entry_physical s entry) (frames s) then (False, s)
          else let s1 = pae_set_entry entry (pae_flags_to_entry (paging_pae_nx_enabled s) (pae_entry_physical s entry) flags) s
            in if has flags PAGE_FLAG_USER
               then let pde = pae_slot (pae_page_directory_for s1 (pae_pdpt_physical s1) (pdpt_index_of va)) (pae_pde_index va)
                 in (True, s1\<lparr>words := (words s1)(pde := words s1 pde OR ucast PAE_USER)\<rparr>)
               else (True, s1))"

definition pae_table_is_empty :: "paging \<Rightarrow> u32 \<Rightarrow> bool" where
  "pae_table_is_empty s table = list_all (\<lambda>i. \<not> pae_entry_present s (pae_slot table (of_nat i))) [0 ..< PAE_TABLE_ENTRIES]"

definition pae_unmap_page :: "u32 \<Rightarrow> paging \<Rightarrow> u32 \<times> paging" where
  "pae_unmap_page va s =
     (if pae_pdpt s = 0 \<or> va < PAGE_SIZE \<or> has va (PAGE_SIZE - 1) \<or>
         (pae_pdpt_physical s = pae_kernel_pdpt_physical s \<and> va < USER_MAPPING_MIN) \<or>
         pae_uses_shared_kernel_table s va
      then (0, s)
      else let table = pae_get_page_table s va in
        if table = 0 then (0, s)
        else let entry = pae_slot table (pae_pte_index va) in
          if \<not> pae_entry_present s entry then (0, s)
          else
            let v = pae_entry_value s entry;
                physical = pae_entry_physical s entry;
                s1 = pae_set_entry entry 0 s;
                s2 = (if has v PAE_USER then release_frame physical s1 else s1)
            in if \<not> pae_table_is_empty s2 table then (physical, s2)
               else
                 let directory = pae_page_directory_for s2 (pae_pdpt_physical s2) (pdpt_index_of va);
                     s3 = free_frame table (pae_set_entry (pae_slot directory (pae_pde_index va)) 0 s2)
                 in if \<not> pae_table_is_empty s3 directory then (physical, s3)
                    else (physical, free_frame directory (pae_set_entry (pae_slot (pae_pdpt s3) (pdpt_index_of va)) 0 s3)))"

definition pae_get_physical :: "paging \<Rightarrow> u32 \<Rightarrow> u32" where
  "pae_get_physical s va =
     (let table = pae_get_page_table s va in
      if table = 0 \<or> \<not> pae_entry_present s (pae_slot table (pae_pte_index va)) then 0
      else pae_entry_physical s (pae_slot table (pae_pte_index va)) OR (va AND (PAGE_SIZE - 1)))"

definition pae_is_mapped :: "paging \<Rightarrow> u32 \<Rightarrow> bool" where
  "pae_is_mapped s va =
     (let table = pae_get_page_table s va in table \<noteq> 0 \<and> pae_entry_present s (pae_slot table (pae_pte_index va)))"

section \<open>Two-level tables\<close>

definition address_space_is_registered :: "paging \<Rightarrow> u32 \<Rightarrow> bool" where
  "address_space_is_registered s directory \<longleftrightarrow>
     directory = kernel_page_directory_physical s \<or> directory \<in> set (take (address_space_count s) (address_spaces s))"

definition pae_address_space_is_registered :: "paging \<Rightarrow> u32 \<Rightarrow> bool" where
  "pae_address_space_is_registered s directory \<longleftrightarrow>
     directory = pae_kernel_pdpt_physical s \<or> directory \<in> set (take (pae_address_space_count s) (pae_address_spaces s))"

definition pde_index :: "u32 \<Rightarrow> u32" where "pde_index va = drop_bit 22 va"
definition pte_index :: "u32 \<Rightarrow> u32" where "pte_index va = drop_bit 12 va AND 0x3FF"

definition uses_shared_kernel_table :: "paging \<Rightarrow> u32 \<Rightarrow> bool" where
  "uses_shared_kernel_table s va =
     (if page_directory s = 0 \<or> kernel_page_directory s = 0 \<or> page_directory s = kernel_page_directory s then False
      else let kernel_entry = entry_at s (kernel_page_directory s) (pde_index va);
               current_entry = entry_at s (page_directory s) (pde_index va)
        in has kernel_entry PAGE_PRESENT \<and> has current_entry PAGE_PRESENT \<and>
           kernel_entry AND PAGE_ADDRESS_MASK = current_entry AND PAGE_ADDRESS_MASK)"

definition page_table_allows_user_mappings :: "paging \<Rightarrow> u32 \<Rightarrow> bool" where
  "page_table_allows_user_mappings s table =
     (table \<noteq> 0 \<and>
      list_all (\<lambda>i. has (entry_at s table (of_nat i)) PAGE_PRESENT \<longrightarrow> has (entry_at s table (of_nat i)) PAGE_FLAG_USER)
        [0 ..< PAGE_TABLE_ENTRIES])"

definition get_page_table :: "paging \<Rightarrow> u32 \<Rightarrow> u32" where
  "get_page_table s va =
     (if page_directory s = 0 then 0
      else let entry = entry_at s (page_directory s) (pde_index va) in
        if entry AND PAGE_PRESENT = 0 then 0 else entry AND PAGE_ADDRESS_MASK)"

definition ensure_page_table :: "u32 \<Rightarrow> u32 \<Rightarrow> paging \<Rightarrow> u32 \<times> paging" where
  "ensure_page_table va flags s =
     (let index = pde_index va; entry = entry_at s (page_directory s) index in
      if has entry PAGE_PRESENT then
        if uses_shared_kernel_table s va then (0, s)
        else if has flags PAGE_FLAG_USER then
          if \<not> page_table_allows_user_mappings s (entry AND PAGE_ADDRESS_MASK) then (0, s)
          else (entry AND PAGE_ADDRESS_MASK,
                set_entry (page_directory s) index (entry_at s (page_directory s) index OR PAGE_FLAG_USER) s)
        else (entry AND PAGE_ADDRESS_MASK, s)
      else case alloc_low s of (table, s1) \<Rightarrow>
        if table = 0 then (0, s1)
        else (table, set_entry (page_directory s1) index
                (table OR PAGE_PRESENT OR PAGE_FLAG_WRITABLE OR (flags AND PAGE_FLAG_USER)) (clear_page table s1)))"

definition paging_map_page :: "u32 \<Rightarrow> u32 \<Rightarrow> u32 \<Rightarrow> paging \<Rightarrow> bool \<times> paging" where
  "paging_map_page va pa flags s =
     (if paging_pae_enabled s then pae_map_page va pa flags s
      else if page_directory s = 0 \<or> va < PAGE_SIZE \<or> pa < PAGE_SIZE \<or> has va (PAGE_SIZE - 1) \<or> has pa (PAGE_SIZE - 1) \<or>
         has flags (NOT PAGE_ALLOWED_FLAGS) \<or>
         flags AND (PAGE_FLAG_WRITABLE OR PAGE_FLAG_EXECUTABLE) = (PAGE_FLAG_WRITABLE OR PAGE_FLAG_EXECUTABLE) \<or>
         (has flags PAGE_FLAG_USER \<and> \<not> pmm_block_is_user_owned pa (frames s)) \<or>
         (page_directory s = kernel_page_directory s \<and> has flags PAGE_FLAG_USER) \<or>
         uses_shared_kernel_table s va \<or>
         (has flags PAGE_FLAG_USER \<and> (va < USER_MAPPING_MIN \<or> va \<ge> USER_ADDRESS_LIMIT))
      then (False, s)
      else case ensure_page_table va flags s of (table, s1) \<Rightarrow>
        if table = 0 then (False, s1)
        else if has (entry_at s1 table (pte_index va)) PAGE_PRESENT then (False, s1)
        else case (if has flags PAGE_FLAG_USER then claim_frame pa s1 else (True, s1)) of (ok, s2) \<Rightarrow>
          if \<not> ok then (False, s2)
          else (True, set_entry table (pte_index va) (pa OR PAGE_PRESENT OR (flags AND PAGE_ALLOWED_FLAGS)) s2))"

definition paging_protect_page :: "u32 \<Rightarrow> u32 \<Rightarrow> paging \<Rightarrow> bool \<times> paging" where
  "paging_protect_page va flags s =
     (if paging_pae_enabled s then pae_protect_page va flags s
      else if page_directory s = 0 \<or> va < PAGE_SIZE \<or> has va (PAGE_SIZE - 1) \<or>
         flags AND (PAGE_FLAG_WRITABLE OR PAGE_FLAG_EXECUTABLE) = (PAGE_FLAG_WRITABLE OR PAGE_FLAG_EXECUTABLE) \<or>
         (page_directory s = kernel_page_directory s \<and> has flags PAGE_FLAG_USER) \<or>
         uses_shared_kernel_table s va \<or>
         (has flags PAGE_FLAG_USER \<and> (va < USER_MAPPING_MIN \<or> va \<ge> USER_ADDRESS_LIMIT)) \<or>
         has flags (NOT PAGE_ALLOWED_FLAGS)
      then (False, s)
      else let table = get_page_table s va in
        if table = 0 then (False, s)
        else let entry = entry_at s table (pte_index va) in
          if entry AND PAGE_PRESENT = 0 then (False, s)
          else if entry AND PAGE_FLAG_USER \<noteq> flags AND PAGE_FLAG_USER then (False, s)
          else if has flags PAGE_FLAG_USER \<and> \<not> pmm_block_is_user_owned (entry AND PAGE_ADDRESS_MASK) (frames s)
          then (False, s)
          else let s1 = set_entry table (pte_index va) ((entry AND PAGE_ADDRESS_MASK) OR PAGE_PRESENT OR flags) s
            in (True, if has flags PAGE_FLAG_USER
                      then set_entry (page_directory s1) (pde_index va)
                             (entry_at s1 (page_directory s1) (pde_index va) OR PAGE_FLAG_USER) s1
                      else s1))"

definition table_is_empty :: "paging \<Rightarrow> u32 \<Rightarrow> bool" where
  "table_is_empty s table = list_all (\<lambda>i. entry_at s table (of_nat i) AND PAGE_PRESENT = 0) [0 ..< PAGE_TABLE_ENTRIES]"

definition paging_unmap_page :: "u32 \<Rightarrow> paging \<Rightarrow> u32 \<times> paging" where
  "paging_unmap_page va s =
     (if paging_pae_enabled s then pae_unmap_page va s
      else if va < PAGE_SIZE \<or> has va (PAGE_SIZE - 1) \<or>
         (page_directory s = kernel_page_directory s \<and> va < USER_MAPPING_MIN) \<or> uses_shared_kernel_table s va
      then (0, s)
      else let table = get_page_table s va in
        if table = 0 then (0, s)
        else let entry = entry_at s table (pte_index va) in
          if entry AND PAGE_PRESENT = 0 then (0, s)
          else
            let physical = entry AND PAGE_ADDRESS_MASK;
                s1 = set_entry table (pte_index va) 0 s;
                s2 = (if has entry PAGE_FLAG_USER then release_frame physical s1 else s1)
            in if \<not> table_is_empty s2 table then (physical, s2)
               else (physical, free_frame table (set_entry (page_directory s2) (pde_index va) 0 s2)))"

definition paging_get_physical :: "paging \<Rightarrow> u32 \<Rightarrow> u32" where
  "paging_get_physical s va =
     (if paging_pae_enabled s then pae_get_physical s va
      else let table = get_page_table s va in
        if table = 0 then 0
        else let entry = entry_at s table (pte_index va) in
          if entry AND PAGE_PRESENT = 0 then 0
          else (entry AND PAGE_ADDRESS_MASK) OR (va AND (PAGE_SIZE - 1)))"

definition paging_is_mapped :: "paging \<Rightarrow> u32 \<Rightarrow> bool" where
  "paging_is_mapped s va =
     (if paging_pae_enabled s then pae_is_mapped s va
      else let table = get_page_table s va in table \<noteq> 0 \<and> has (entry_at s table (pte_index va)) PAGE_PRESENT)"

section \<open>User memory\<close>

text \<open>The pages a loop from the page of \<open>va\<close> in steps of a page visits before \<open>end\<close>.\<close>

definition pages_until :: "u32 \<Rightarrow> u32 \<Rightarrow> u32 list" where
  "pages_until va limit =
     (let page = va AND PAGE_ADDRESS_MASK in
      map (\<lambda>i. page + PAGE_SIZE * of_nat i) [0 ..< (unat limit - unat page + 4095) div 4096])"

definition pae_user_page :: "paging \<Rightarrow> bool \<Rightarrow> u32 \<Rightarrow> bool" where
  "pae_user_page s writable page =
     (let directory = pae_page_directory_for s (pae_pdpt_physical s) (pdpt_index_of page);
          table = pae_get_page_table s page;
          v = pae_entry_value s (pae_slot table (pae_pte_index page))
      in directory \<noteq> 0 \<and> table \<noteq> 0 \<and>
         pae_entry_value s (pae_slot directory (pae_pde_index page)) AND (PAE_PRESENT OR PAE_USER) = (PAE_PRESENT OR PAE_USER) \<and>
         v AND (PAE_PRESENT OR PAE_USER) = (PAE_PRESENT OR PAE_USER) \<and> (writable \<longrightarrow> has v PAE_WRITABLE))"

definition user_page :: "paging \<Rightarrow> bool \<Rightarrow> u32 \<Rightarrow> bool" where
  "user_page s writable page =
     (let directory_entry = entry_at s (page_directory s) (pde_index page);
          table = get_page_table s page;
          entry = entry_at s table (pte_index page)
      in table \<noteq> 0 \<and> directory_entry AND (PAGE_PRESENT OR PAGE_FLAG_USER) = (PAGE_PRESENT OR PAGE_FLAG_USER) \<and>
         has entry PAGE_PRESENT \<and> has entry PAGE_FLAG_USER \<and> (writable \<longrightarrow> has entry PAGE_FLAG_WRITABLE))"

definition paging_validate_user_range :: "paging \<Rightarrow> u32 \<Rightarrow> u32 \<Rightarrow> bool \<Rightarrow> bool" where
  "paging_validate_user_range s va len writable =
     (if len = 0 then True
      else if (if paging_pae_enabled s then pae_pdpt s = 0 else page_directory s = 0) \<or>
              va < PAGE_SIZE \<or> va \<ge> USER_ADDRESS_LIMIT \<or> len > USER_ADDRESS_LIMIT - va then False
      else list_all (if paging_pae_enabled s then pae_user_page s writable else user_page s writable)
             (pages_until va (va + len)))"

definition paging_validate_user_execute :: "paging \<Rightarrow> u32 \<Rightarrow> bool" where
  "paging_validate_user_execute s va =
     (if paging_pae_enabled s then
        if pae_pdpt s = 0 \<or> va < PAGE_SIZE \<or> va \<ge> USER_ADDRESS_LIMIT then False
        else
          let directory = pae_page_directory_for s (pae_pdpt_physical s) (pdpt_index_of va);
              table = pae_get_page_table s va;
              v = pae_entry_value s (pae_slot table (pae_pte_index va))
          in directory \<noteq> 0 \<and> table \<noteq> 0 \<and>
             pae_entry_value s (pae_slot directory (pae_pde_index va)) AND (PAE_PRESENT OR PAE_USER) = (PAE_PRESENT OR PAE_USER) \<and>
             v AND (PAE_PRESENT OR PAE_USER OR PAE_WRITABLE) = (PAE_PRESENT OR PAE_USER) \<and> has v (push_bit 9 1) \<and>
             (\<not> paging_pae_nx_enabled s \<or> v AND PAE_NX = 0)
      else if page_directory s = 0 \<or> va < PAGE_SIZE \<or> va \<ge> USER_ADDRESS_LIMIT then False
      else let directory_entry = entry_at s (page_directory s) (pde_index va); table = get_page_table s va in
        directory_entry AND (PAGE_PRESENT OR PAGE_FLAG_USER) = (PAGE_PRESENT OR PAGE_FLAG_USER) \<and> table \<noteq> 0 \<and>
        entry_at s table (pte_index va) AND (PAGE_PRESENT OR PAGE_FLAG_USER OR PAGE_FLAG_WRITABLE OR PAGE_FLAG_EXECUTABLE) =
          (PAGE_PRESENT OR PAGE_FLAG_USER OR PAGE_FLAG_EXECUTABLE))"

text \<open>One byte of physical memory, and the byte a virtual address names under the current tables.\<close>

definition phys_byte :: "paging \<Rightarrow> u32 \<Rightarrow> u8" where
  "phys_byte s a = ucast (drop_bit (8 * unat (a AND 3)) (words s (a AND 0xFFFFFFFC)))"

definition set_phys_byte :: "u32 \<Rightarrow> u8 \<Rightarrow> paging \<Rightarrow> paging" where
  "set_phys_byte a b s =
     (let k = 8 * unat (a AND 3); w = a AND 0xFFFFFFFC in
      s\<lparr>words := (words s)(w := (words s w AND NOT (push_bit k 0xFF)) OR push_bit k (ucast b))\<rparr>)"

definition paging_copy_from_user :: "paging \<Rightarrow> u32 \<Rightarrow> u32 \<Rightarrow> bytes option" where
  "paging_copy_from_user s source len =
     (if \<not> paging_validate_user_range s source len False then None
      else Some (map (\<lambda>i. phys_byte s (paging_get_physical s (source + of_nat i))) [0 ..< unat len]))"

definition paging_copy_to_user :: "u32 \<Rightarrow> bytes \<Rightarrow> paging \<Rightarrow> bool \<times> paging" where
  "paging_copy_to_user destination data s =
     (if \<not> paging_validate_user_range s destination (of_nat (length data)) True then (False, s)
      else (True, fold (\<lambda>i u. set_phys_byte (paging_get_physical u (destination + of_nat i)) (data ! i) u)
                    [0 ..< length data] s))"

section \<open>Address spaces\<close>

definition paging_kernel_directory :: "paging \<Rightarrow> u32" where
  "paging_kernel_directory s = kernel_page_directory_physical s"

definition paging_current_directory :: "paging \<Rightarrow> u32" where
  "paging_current_directory s = page_directory_physical s"

definition paging_uses_pae :: "paging \<Rightarrow> bool" where "paging_uses_pae s = paging_pae_enabled s"

definition paging_uses_hardware_nx :: "paging \<Rightarrow> bool" where "paging_uses_hardware_nx s = paging_pae_nx_enabled s"

definition paging_address_space_extra_blocks :: "paging \<Rightarrow> nat" where
  "paging_address_space_extra_blocks s =
     (if \<not> paging_pae_enabled s \<or> pae_kernel_pdpt s = 0 then 0
      else length (filter (\<lambda>i. pae_entry_present s (pae_slot (pae_kernel_pdpt s) (of_nat i))) [0 ..< PAE_PDP_ENTRIES]))"

definition copy_table :: "u32 \<Rightarrow> u32 \<Rightarrow> paging \<Rightarrow> paging" where
  "copy_table to from s =
     fold (\<lambda>i u. set_entry to (of_nat i) (entry_at u from (of_nat i)) u) [0 ..< PAGE_TABLE_ENTRIES] s"

text \<open>The private page directories of a new three-level space, or \<open>False\<close> when frames run out; the
  directories made so far are freed then.\<close>

fun pae_copy_directories :: "u32 \<Rightarrow> nat list \<Rightarrow> paging \<Rightarrow> bool \<times> paging" where
  "pae_copy_directories directory [] s = (True, s)"
| "pae_copy_directories directory (k # ks) s =
     (if \<not> pae_entry_present s (pae_slot (pae_kernel_pdpt s) (of_nat k)) then pae_copy_directories directory ks s
      else case alloc_low s of (private, s1) \<Rightarrow>
        if private = 0 then
          (False, fold (\<lambda>i u. if pae_entry_present u (pae_slot directory (of_nat i))
                              then free_frame (pae_entry_physical u (pae_slot directory (of_nat i))) u else u) [0 ..< k] s1)
        else
          let kernel_directory = pae_entry_physical s1 (pae_slot (pae_kernel_pdpt s1) (of_nat k));
              s2 = copy_table private kernel_directory s1
          in pae_copy_directories directory ks
               (pae_set_entry (pae_slot directory (of_nat k)) (ucast private OR PAE_PRESENT) s2))"

definition paging_create_address_space :: "paging \<Rightarrow> u32 \<times> paging" where
  "paging_create_address_space s =
     (if paging_pae_enabled s then
        if pae_kernel_pdpt s = 0 \<or> pae_address_space_count s = PAGING_MAX_ADDRESS_SPACES then (0, s)
        else case alloc_low s of (physical, s1) \<Rightarrow>
          if physical = 0 then (0, s1)
          else case pae_copy_directories physical [0 ..< PAE_PDP_ENTRIES] (clear_pae_page physical s1) of (ok, s2) \<Rightarrow>
            if \<not> ok then (0, free_frame physical s2)
            else (physical, s2\<lparr>pae_address_spaces := (pae_address_spaces s2)[pae_address_space_count s2 := physical],
                              pae_address_space_count := pae_address_space_count s2 + 1\<rparr>)
      else if kernel_page_directory s = 0 \<or> address_space_count s = PAGING_MAX_ADDRESS_SPACES then (0, s)
      else case alloc_low s of (physical, s1) \<Rightarrow>
        if physical = 0 then (0, s1)
        else let s2 = copy_table physical (kernel_page_directory s1) s1 in
          (physical, s2\<lparr>address_spaces := (address_spaces s2)[address_space_count s2 := physical],
                        address_space_count := address_space_count s2 + 1\<rparr>))"

definition paging_address_space_is_valid :: "paging \<Rightarrow> u32 \<Rightarrow> bool" where
  "paging_address_space_is_valid s directory \<longleftrightarrow>
     directory \<noteq> 0 \<and> directory AND (PAGE_SIZE - 1) = 0 \<and>
     (if paging_pae_enabled s then pae_address_space_is_registered s directory else address_space_is_registered s directory)"

definition paging_switch_address_space :: "u32 \<Rightarrow> paging \<Rightarrow> bool \<times> paging" where
  "paging_switch_address_space directory s =
     (if \<not> paging_address_space_is_valid s directory then (False, s)
      else if paging_pae_enabled s then
        if directory = pae_pdpt_physical s then (True, s)
        else (True, s\<lparr>pae_pdpt_physical := directory, pae_pdpt := directory, page_directory_physical := directory\<rparr>)
      else if directory = page_directory_physical s then (True, s)
      else (True, s\<lparr>page_directory_physical := directory, page_directory := directory\<rparr>))"

text \<open>The private tables of a three-level space: the entries behind \<open>continue\<close> are left out.\<close>

definition pae_private_directory :: "paging \<Rightarrow> u32 \<Rightarrow> nat \<Rightarrow> bool" where
  "pae_private_directory s directory k =
     (let kernel_directory = pae_page_directory_for s (pae_kernel_pdpt_physical s) (of_nat k);
          table_directory = pae_page_directory_for s directory (of_nat k)
      in \<not> (table_directory = 0 \<or>
            (kernel_directory \<noteq> 0 \<and> pae_entry_physical s (pae_slot directory (of_nat k)) =
               pae_entry_physical s (pae_slot (pae_kernel_pdpt s) (of_nat k)))))"

definition pae_private_table :: "paging \<Rightarrow> u32 \<Rightarrow> nat \<Rightarrow> nat \<Rightarrow> bool" where
  "pae_private_table s directory k j =
     (let kernel_directory = pae_page_directory_for s (pae_kernel_pdpt_physical s) (of_nat k);
          table_directory = pae_page_directory_for s directory (of_nat k);
          pde = pae_slot table_directory (of_nat j)
      in pae_entry_present s pde \<and>
         \<not> (kernel_directory \<noteq> 0 \<and> pae_entry_present s (pae_slot kernel_directory (of_nat j)) \<and>
            pae_entry_physical s pde = pae_entry_physical s (pae_slot kernel_directory (of_nat j))))"

definition pae_table_releasable :: "paging \<Rightarrow> u32 \<Rightarrow> bool" where
  "pae_table_releasable s table =
     list_all (\<lambda>i. pae_entry_present s (pae_slot table (of_nat i)) \<longrightarrow>
        pmm_block_is_user_owned (pae_entry_physical s (pae_slot table (of_nat i))) (frames s) \<and>
        pmm_user_block_is_mapped (pae_entry_physical s (pae_slot table (of_nat i))) (frames s)) [0 ..< PAE_TABLE_ENTRIES]"

definition pae_preflight :: "paging \<Rightarrow> u32 \<Rightarrow> bool" where
  "pae_preflight s directory =
     list_all (\<lambda>k. pae_private_directory s directory k \<longrightarrow>
       list_all (\<lambda>j. pae_private_table s directory k j \<longrightarrow>
          (let pde = pae_slot (pae_page_directory_for s directory (of_nat k)) (of_nat j) in
           has (pae_entry_value s pde) PAE_USER \<and> pae_table_releasable s (pae_entry_physical s pde)))
         [0 ..< PAE_TABLE_ENTRIES]) [0 ..< PAE_PDP_ENTRIES]"

definition pae_release_table :: "u32 \<Rightarrow> paging \<Rightarrow> paging" where
  "pae_release_table table s =
     free_frame table
       (fold (\<lambda>i u. let pte = pae_slot table (of_nat i); physical = pae_entry_physical u pte in
          if pae_entry_present u pte
          then free_frame physical (if has (pae_entry_value u pte) PAE_USER then release_frame physical u else u)
          else u) [0 ..< PAE_TABLE_ENTRIES] s)"

definition pae_release_directory :: "u32 \<Rightarrow> nat \<Rightarrow> paging \<Rightarrow> paging" where
  "pae_release_directory directory k s =
     (if \<not> pae_private_directory s directory k then s
      else let table_directory = pae_page_directory_for s directory (of_nat k) in
        free_frame table_directory
          (fold (\<lambda>j u. if pae_private_table u directory k j
                       then pae_release_table (pae_entry_physical u (pae_slot table_directory (of_nat j))) u else u)
             [0 ..< PAE_TABLE_ENTRIES] s))"

text \<open>Taking an address space off the list: the last one moves into its place.\<close>

definition remove_space :: "u32 \<Rightarrow> u32 list \<Rightarrow> nat \<Rightarrow> u32 list \<times> nat" where
  "remove_space directory spaces n =
     (case find (\<lambda>i. spaces ! i = directory) [0 ..< n] of None \<Rightarrow> (spaces, n)
      | Some i \<Rightarrow> (spaces[i := spaces ! (n - 1), n - 1 := 0], n - 1))"

definition private_entry :: "paging \<Rightarrow> u32 \<Rightarrow> nat \<Rightarrow> bool" where
  "private_entry s directory k =
     (let entry = entry_at s directory (of_nat k); kernel_entry = entry_at s (kernel_page_directory s) (of_nat k) in
      has entry PAGE_PRESENT \<and>
      \<not> (has kernel_entry PAGE_PRESENT \<and> entry AND PAGE_ADDRESS_MASK = kernel_entry AND PAGE_ADDRESS_MASK))"

definition table_releasable :: "paging \<Rightarrow> u32 \<Rightarrow> bool" where
  "table_releasable s table =
     list_all (\<lambda>i. has (entry_at s table (of_nat i)) PAGE_PRESENT \<longrightarrow>
        pmm_block_is_user_owned (entry_at s table (of_nat i) AND PAGE_ADDRESS_MASK) (frames s) \<and>
        pmm_user_block_is_mapped (entry_at s table (of_nat i) AND PAGE_ADDRESS_MASK) (frames s)) [0 ..< PAGE_TABLE_ENTRIES]"

definition preflight :: "paging \<Rightarrow> u32 \<Rightarrow> bool" where
  "preflight s directory =
     list_all (\<lambda>k. private_entry s directory k \<longrightarrow>
        has (entry_at s directory (of_nat k)) PAGE_FLAG_USER \<and>
        table_releasable s (entry_at s directory (of_nat k) AND PAGE_ADDRESS_MASK))
       [1 ..< unat (drop_bit 22 USER_ADDRESS_LIMIT)]"

definition release_table :: "u32 \<Rightarrow> paging \<Rightarrow> paging" where
  "release_table table s =
     free_frame table
       (fold (\<lambda>i u. let entry = entry_at u table (of_nat i); physical = entry AND PAGE_ADDRESS_MASK in
          if has entry PAGE_PRESENT
          then free_frame physical (if has entry PAGE_FLAG_USER then release_frame physical u else u)
          else u) [0 ..< PAGE_TABLE_ENTRIES] s)"

definition paging_destroy_address_space :: "u32 \<Rightarrow> paging \<Rightarrow> bool \<times> paging" where
  "paging_destroy_address_space directory s =
     (if paging_pae_enabled s then
        if directory = 0 \<or> directory = pae_kernel_pdpt_physical s \<or> directory = pae_pdpt_physical s \<or>
           \<not> paging_address_space_is_valid s directory \<or> \<not> pae_preflight s directory then (False, s)
        else
          let s1 = free_frame directory (fold (pae_release_directory directory) [0 ..< PAE_PDP_ENTRIES] s)
          in (True, case remove_space directory (pae_address_spaces s1) (pae_address_space_count s1) of (l, n) \<Rightarrow>
                s1\<lparr>pae_address_spaces := l, pae_address_space_count := n\<rparr>)
      else if directory = 0 \<or> directory = kernel_page_directory_physical s \<or> directory = page_directory_physical s \<or>
              \<not> paging_address_space_is_valid s directory \<or> \<not> preflight s directory then (False, s)
      else
        let s1 = free_frame directory
              (fold (\<lambda>k u. if private_entry u directory k
                           then release_table (entry_at u directory (of_nat k) AND PAGE_ADDRESS_MASK) u else u)
                 [1 ..< unat (drop_bit 22 USER_ADDRESS_LIMIT)] s)
        in (True, case remove_space directory (address_spaces s1) (address_space_count s1) of (l, n) \<Rightarrow>
              s1\<lparr>address_spaces := l, address_space_count := n\<rparr>))"

section \<open>Initialisation\<close>

text \<open>The bounds of the kernel's text and read-only data come from the linker.\<close>

record kernel_image =
  text_start :: u32
  text_end :: u32
  rodata_end :: u32

definition page_ceiling :: "u32 \<Rightarrow> u32" where
  "page_ceiling a = (a + PAGE_SIZE - 1) AND PAGE_ADDRESS_MASK"

definition pae_protect_kernel_page :: "kernel_image \<Rightarrow> u32 \<Rightarrow> paging \<Rightarrow> paging" where
  "pae_protect_kernel_page img address s =
     (let entry = pae_slot (pae_get_page_table s address) (pae_pte_index address);
          v = pae_entry_value s entry AND NOT PAE_NX
      in pae_set_entry entry
           (if address < page_ceiling (text_end img)
            then (v AND NOT PAE_WRITABLE) OR ucast PAGE_FLAG_EXECUTABLE
            else (v AND NOT (ucast PAGE_FLAG_EXECUTABLE)) OR (if paging_pae_nx_enabled s then PAE_NX else 0)) s)"

definition protect_kernel_page :: "u32 \<Rightarrow> paging \<Rightarrow> paging" where
  "protect_kernel_page address s =
     (let table = get_page_table s address in
      set_entry table (pte_index address) (entry_at s table (pte_index address) AND NOT PAGE_FLAG_WRITABLE) s)"

definition protect_kernel_read_only :: "kernel_image \<Rightarrow> paging \<Rightarrow> paging" where
  "protect_kernel_read_only img s =
     fold (if paging_pae_enabled s then pae_protect_kernel_page img else protect_kernel_page)
       (map (\<lambda>i. text_start img + PAGE_SIZE * of_nat i)
          [0 ..< (unat (page_ceiling (rodata_end img)) - unat (text_start img) + 4095) div 4096]) s"

definition enable_paging :: "paging \<Rightarrow> paging" where
  "enable_paging s = s\<lparr>paging_enabled := True\<rparr>"

definition framebuffer_page :: "nat \<Rightarrow> u32" where
  "framebuffer_page i = VBE_FRAMEBUFFER_VIRTUAL + PAGE_SIZE * of_nat i"

text \<open>The index of the page that could not be mapped, if there is one.\<close>

fun map_framebuffer :: "nat list \<Rightarrow> paging \<Rightarrow> nat option \<times> paging" where
  "map_framebuffer [] s = (None, s)"
| "map_framebuffer (i # is) s =
     (case paging_map_page (framebuffer_page i) (framebuffer_page i) PAGE_FLAG_WRITABLE s of (ok, s1) \<Rightarrow>
      if ok then map_framebuffer is s1 else (Some i, s1))"

definition font_available :: "boot_info option \<Rightarrow> bool" where
  "font_available info = (case info of None \<Rightarrow> False | Some b \<Rightarrow> has (video_flags b) BOOT_VIDEO_FONT_AVAILABLE)"

definition free_if :: "u32 \<Rightarrow> paging \<Rightarrow> paging" where
  "free_if a s = (if a \<noteq> 0 then free_frame a s else s)"

definition pae_init :: "kernel_image \<Rightarrow> boot_info option \<Rightarrow> paging \<Rightarrow> bool \<times> paging" where
  "pae_init img info s =
     (case alloc_low s of (pdpt, s1) \<Rightarrow> case alloc_low s1 of (pd, s2) \<Rightarrow>
      case alloc_low s2 of (identity, s3) \<Rightarrow> case alloc_low s3 of (identity_second, s4) \<Rightarrow>
      if pdpt = 0 \<or> pd = 0 \<or> identity = 0 \<or> identity_second = 0
      then (False, free_if identity_second (free_if identity (free_if pd (free_if pdpt s4))))
      else
        let nx_bit = (if paging_pae_nx_enabled s4 then PAE_NX else 0);
            s5 = s4\<lparr>pae_pdpt_physical := pdpt, pae_kernel_pdpt_physical := pdpt, pae_pdpt := pdpt, pae_kernel_pdpt := pdpt,
                    page_directory_physical := pdpt, kernel_page_directory_physical := pdpt\<rparr>;
            s6 = clear_pae_page identity_second (clear_pae_page identity (clear_pae_page pd (clear_pae_page pdpt s5)));
            s7 = pae_set_entry (pae_slot pd 1) (ucast identity_second OR PAE_PRESENT OR PAE_WRITABLE)
                   (pae_set_entry (pae_slot pd 0) (ucast identity OR PAE_PRESENT OR PAE_WRITABLE)
                      (pae_set_entry (pae_slot pdpt 0) (ucast pd OR PAE_PRESENT) s6));
            s8 = fold (\<lambda>i. pae_set_entry (pae_slot identity (of_nat i))
                          (ucast (of_nat i * PAGE_SIZE) OR PAE_PRESENT OR PAE_WRITABLE OR nx_bit))
                   [1 ..< PAE_TABLE_ENTRIES] s7;
            s9 = fold (\<lambda>i. pae_set_entry (pae_slot identity_second (of_nat i))
                          (ucast ((512 + of_nat i) * PAGE_SIZE) OR PAE_PRESENT OR PAE_WRITABLE OR nx_bit))
                   [0 ..< PAE_TABLE_ENTRIES] s8;
            s10 = s9\<lparr>pae_address_space_count := 0, kernel_page_directory := 0\<rparr>
        in case (if font_available info then map_framebuffer [0 ..< VBE_FRAMEBUFFER_PAGES] s10 else (None, s10)) of (failed, s11) \<Rightarrow>
           if failed \<noteq> None then (False, s11)
           else (True, enable_paging (protect_kernel_read_only img s11)))"

text \<open>The two-level tables: the identity map of the low 4 MiB but its first page, the framebuffer, then the
  kernel's read-only pages. A failed framebuffer mapping is rolled back in the order of the source.\<close>

definition legacy_init :: "kernel_image \<Rightarrow> boot_info option \<Rightarrow> paging \<Rightarrow> bool \<times> paging" where
  "legacy_init img info s =
     (case alloc_low s of (directory, s1) \<Rightarrow> case alloc_low (s1\<lparr>page_directory_physical := directory\<rparr>) of (identity, s2) \<Rightarrow>
      if directory = 0 \<or> identity = 0
      then (False, (free_if identity (free_if directory s2))\<lparr>page_directory_physical := 0\<rparr>)
      else
        let s3 = s2\<lparr>page_directory := directory, kernel_page_directory := directory,
                    kernel_page_directory_physical := directory, address_space_count := 0\<rparr>;
            s4 = clear_page identity (clear_page directory s3);
            s5 = fold (\<lambda>i. set_entry identity (of_nat i) ((of_nat i * PAGE_SIZE) OR PAGE_PRESENT OR PAGE_FLAG_WRITABLE))
                   [1 ..< PAGE_TABLE_ENTRIES] s4;
            s6 = set_entry directory 0 (identity OR PAGE_PRESENT OR PAGE_FLAG_WRITABLE) s5
        in case (if font_available info then map_framebuffer [0 ..< VBE_FRAMEBUFFER_PAGES] s6 else (None, s6)) of (failed, s7) \<Rightarrow>
           case failed of
             Some index \<Rightarrow>
               let s8 = fold (\<lambda>i u. snd (paging_unmap_page (framebuffer_page i) u)) (rev [0 ..< index]) s7
               in (False, (free_frame directory (free_frame identity s8))\<lparr>page_directory := 0, page_directory_physical := 0\<rparr>)
           | None \<Rightarrow> (True, enable_paging (protect_kernel_read_only img s7)))"

definition paging_init :: "cpu_features \<Rightarrow> kernel_image \<Rightarrow> boot_info option \<Rightarrow> paging \<Rightarrow> bool \<times> paging" where
  "paging_init features img info s =
     (let s0 = s\<lparr>paging_pae_enabled := False, paging_pae_nx_enabled := False, pae_pdpt := 0, pae_kernel_pdpt := 0,
                 pae_pdpt_physical := 0, pae_kernel_pdpt_physical := 0, pae_address_space_count := 0\<rparr>
      in if pae features
         then pae_init img info (s0\<lparr>paging_pae_enabled := True, paging_pae_nx_enabled := nx features\<rparr>)
         else legacy_init img info s0)"

end
