(* ===== verification/PagingMap.thy ===== *)
theory PagingMap
  imports Paging
begin

text \<open>
  What the two-level tables of \<open>memory/paging.c\<close> translate. \<open>lookup\<close> is the walk of the processor; \<open>tables_ok\<close>
  says that the directory and the tables it names are different kernel frames, that a user page lies in a
  user table and maps a claimed user frame no other page maps, and that no page is writable and executable.
  Every operation keeps \<open>tables_ok\<close>, and its effect on \<open>lookup\<close> is stated exactly.
\<close>

section \<open>Slots of tables\<close>

definition slot_ok :: "u32 \<Rightarrow> u32 \<Rightarrow> bool" where
  "slot_ok t i \<longleftrightarrow> page_aligned t \<and> unat i < 1024"

lemma slot_unat:
  assumes "slot_ok t i"
  shows "unat (t + 4 * i) = unat t + 4 * unat i"
proof -
  have i: "unat (4 * i) = 4 * unat i"
    using assms by (simp add: slot_ok_def unat_word_ariths)
  obtain q where q: "unat t = 4096 * q" using assms by (auto simp: slot_ok_def)
  have "unat t < 2 ^ 32" using unsigned_less [of t, where 'a = nat] by simp
  then have "4096 * q + 4096 \<le> 2 ^ 32" unfolding q by simp
  then show ?thesis using assms i by (subst unat_sum) (simp_all add: q slot_ok_def)
qed

lemma slot_frame: "slot_ok t i \<Longrightarrow> frame_of (t + 4 * i) = frame_of t"
  by (simp add: slot_unat) (auto simp: slot_ok_def)

lemma aligned_frame_eq: "page_aligned t \<Longrightarrow> page_aligned u \<Longrightarrow> frame_of t = frame_of u \<longleftrightarrow> t = u"
  by (auto simp: word_unat_eq_iff)

lemma slot_eq:
  assumes "slot_ok t i" "slot_ok u j"
  shows "t + 4 * i = u + 4 * j \<longleftrightarrow> t = u \<and> i = j"
proof
  assume eq: "t + 4 * i = u + 4 * j"
  then have "frame_of t = frame_of u" using slot_frame [OF assms(1)] slot_frame [OF assms(2)] by simp
  then have "t = u" using assms aligned_frame_eq by (auto simp: slot_ok_def)
  with eq slot_unat [OF assms(1)] slot_unat [OF assms(2)] show "t = u \<and> i = j"
    by (simp add: word_unat_eq_iff)
qed simp

lemma entry_set_entry:
  "slot_ok t i \<Longrightarrow> slot_ok u j \<Longrightarrow> entry_at (set_entry u j v s) t i = (if t = u \<and> i = j then v else entry_at s t i)"
  using slot_eq [of t i u j] by (simp add: entry_at_def set_entry_def)

lemma entry_other_fields [simp]:
  "entry_at (s\<lparr>frames := f\<rparr>) = entry_at s" "entry_at (free_frame a s) = entry_at s" "entry_at (release_frame a s) = entry_at s"
  by (simp_all add: fun_eq_iff entry_at_def free_frame_def release_frame_def)

lemma set_entry_fields [simp]:
  "frames (set_entry t i v s) = frames s" "page_directory (set_entry t i v s) = page_directory s"
  "kernel_page_directory (set_entry t i v s) = kernel_page_directory s"
  "paging_pae_enabled (set_entry t i v s) = paging_pae_enabled s"
  by (simp_all add: set_entry_def)

lemma small_index: "k < 1024 \<Longrightarrow> unat (of_nat k :: u32) = k"
  by (subst unat_of_nat) (simp add: take_bit_eq_mod)

lemma fold_set_fields [simp]:
  "frames (fold (\<lambda>i. set_entry t (of_nat i) (g i)) xs s) = frames s"
  "page_directory (fold (\<lambda>i. set_entry t (of_nat i) (g i)) xs s) = page_directory s"
  "kernel_page_directory (fold (\<lambda>i. set_entry t (of_nat i) (g i)) xs s) = kernel_page_directory s"
  "paging_pae_enabled (fold (\<lambda>i. set_entry t (of_nat i) (g i)) xs s) = paging_pae_enabled s"
  by (induction xs arbitrary: s) simp_all

lemma entry_fold_set:
  assumes "page_aligned u" "slot_ok t i" "n \<le> 1024"
  shows "entry_at (fold (\<lambda>k. set_entry u (of_nat k) (g k)) [m ..< n] s) t i =
    (if t = u \<and> m \<le> unat i \<and> unat i < n then g (unat i) else entry_at s t i)"
  using assms(3)
proof (induction n)
  case (Suc n)
  then have n: "slot_ok u (of_nat n)" using assms(1) by (simp add: slot_ok_def small_index)
  have "i = of_nat n \<longleftrightarrow> unat i = n" using Suc.prems by (auto simp: word_unat_eq_iff small_index)
  then show ?case using Suc n assms(2) by (auto simp: entry_set_entry less_Suc_eq)
qed simp

lemma clear_page_fields [simp]:
  "frames (clear_page t s) = frames s" "page_directory (clear_page t s) = page_directory s"
  "kernel_page_directory (clear_page t s) = kernel_page_directory s" "paging_pae_enabled (clear_page t s) = paging_pae_enabled s"
  by (simp_all add: clear_page_def)

lemma entry_clear_page:
  "page_aligned u \<Longrightarrow> slot_ok t i \<Longrightarrow> entry_at (clear_page u s) t i = (if t = u then 0 else entry_at s t i)"
  using entry_fold_set [of u t i 1024 "\<lambda>_. 0" 0 s] by (simp add: clear_page_def slot_ok_def)

section \<open>Entries\<close>

lemma flag_bits:
  fixes e :: u32
  shows "e AND 1 = 0 \<longleftrightarrow> \<not> bit e 0" "e AND 2 = 0 \<longleftrightarrow> \<not> bit e 1" "e AND 4 = 0 \<longleftrightarrow> \<not> bit e 2"
    "e AND 0x200 = 0 \<longleftrightarrow> \<not> bit e 9"
  using test_mask [of e 0] test_mask [of e 1] test_mask [of e 2] test_mask [of e 9] by simp_all

lemma bit_page_mask: "bit (0xFFFFF000 :: u32) n \<longleftrightarrow> 12 \<le> n \<and> n < 32"
proof -
  have "(0xFFFFF000 :: u32) = NOT (mask 12)" by (simp add: mask_eq_exp_minus_1)
  then show ?thesis by (simp only: bit_not_iff bit_mask_iff) auto
qed

lemma bit_allowed: "bit (0x216 :: u32) n \<longleftrightarrow> n \<in> {1, 2, 4, 9}"
proof -
  have "(0x216 :: u32) = 2 ^ 1 OR 2 ^ 2 OR 2 ^ 4 OR 2 ^ 9" by simp
  then show ?thesis by (simp only: bit_or_iff bit_exp_iff) auto
qed

lemma mask_bits: "bit (e AND 0xFFFFF000 :: u32) n \<longleftrightarrow> bit e n \<and> 12 \<le> n"
  by (simp only: bit_and_iff bit_page_mask) (auto dest: bit_imp_le_length)

lemma aligned_bits: "page_aligned a \<longleftrightarrow> (\<forall>n < 12. \<not> bit a n)"
proof -
  have "page_aligned a \<longleftrightarrow> take_bit 12 a = 0"
    by (simp only: page_offset_zero [symmetric] and_4095)
  also have "\<dots> \<longleftrightarrow> (\<forall>n < 12. \<not> bit a n)"
    by (auto simp: bit_eq_iff bit_take_bit_iff)
  finally show ?thesis .
qed

lemma mask_aligned [simp]: "page_aligned (e AND 0xFFFFF000)"
  by (simp only: aligned_bits mask_bits) simp

text \<open>The parts of an entry built from a frame and flags.\<close>

lemma entry_frame:
  assumes "page_aligned a" "\<And>n. bit f n \<Longrightarrow> n < 12"
  shows "(a OR f) AND 0xFFFFF000 = a"
  using assms(1)[unfolded aligned_bits] assms(2)
  by (intro bit_word_eqI) (auto simp: mask_bits bit_or_iff not_less dest: leD)

definition leaf :: "u32 \<Rightarrow> u32 \<Rightarrow> u32" where
  "leaf a f = a OR PAGE_PRESENT OR (f AND PAGE_ALLOWED_FLAGS)"

lemma one_bit: "bit (1 :: u32) n \<longleftrightarrow> n = 0"
  by (simp add: bit_1_iff)

lemma leaf_parts:
  assumes "page_aligned a"
  shows "leaf a f AND 0xFFFFF000 = a" "bit (leaf a f) 0"
    "n \<in> {1, 2, 4, 9} \<Longrightarrow> bit (leaf a f) n \<longleftrightarrow> bit f n"
proof -
  have "bit (1 OR (f AND 0x216)) n \<Longrightarrow> n < 12" for n
    by (simp only: bit_or_iff bit_and_iff bit_allowed one_bit) auto
  then show "leaf a f AND 0xFFFFF000 = a" unfolding leaf_def or.assoc by (rule entry_frame [OF assms])
  show "bit (leaf a f) 0" by (simp add: leaf_def bit_or_iff)
  show "n \<in> {1, 2, 4, 9} \<Longrightarrow> bit (leaf a f) n \<longleftrightarrow> bit f n"
    using assms by (simp only: leaf_def bit_or_iff bit_and_iff bit_allowed one_bit aligned_bits) auto
qed

section \<open>Indices\<close>

lemma index_bounds: "unat (pde_index va) < 1024" "unat (pte_index va) < 1024"
proof -
  have "unat va < 2 ^ 32" using unsigned_less [of va, where 'a = nat] by simp
  then show "unat (pde_index va) < 1024" 
    by (simp only: pde_index_def unat_drop_bit_eq) (simp add: drop_bit_eq_div)
  have "pte_index va = take_bit 10 (drop_bit 12 va)"
    by (simp add: pte_index_def take_bit_eq_mask mask_eq_exp_minus_1)
  then have "unat (pte_index va) = unat (drop_bit 12 va) mod 1024"
    by (simp add: take_bit_eq_mod unat_mod_distrib)
  then show "unat (pte_index va) < 1024" by simp
qed

abbreviation page_of :: "u32 \<Rightarrow> u32" where "page_of va \<equiv> va AND 0xFFFFF000"

lemma same_page: "pde_index va = pde_index vb \<and> pte_index va = pte_index vb \<longleftrightarrow> page_of va = page_of vb"
proof -
  have p: "pte_index v = take_bit 10 (drop_bit 12 v)" for v :: u32
    by (simp add: pte_index_def take_bit_eq_mask mask_eq_exp_minus_1)
  have pte: "bit (pte_index v) n \<longleftrightarrow> n < 10 \<and> bit v (12 + n)" for v n
    by (simp only: p bit_take_bit_iff bit_drop_bit_eq comp_apply)
  have pde: "bit (pde_index v) n \<longleftrightarrow> bit v (22 + n)" for v n
    by (simp add: pde_index_def bit_drop_bit_eq)
  show ?thesis
  proof
    assume eq: "pde_index va = pde_index vb \<and> pte_index va = pte_index vb"
    have "bit va n = bit vb n" if "12 \<le> n" for n
    proof (cases "n < 22")
      case True
      then have "n - 12 < 10" using that by simp
      then show ?thesis using that arg_cong [OF conjunct2 [OF eq], of "\<lambda>w. bit w (n - 12)"] by (simp add: pte)
    next
      case False
      then show ?thesis using arg_cong [OF conjunct1 [OF eq], of "\<lambda>w. bit w (n - 22)"] by (simp add: pde)
    qed
    then show "page_of va = page_of vb" by (intro bit_word_eqI) (auto simp: mask_bits)
  next
    assume "page_of va = page_of vb"
    then have "bit va n = bit vb n" if "12 \<le> n" for n
      using that mask_bits [of va n] mask_bits [of vb n] by simp
    then show "pde_index va = pde_index vb \<and> pte_index va = pte_index vb"
      by (auto simp: bit_eq_iff pde pte)
  qed
qed

section \<open>Frames\<close>

definition kernel_frames :: "pmm \<Rightarrow> nat set" where
  "kernel_frames f = in_use_set f - user_set f"

lemma pool_parts:
  "pool f = pool g \<Longrightarrow> managed_set f = managed_set g \<and> free_set f = free_set g \<and> user_set f = user_set g \<and>
     mapped_set f = mapped_set g \<and> kernel_frames f = kernel_frames g"
proof -
  assume eq: "pool f = pool g"
  have "in_use_set h = managed_set h - free_set h" for h
    by (auto simp: in_use_set_def free_set_def)
  with eq show ?thesis by (simp add: pool_def kernel_frames_def)
qed

lemma in_use_minus: "in_use_set f = managed_set f - free_set f"
  by (auto simp: in_use_set_def free_set_def)

lemma alloc_low_facts:
  assumes "pmm_inv (frames s)" "alloc_low s = (t, s1)"
  shows "pmm_inv (frames s1) \<and> s1 = s\<lparr>frames := frames s1\<rparr> \<and> user_set (frames s1) = user_set (frames s) \<and>
    mapped_set (frames s1) = mapped_set (frames s) \<and> managed_set (frames s1) = managed_set (frames s) \<and>
    (t = 0 \<longrightarrow> kernel_frames (frames s1) = kernel_frames (frames s)) \<and>
    (t \<noteq> 0 \<longrightarrow> page_aligned t \<and> frame_of t \<notin> in_use_set (frames s) \<and>
       kernel_frames (frames s1) = insert (frame_of t) (kernel_frames (frames s)))"
proof -
  from assms(2) have r: "pmm_alloc_block_below LOW_IDENTITY_LIMIT (frames s) = (t, frames s1)" and s1: "s1 = s\<lparr>frames := frames s1\<rparr>"
    by (auto simp: alloc_low_def split: prod.splits)
  from alloc_below_refines [OF assms(1) r]
  have ex: "pool_exec (Alloc_below LOW_IDENTITY_LIMIT) (pool (frames s)) = (t, pool (frames s1))" and inv: "pmm_inv (frames s1)"
    by auto
  show ?thesis
  proof (cases "lowest_free PMM_LOW_BLOCKS (frame_of LOW_IDENTITY_LIMIT) (pool (frames s))")
    case None
    with ex have "t = 0" "pool (frames s1) = pool (frames s)" by auto
    with pool_parts [of "frames s1" "frames s"] inv s1 show ?thesis by simp
  next
    case (Some b)
    then have b: "b \<in> free_set (frames s)" "PMM_LOW_BLOCKS \<le> b" using lowest_free_range by blast+
    then have small: "b < PMM_MAX_BLOCKS" using managed_below by (auto simp: free_set_def)
    have t: "t = of_nat (b * 4096)" and p: "pool (frames s1) = (pool (frames s))\<lparr>pool_free := free_set (frames s) - {b}\<rparr>"
      using ex Some by auto
    have ut: "unat t = b * 4096" unfolding t by (rule block_address [OF small])
    have sets: "managed_set (frames s1) = managed_set (frames s)" "free_set (frames s1) = free_set (frames s) - {b}"
      "user_set (frames s1) = user_set (frames s)" "mapped_set (frames s1) = mapped_set (frames s)"
      using p by (simp_all add: pool_def)
    have "b \<notin> in_use_set (frames s)" using b(1) by (simp add: in_use_minus)
    moreover have "b \<notin> user_set (frames s)" using calculation by (auto simp: user_set_def)
    moreover have "b \<in> managed_set (frames s)" using b(1) by (simp add: free_set_def)
    moreover have "t \<noteq> 0" using ut b(2) by (auto simp: word_unat_eq_iff)
    ultimately show ?thesis
      using s1 inv sets ut by (auto simp: kernel_frames_def in_use_minus)
  qed
qed

lemma claim_frame_facts:
  assumes "pmm_inv (frames s)" "claim_frame a s = (ok, s1)"
  shows "pmm_inv (frames s1) \<and> s1 = s\<lparr>frames := frames s1\<rparr> \<and> kernel_frames (frames s1) = kernel_frames (frames s) \<and>
    (if ok then page_aligned a \<and> frame_of a \<in> user_set (frames s) - mapped_set (frames s) \<and>
       mapped_set (frames s1) = insert (frame_of a) (mapped_set (frames s))
     else mapped_set (frames s1) = mapped_set (frames s))"
proof -
  from assms(2) have r: "pmm_claim_user_block a (frames s) = (ok, frames s1)" and s1: "s1 = s\<lparr>frames := frames s1\<rparr>"
    by (auto simp: claim_frame_def split: prod.splits)
  from claim_refines [OF assms(1) r]
  have "pool_exec (Claim a) (pool (frames s)) = (of_bool ok, pool (frames s1))" and inv: "pmm_inv (frames s1)" by auto
  with s1 show ?thesis
    by (auto simp: pool_def kernel_frames_def in_use_minus split: if_splits)
qed

lemma release_frame_facts:
  assumes "pmm_inv (frames s)" "page_aligned a"
  shows "pmm_inv (frames (release_frame a s)) \<and> kernel_frames (frames (release_frame a s)) = kernel_frames (frames s) \<and>
    mapped_set (frames (release_frame a s)) = mapped_set (frames s) - {frame_of a}"
  using release_refines [OF assms(1), of a] assms(2)
  by (auto simp: release_frame_def pool_def kernel_frames_def in_use_minus)

lemma free_frame_facts:
  assumes "pmm_inv (frames s)" "page_aligned a" "frame_of a \<in> kernel_frames (frames s)"
  shows "pmm_inv (frames (free_frame a s)) \<and> kernel_frames (frames s) - {frame_of a} \<subseteq> kernel_frames (frames (free_frame a s)) \<and>
    mapped_set (frames (free_frame a s)) = mapped_set (frames s)"
  using free_refines [OF assms(1), of a] assms(2,3)
  by (auto simp: free_frame_def pool_def kernel_frames_def in_use_minus split: if_splits)

section \<open>The translation\<close>

definition pde :: "paging \<Rightarrow> u32 \<Rightarrow> u32" where
  "pde s k = entry_at s (page_directory s) k"

definition table_at :: "paging \<Rightarrow> u32 \<Rightarrow> u32" where
  "table_at s k = pde s k AND 0xFFFFF000"

text \<open>The walk: the leaf entry of a virtual address, when both levels are present.\<close>

definition lookup :: "paging \<Rightarrow> u32 \<Rightarrow> u32 option" where
  "lookup s va =
     (let e = entry_at s (table_at s (pde_index va)) (pte_index va) in
      if bit (pde s (pde_index va)) 0 \<and> bit e 0 then Some e else None)"

definition user_table :: "paging \<Rightarrow> u32 \<Rightarrow> bool" where
  "user_table s va = bit (pde s (pde_index va)) 2"

definition struct_ok :: "paging \<Rightarrow> bool" where
  "struct_ok s \<longleftrightarrow> \<not> paging_pae_enabled s \<and> pmm_inv (frames s) \<and> page_directory s \<noteq> 0 \<and> page_aligned (page_directory s) \<and>
     frame_of (page_directory s) \<in> kernel_frames (frames s) \<and>
     (\<forall>k. unat k < 1024 \<and> bit (pde s k) 0 \<longrightarrow> table_at s k \<noteq> 0 \<and> table_at s k \<noteq> page_directory s \<and>
        frame_of (table_at s k) \<in> kernel_frames (frames s) \<and>
        (\<forall>j. unat j < 1024 \<and> bit (pde s j) 0 \<and> table_at s j = table_at s k \<longrightarrow> j = k))"

definition pages_ok :: "paging \<Rightarrow> bool" where
  "pages_ok s \<longleftrightarrow>
     (\<forall>va e. lookup s va = Some e \<longrightarrow> \<not> (bit e 1 \<and> bit e 9) \<and>
        (bit e 2 \<longrightarrow> user_table s va \<and> frame_of e \<in> mapped_set (frames s))) \<and>
     (\<forall>va vb e d. lookup s va = Some e \<and> lookup s vb = Some d \<and> bit e 2 \<and> bit d 2 \<and> frame_of e = frame_of d \<longrightarrow>
        page_of va = page_of vb)"

definition tables_ok :: "paging \<Rightarrow> bool" where
  "tables_ok s \<longleftrightarrow> struct_ok s \<and> pages_ok s"

lemma pages_okD:
  assumes "pages_ok s" "lookup s va = Some e"
  shows "\<not> (bit e 1 \<and> bit e 9)" "bit e 2 \<Longrightarrow> user_table s va" "bit e 2 \<Longrightarrow> frame_of e \<in> mapped_set (frames s)"
    "bit e 2 \<Longrightarrow> lookup s vb = Some d \<Longrightarrow> bit d 2 \<Longrightarrow> frame_of e = frame_of d \<Longrightarrow> page_of va = page_of vb"
  using assms unfolding pages_ok_def by blast+

lemma struct_parts:
  assumes "struct_ok s"
  shows "\<not> paging_pae_enabled s" "pmm_inv (frames s)" "page_directory s \<noteq> 0" "page_aligned (page_directory s)"
    "frame_of (page_directory s) \<in> kernel_frames (frames s)"
    "unat k < 1024 \<Longrightarrow> bit (pde s k) 0 \<Longrightarrow> table_at s k \<noteq> 0"
    "unat k < 1024 \<Longrightarrow> bit (pde s k) 0 \<Longrightarrow> table_at s k \<noteq> page_directory s"
    "unat k < 1024 \<Longrightarrow> bit (pde s k) 0 \<Longrightarrow> frame_of (table_at s k) \<in> kernel_frames (frames s)"
    "unat k < 1024 \<Longrightarrow> bit (pde s k) 0 \<Longrightarrow> unat j < 1024 \<Longrightarrow> bit (pde s j) 0 \<Longrightarrow> table_at s j = table_at s k \<Longrightarrow> j = k"
  using assms unfolding struct_ok_def by blast+

lemma table_slot [simp]: "unat i < 1024 \<Longrightarrow> slot_ok (table_at s k) i"
  by (simp add: slot_ok_def table_at_def)

lemma directory_slot: "struct_ok s \<Longrightarrow> unat i < 1024 \<Longrightarrow> slot_ok (page_directory s) i"
  by (simp add: slot_ok_def struct_parts)

lemma frame_of_mask [simp]: "frame_of (e AND 0xFFFFF000) = frame_of e"
proof -
  have "drop_bit 12 (e AND 0xFFFFF000) = drop_bit 12 e"
    by (rule bit_word_eqI) (simp only: bit_drop_bit_eq comp_apply mask_bits, simp)
  then have "unat (drop_bit 12 (e AND 0xFFFFF000)) = unat (drop_bit 12 e)" by (rule arg_cong)
  then show ?thesis by (simp only: unat_drop_bit_eq) (simp add: drop_bit_eq_div)
qed

lemma get_table:
  "struct_ok s \<Longrightarrow> get_page_table s va = (if bit (pde s (pde_index va)) 0 then table_at s (pde_index va) else 0)"
  by (simp add: get_page_table_def struct_parts Let_def flag_bits pde_def table_at_def)

lemma is_mapped_lookup: "struct_ok s \<Longrightarrow> paging_is_mapped s va \<longleftrightarrow> lookup s va \<noteq> None"
  using struct_parts(6) [of s "pde_index va"]
  by (simp add: paging_is_mapped_def struct_parts get_table Let_def flag_bits lookup_def index_bounds)

lemma get_physical_lookup:
  "struct_ok s \<Longrightarrow> paging_get_physical s va = (case lookup s va of None \<Rightarrow> 0 | Some e \<Rightarrow> (e AND PAGE_ADDRESS_MASK) OR (va AND 4095))"
  using struct_parts(6) [of s "pde_index va"]
  by (simp add: paging_get_physical_def struct_parts get_table Let_def flag_bits lookup_def index_bounds)

text \<open>Only the frames the tables are in matter to the structure.\<close>

lemma struct_frames:
  assumes "struct_ok s" "pmm_inv f"
    "frame_of (page_directory s) \<in> kernel_frames f"
    "\<And>k. unat k < 1024 \<Longrightarrow> bit (pde s k) 0 \<Longrightarrow> frame_of (table_at s k) \<in> kernel_frames f"
  shows "struct_ok (s\<lparr>frames := f\<rparr>)"
proof -
  have "pde (s\<lparr>frames := f\<rparr>) = pde s" "table_at (s\<lparr>frames := f\<rparr>) = table_at s"
    by (simp_all add: fun_eq_iff pde_def table_at_def)
  with assms show ?thesis unfolding struct_ok_def by auto
qed

lemma lookup_frames [simp]: "lookup (s\<lparr>frames := f\<rparr>) = lookup s" "user_table (s\<lparr>frames := f\<rparr>) = user_table s"
  by (simp_all add: fun_eq_iff lookup_def user_table_def pde_def table_at_def)

text \<open>Writing a leaf entry.\<close>

lemma write_leaf:
  assumes ok: "struct_ok s" and p: "bit (pde s (pde_index va)) 0"
    and s': "s' = set_entry (table_at s (pde_index va)) (pte_index va) v s"
  shows "struct_ok s'" "user_table s' = user_table s"
    "lookup s' vb = (if page_of vb = page_of va then if bit v 0 then Some v else None else lookup s vb)"
    "unat k < 1024 \<Longrightarrow> pde s' k = pde s k"
proof -
  have pde: "pde s' k = pde s k" if "unat k < 1024" for k
    using entry_set_entry [OF directory_slot [OF ok that] table_slot [OF index_bounds(2)], of s "pde_index va" va v]
      struct_parts(7) [OF ok index_bounds(1) p]
    by (auto simp: pde_def s')
  then have table: "table_at s' k = table_at s k" if "unat k < 1024" for k using that by (simp add: table_at_def)
  show "unat k < 1024 \<Longrightarrow> pde s' k = pde s k" by (rule pde)
  show "struct_ok s'" using ok unfolding struct_ok_def using pde table by (auto simp: s')
  show "user_table s' = user_table s" by (simp add: fun_eq_iff user_table_def pde index_bounds)
  have entry: "entry_at s' (table_at s k) i = (if table_at s k = table_at s (pde_index va) \<and> i = pte_index va then v
      else entry_at s (table_at s k) i)" if "unat k < 1024" "unat i < 1024" for k i
    unfolding s' using that by (intro entry_set_entry) (auto simp: index_bounds)
  show "lookup s' vb = (if page_of vb = page_of va then if bit v 0 then Some v else None else lookup s vb)"
  proof (cases "bit (pde s (pde_index vb)) 0")
    case True
    have "table_at s (pde_index vb) = table_at s (pde_index va) \<longleftrightarrow> pde_index vb = pde_index va"
      using struct_parts(9) [OF ok index_bounds(1) p index_bounds(1) True] by auto
    with True show ?thesis
      by (auto simp: lookup_def pde table index_bounds entry Let_def same_page [symmetric])
  next
    case False
    then have "pde_index vb \<noteq> pde_index va" using p by auto
    then have "page_of vb \<noteq> page_of va" using same_page by blast
    with False show ?thesis by (simp add: lookup_def pde index_bounds)
  qed
qed

text \<open>Writing a directory entry.\<close>

lemma write_pde:
  assumes ok: "struct_ok s" and k: "unat k < 1024"
  shows "unat j < 1024 \<Longrightarrow> pde (set_entry (page_directory s) k v s) j = (if j = k then v else pde s j)"
    "slot_ok t i \<Longrightarrow> t \<noteq> page_directory s \<Longrightarrow> entry_at (set_entry (page_directory s) k v s) t i = entry_at s t i"
  using entry_set_entry directory_slot [OF ok] k by (simp_all add: pde_def)

lemma user_bit_kept: "(e OR 4 :: u32) AND 0xFFFFF000 = e AND 0xFFFFF000" "bit (e OR 4 :: u32) 0 = bit e 0"
  "bit (e OR 4 :: u32) 2"
proof -
  have four: "bit (4 :: u32) n \<longleftrightarrow> n = 2" for n
  proof -
    have "(4 :: u32) = 2 ^ 2" by simp
    then show ?thesis by (simp only: bit_exp_iff) auto
  qed
  show "(e OR 4) AND 0xFFFFF000 = e AND 0xFFFFF000"
    by (rule bit_word_eqI) (simp only: mask_bits bit_or_iff four, auto)
  show "bit (e OR 4) 0 = bit e 0" "bit (e OR 4) 2" by (simp_all only: bit_or_iff four) auto
qed

lemma mark_user:
  assumes ok: "struct_ok s" and k: "unat k < 1024" and p: "bit (pde s k) 0"
    and s': "s' = set_entry (page_directory s) k (pde s k OR 4) s"
  shows "struct_ok s'" "lookup s' = lookup s" "user_table s' vb \<longleftrightarrow> user_table s vb \<or> pde_index vb = k"
proof -
  have pde: "pde s' j = (if j = k then pde s k OR 4 else pde s j)" if "unat j < 1024" for j
    using write_pde(1) [OF ok k that] by (simp add: s')
  then have table: "table_at s' j = table_at s j" and live: "bit (pde s' j) 0 = bit (pde s j) 0" if "unat j < 1024" for j
    using that by (auto simp: table_at_def user_bit_kept)
  show "struct_ok s'" using ok unfolding struct_ok_def using live table by (auto simp: s')
  show "user_table s' vb \<longleftrightarrow> user_table s vb \<or> pde_index vb = k"
    by (auto simp: user_table_def pde index_bounds user_bit_kept bit_or_iff)
  have "lookup s' vb = lookup s vb" for vb
  proof (cases "bit (pde s (pde_index vb)) 0")
    case True
    have "entry_at s' (table_at s (pde_index vb)) (pte_index vb) = entry_at s (table_at s (pde_index vb)) (pte_index vb)"
      unfolding s' using struct_parts(7) [OF ok index_bounds(1) True]
      by (intro write_pde(2) [OF ok k]) (auto simp: index_bounds)
    then show ?thesis by (simp add: lookup_def table live index_bounds Let_def)
  qed (simp add: lookup_def live index_bounds)
  then show "lookup s' = lookup s" by (simp add: fun_eq_iff)
qed

lemma install_table:
  assumes ok: "struct_ok s" and k: "unat k < 1024" and p: "\<not> bit (pde s k) 0"
    and alloc: "alloc_low s = (t, s1)" and t: "t \<noteq> 0" and fl: "\<And>n. bit fl n \<Longrightarrow> n < 12" "bit fl 0"
    and s': "s' = set_entry (page_directory s1) k (t OR fl) (clear_page t s1)"
  shows "struct_ok s'" "lookup s' = lookup s" "pde s' k = t OR fl" "table_at s' k = t"
    "user_table s' vb \<longleftrightarrow> (if pde_index vb = k then bit fl 2 else user_table s vb)"
    "mapped_set (frames s') = mapped_set (frames s)"
proof -
  from alloc_low_facts [OF struct_parts(2) [OF ok] alloc] t
  have inv: "pmm_inv (frames s1)" and s1: "s1 = s\<lparr>frames := frames s1\<rparr>" and al: "page_aligned t"
    and fresh: "frame_of t \<notin> in_use_set (frames s)" and kf: "kernel_frames (frames s1) = insert (frame_of t) (kernel_frames (frames s))"
    and mapped: "mapped_set (frames s1) = mapped_set (frames s)"
    by auto
  have dir: "page_directory s1 = page_directory s" "entry_at s1 = entry_at s" "paging_pae_enabled s1 = paging_pae_enabled s"
    by (subst s1, simp)+
  have unlike: "t \<noteq> u" if "frame_of u \<in> kernel_frames (frames s)" for u
    using that fresh by (auto simp: kernel_frames_def)
  note d = unlike [OF struct_parts(5) [OF ok]]
  have sd: "slot_ok (page_directory s) j" if "unat j < 1024" for j by (rule directory_slot [OF ok that])
  have pde: "pde s' j = (if j = k then t OR fl else pde s j)" if "unat j < 1024" for j
    using d sd [OF that] sd [OF k] al
    by (simp add: pde_def s' dir entry_set_entry entry_clear_page)
  have tab: "(t OR fl) AND 0xFFFFF000 = t" by (rule entry_frame [OF al fl(1)])
  then have table: "table_at s' j = (if j = k then t else table_at s j)" if "unat j < 1024" for j
    using pde [OF that] by (simp add: table_at_def)
  have live: "bit (pde s' j) 0 \<longleftrightarrow> j = k \<or> bit (pde s j) 0" if "unat j < 1024" for j
    using pde [OF that] fl(2) p by (auto simp: bit_or_iff)
  have frs: "kernel_frames (frames s') = insert (frame_of t) (kernel_frames (frames s))" by (simp add: s' kf)
  have "frame_of (table_at s' j) \<in> kernel_frames (frames s') \<and> table_at s' j \<noteq> 0 \<and> table_at s' j \<noteq> page_directory s \<and>
      (\<forall>i. unat i < 1024 \<and> bit (pde s' i) 0 \<and> table_at s' i = table_at s' j \<longrightarrow> i = j)"
    if j: "unat j < 1024" "bit (pde s' j) 0" for j
  proof -
    have old: "table_at s i \<noteq> t" if "unat i < 1024" "bit (pde s i) 0" for i
      using unlike [OF struct_parts(8) [OF ok that]] by auto
    have "i = j" if i: "unat i < 1024" "bit (pde s' i) 0" "table_at s' i = table_at s' j" for i
    proof (cases "i = k \<or> j = k")
      case True
      then show ?thesis using i j old [of i] old [of j] by (auto simp: table live split: if_splits)
    next
      case False
      with i j have "bit (pde s i) 0" "bit (pde s j) 0" "table_at s i = table_at s j" by (auto simp: live table)
      then show ?thesis using struct_parts(9) [OF ok j(1) _ i(1)] by blast
    qed
    moreover have "frame_of (table_at s' j) \<in> kernel_frames (frames s')" "table_at s' j \<noteq> 0" "table_at s' j \<noteq> page_directory s"
      using j d t struct_parts(6-8) [OF ok j(1)] by (cases "j = k"; simp add: live table frs)+
    ultimately show ?thesis by blast
  qed
  moreover have "page_directory s' = page_directory s" "paging_pae_enabled s' = paging_pae_enabled s" "pmm_inv (frames s')"
    using dir inv by (simp_all add: s')
  ultimately show "struct_ok s'"
    using struct_parts(1-5) [OF ok] unfolding struct_ok_def by (simp add: frs)
  show "pde s' k = t OR fl" "table_at s' k = t" using pde [OF k] table [OF k] by simp_all
  show "user_table s' vb \<longleftrightarrow> (if pde_index vb = k then bit fl 2 else user_table s vb)"
    using al by (auto simp: user_table_def pde index_bounds bit_or_iff aligned_bits)
  show "mapped_set (frames s') = mapped_set (frames s)" by (simp add: s' mapped)
  have "lookup s' vb = lookup s vb" for vb
  proof (cases "pde_index vb = k")
    case True
    have "entry_at s' t (pte_index vb) = 0"
      using al d sd [OF k] index_bounds(2) [of vb]
      by (simp add: s' dir entry_set_entry entry_clear_page slot_ok_def)
    with True p show ?thesis by (simp add: lookup_def table k Let_def)
  next
    case False
    show ?thesis
    proof (cases "bit (pde s (pde_index vb)) 0")
      case p: True
      have "t \<noteq> table_at s (pde_index vb)" by (rule unlike [OF struct_parts(8) [OF ok index_bounds(1) p]])
      then have "entry_at s' (table_at s (pde_index vb)) (pte_index vb) = entry_at s (table_at s (pde_index vb)) (pte_index vb)"
        using struct_parts(7) [OF ok index_bounds(1) p] al sd [OF k] index_bounds(2) [of vb]
        by (simp add: s' dir entry_set_entry entry_clear_page)
      with False show ?thesis by (simp add: lookup_def table live index_bounds Let_def)
    qed (use False in \<open>simp add: lookup_def live index_bounds\<close>)
  qed
  then show "lookup s' = lookup s" by (simp add: fun_eq_iff)
qed

text \<open>Removing the entry of an empty table and freeing its frame.\<close>

lemma table_emptyD: "table_is_empty s t \<Longrightarrow> unat i < 1024 \<Longrightarrow> \<not> bit (entry_at s t i) 0"
  unfolding table_is_empty_def list_all_iff flag_bits by (drule bspec [of _ _ "unat i"]) simp_all

lemma remove_table:
  assumes ok: "struct_ok s" and k: "unat k < 1024" and p: "bit (pde s k) 0" and empty: "table_is_empty s (table_at s k)"
    and s': "s' = free_frame (table_at s k) (set_entry (page_directory s) k 0 s)"
  shows "struct_ok s'" "lookup s' = lookup s" "user_table s' vb \<longleftrightarrow> pde_index vb \<noteq> k \<and> user_table s vb"
    "mapped_set (frames s') = mapped_set (frames s)"
proof -
  let ?t = "table_at s k" and ?u = "set_entry (page_directory s) k 0 s"
  have al: "page_aligned ?t" by (simp add: table_at_def)
  have "frame_of ?t \<in> kernel_frames (frames ?u)" using struct_parts(8) [OF ok k p] by simp
  from free_frame_facts [OF _ al this] struct_parts(2) [OF ok]
  have inv: "pmm_inv (frames s')" and kf: "kernel_frames (frames s) - {frame_of ?t} \<subseteq> kernel_frames (frames s')"
    and mapped: "mapped_set (frames s') = mapped_set (frames s)" by (simp_all add: s')
  have fields: "page_directory s' = page_directory s" "paging_pae_enabled s' = paging_pae_enabled s" "entry_at s' = entry_at ?u"
    by (simp_all add: s') (simp_all add: free_frame_def)
  have pde: "pde s' j = (if j = k then 0 else pde s j)" if "unat j < 1024" for j
    using write_pde(1) [OF ok k that, of 0] by (simp add: pde_def fields)
  have table: "table_at s' j = table_at s j" if "unat j < 1024" "j \<noteq> k" for j
    using that by (simp add: table_at_def pde)
  have live: "bit (pde s' j) 0 \<longleftrightarrow> j \<noteq> k \<and> bit (pde s j) 0" if "unat j < 1024" for j using pde [OF that] by simp
  have keeps: "u \<in> kernel_frames (frames s')" if "u \<in> kernel_frames (frames s)" "u \<noteq> frame_of ?t" for u
    using that kf by auto
  have "page_directory s \<noteq> ?t" using struct_parts(7) [OF ok k p] by simp
  then have d: "frame_of (page_directory s) \<in> kernel_frames (frames s')"
    using keeps struct_parts(4,5) [OF ok] aligned_frame_eq [OF _ al] by blast
  have other: "frame_of (table_at s j) \<in> kernel_frames (frames s')" if "unat j < 1024" "bit (pde s j) 0" "j \<noteq> k" for j
  proof -
    have "table_at s j \<noteq> ?t" using struct_parts(9) [OF ok k p that(1,2)] that(3) by auto
    moreover have "page_aligned (table_at s j)" by (simp add: table_at_def)
    ultimately show ?thesis using keeps [OF struct_parts(8) [OF ok that(1,2)]] aligned_frame_eq [OF _ al] by blast
  qed
  have "table_at s' j \<noteq> 0 \<and> table_at s' j \<noteq> page_directory s \<and> frame_of (table_at s' j) \<in> kernel_frames (frames s') \<and>
      (\<forall>i. unat i < 1024 \<and> bit (pde s' i) 0 \<and> table_at s' i = table_at s' j \<longrightarrow> i = j)"
    if j: "unat j < 1024" "bit (pde s' j) 0" for j
  proof -
    have "j \<noteq> k" "bit (pde s j) 0" using j by (simp_all add: live)
    then show ?thesis using j struct_parts(6,7,9) [OF ok j(1)] other [OF j(1)]
      by (simp add: table) (metis live table)
  qed
  then show "struct_ok s'"
    using struct_parts(1,3,4) [OF ok] inv d unfolding struct_ok_def by (simp add: fields)
  show "user_table s' vb \<longleftrightarrow> pde_index vb \<noteq> k \<and> user_table s vb" by (simp add: user_table_def pde index_bounds)
  show "mapped_set (frames s') = mapped_set (frames s)" by (rule mapped)
  have "lookup s' vb = lookup s vb" for vb
  proof (cases "pde_index vb = k")
    case True
    have "\<not> bit (entry_at s ?t (pte_index vb)) 0"
      using empty table_emptyD index_bounds(2) by blast
    with True show ?thesis by (simp add: lookup_def live k Let_def)
  next
    case False
    show ?thesis
    proof (cases "bit (pde s (pde_index vb)) 0")
      case p: True
      have "entry_at s' (table_at s (pde_index vb)) (pte_index vb) = entry_at s (table_at s (pde_index vb)) (pte_index vb)"
        using struct_parts(7) [OF ok index_bounds(1) p] index_bounds(2) [of vb]
        by (simp add: fields write_pde(2) [OF ok k])
      with False show ?thesis by (simp add: lookup_def table live index_bounds Let_def)
    qed (use False in \<open>simp add: lookup_def live index_bounds\<close>)
  qed
  then show "lookup s' = lookup s" by (simp add: fun_eq_iff)
qed

section \<open>Mapping a page\<close>

text \<open>Making sure a table exists changes no translation.\<close>

lemma pages_ok_grow:
  "pages_ok s \<Longrightarrow> lookup s' = lookup s \<Longrightarrow> mapped_set (frames s') = mapped_set (frames s) \<Longrightarrow>
   (\<And>vb. user_table s vb \<Longrightarrow> user_table s' vb \<or> lookup s vb = None) \<Longrightarrow> pages_ok s'"
  unfolding pages_ok_def by (metis option.distinct(1))

lemma directory_flags: "bit (PAGE_PRESENT OR PAGE_FLAG_WRITABLE OR (fl AND PAGE_FLAG_USER)) n \<longleftrightarrow> n = 0 \<or> n = 1 \<or> (n = 2 \<and> bit fl 2)"
proof -
  have "bit (2 ^ 1 :: u32) n \<longleftrightarrow> n = 1" "bit (2 ^ 2 :: u32) n \<longleftrightarrow> n = 2" for n
    by (simp_all only: bit_exp_iff) auto
  then have "bit (2 :: u32) n \<longleftrightarrow> n = 1" "bit (4 :: u32) n \<longleftrightarrow> n = 2" for n
    by (simp_all only: power_one_right) simp
  then show ?thesis by (simp only: bit_or_iff bit_and_iff one_bit) auto
qed

lemma ensure_facts:
  assumes ok: "struct_ok s" and e: "ensure_page_table va fl s = (t, s1)"
  shows "struct_ok s1 \<and> lookup s1 = lookup s \<and> mapped_set (frames s1) = mapped_set (frames s) \<and>
    (\<forall>vb. user_table s vb \<longrightarrow> user_table s1 vb \<or> lookup s vb = None) \<and>
    (t \<noteq> 0 \<longrightarrow> bit (pde s1 (pde_index va)) 0 \<and> t = table_at s1 (pde_index va) \<and> (bit fl 2 \<longrightarrow> user_table s1 va))"
proof (cases "bit (pde s (pde_index va)) 0")
  case p: True
  show ?thesis
  proof (cases "bit fl 2 \<and> t \<noteq> 0")
    case True
    then have t: "t = table_at s (pde_index va)" and s1: "s1 = set_entry (page_directory s) (pde_index va) (pde s (pde_index va) OR 4) s"
      using e p by (auto simp: ensure_page_table_def Let_def table_at_def pde_def flag_bits split: if_splits)
    note mu = mark_user [OF ok index_bounds(1) p s1]
    have "pde s1 (pde_index va) = pde s (pde_index va) OR 4"
      using write_pde(1) [OF ok index_bounds(1) index_bounds(1)] by (simp add: s1)
    with mu p t show ?thesis by (simp add: s1 table_at_def user_bit_kept)
  next
    case False
    then have "s1 = s \<and> (t \<noteq> 0 \<longrightarrow> \<not> bit fl 2 \<and> t = table_at s (pde_index va))"
      using e p struct_parts(6) [OF ok index_bounds(1) p]
      by (auto simp: ensure_page_table_def Let_def table_at_def pde_def flag_bits split: if_splits)
    with ok p show ?thesis by simp
  qed
next
  case p: False
  obtain t' s' where al: "alloc_low s = (t', s')" by fastforce
  note facts = alloc_low_facts [OF struct_parts(2) [OF ok] al]
  show ?thesis
  proof (cases "t' = 0")
    case True
    then have r: "t = 0" "s1 = s'" using e p al by (auto simp: ensure_page_table_def Let_def flag_bits pde_def)
    have "struct_ok (s\<lparr>frames := frames s'\<rparr>)"
      using facts True struct_parts(5,8) [OF ok] by (intro struct_frames [OF ok]) auto
    with r facts show ?thesis by (metis lookup_frames)
  next
    case False
    define f where "f = PAGE_PRESENT OR PAGE_FLAG_WRITABLE OR (fl AND PAGE_FLAG_USER)"
    have f: "bit f n \<Longrightarrow> n < 12" "bit f 0" "bit f 2 \<longleftrightarrow> bit fl 2" for n
      unfolding f_def directory_flags by auto
    have r: "t = t'" "s1 = set_entry (page_directory s') (pde_index va) (t' OR f) (clear_page t' s')"
      using e p al False by (auto simp: ensure_page_table_def Let_def flag_bits pde_def f_def or.assoc)
    note it = install_table [OF ok index_bounds(1) p al False f(1,2) r(2)]
    have "lookup s vb = None" if "pde_index vb = pde_index va" for vb using p that by (simp add: lookup_def)
    with it r(1) f show ?thesis by (auto simp: bit_or_iff user_table_def)
  qed
qed

lemma wx_bits: "fl AND (PAGE_FLAG_WRITABLE OR PAGE_FLAG_EXECUTABLE) = (PAGE_FLAG_WRITABLE OR PAGE_FLAG_EXECUTABLE) \<longleftrightarrow>
   bit fl 1 \<and> bit fl 9"
proof -
  define m :: u32 where "m = PAGE_FLAG_WRITABLE OR PAGE_FLAG_EXECUTABLE"
  have "m = 2 ^ 1 OR 2 ^ 9" by (simp add: m_def)
  then have m: "bit m n \<longleftrightarrow> n = 1 \<or> n = 9" for n by (simp only: bit_or_iff bit_exp_iff) auto
  have "fl AND m = m \<longleftrightarrow> (\<forall>n. bit m n \<longrightarrow> bit fl n)"
    using bit_imp_le_length [of m] by (auto simp: bit_eq_iff bit_and_iff)
  also have "\<dots> \<longleftrightarrow> bit fl 1 \<and> bit fl 9" by (auto simp: m)
  finally show ?thesis unfolding m_def .
qed

lemma aligned_page: "va AND (PAGE_SIZE - 1) = 0 \<longleftrightarrow> page_of va = va"
proof -
  have "va AND (PAGE_SIZE - 1) = 0 \<longleftrightarrow> page_aligned va" using page_offset_zero [of va] by simp
  also have "\<dots> \<longleftrightarrow> page_of va = va"
    using bit_imp_le_length [of va] by (fastforce simp: aligned_bits bit_eq_iff mask_bits not_less)
  finally show ?thesis .
qed

text \<open>A new leaf keeps the pages in order when its frame was claimed for it.\<close>

lemma pages_ok_leaf:
  assumes ok: "pages_ok s" and page: "page_of va = va" and pa: "page_aligned pa"
    and l: "\<And>vb. lookup s' vb = (if page_of vb = va then Some (leaf pa fl) else lookup s vb)"
    and wx: "\<not> (bit fl 1 \<and> bit fl 9)" and ut: "user_table s' = user_table s"
    and user: "bit fl 2 \<Longrightarrow> user_table s va \<and> frame_of pa \<notin> mapped_set (frames s) \<and>
      mapped_set (frames s') = insert (frame_of pa) (mapped_set (frames s))"
    and kernel: "\<not> bit fl 2 \<Longrightarrow> mapped_set (frames s') = mapped_set (frames s)"
  shows "pages_ok s'"
proof -
  have fr: "frame_of (leaf pa fl) = frame_of pa" using frame_of_mask [of "leaf pa fl"] leaf_parts(1) [OF pa] by simp
  have bits: "bit (leaf pa fl) (Suc 0) = bit fl (Suc 0)" "bit (leaf pa fl) 2 = bit fl 2" "bit (leaf pa fl) 9 = bit fl 9"
    by (rule leaf_parts(3) [OF pa], simp)+
  have ut': "user_table s vb = user_table s va" if "page_of vb = va" for vb
    using that page same_page [of vb va] by (simp add: user_table_def)
  have old: "\<not> (bit e 1 \<and> bit e 9)" "bit e 2 \<Longrightarrow> user_table s vb \<and> frame_of e \<in> mapped_set (frames s)"
    if "lookup s vb = Some e" for vb e using ok that by (auto simp: pages_ok_def)
  have "\<not> (bit e 1 \<and> bit e 9) \<and> (bit e 2 \<longrightarrow> user_table s' vb \<and> frame_of e \<in> mapped_set (frames s'))"
    if e: "lookup s' vb = Some e" for vb e
  proof (cases "page_of vb = va")
    case True
    with e l wx user ut ut' [OF True] show ?thesis by (auto simp: fr bits)
  next
    case False
    with e l have "lookup s vb = Some e" by simp
    with old [OF this] user kernel ut show ?thesis by (cases "bit fl 2") auto
  qed
  moreover have "page_of vb = page_of vc"
    if e: "lookup s' vb = Some e" "lookup s' vc = Some d" "bit e 2" "bit d 2" "frame_of e = frame_of d" for vb vc e d
  proof (cases "page_of vb = va \<or> page_of vc = va")
    case True
    with e l old(2) [of vb e] old(2) [of vc d] user show ?thesis by (auto simp: fr bits split: if_splits)
  next
    case False
    with e l ok show ?thesis unfolding pages_ok_def by auto
  qed
  ultimately show ?thesis unfolding pages_ok_def by blast
qed

lemma map_page_facts:
  assumes ok: "tables_ok s" and r: "paging_map_page va pa fl s = (b, s')"
  shows "tables_ok s' \<and>
    (if b then page_of va = va \<and> lookup s va = None \<and> page_aligned pa \<and>
       (\<forall>vb. lookup s' vb = (if page_of vb = va then Some (leaf pa fl) else lookup s vb))
     else lookup s' = lookup s)"
proof -
  have st: "struct_ok s" and pg: "pages_ok s" using ok by (simp_all add: tables_ok_def)
  obtain t s1 where e: "ensure_page_table va fl s = (t, s1)" by fastforce
  note ef = ensure_facts [OF st e]
  have pg1: "pages_ok s1" using ef by (intro pages_ok_grow [OF pg]) auto
  obtain c s2 where c: "(if has fl PAGE_FLAG_USER then claim_frame pa s1 else (True, s1)) = (c, s2)" by fastforce
  consider (same) "\<not> b" "s' = s" | (table) "\<not> b" "s' = s1"
    | (claim) "t \<noteq> 0" "\<not> bit (entry_at s1 t (pte_index va)) 0" "b = c" "s' = (if c then set_entry t (pte_index va) (leaf pa fl) s2 else s2)"
      "page_of va = va" "page_of pa = pa" "\<not> (bit fl 1 \<and> bit fl 9)"
    using r e c struct_parts(1) [OF st]
    unfolding paging_map_page_def wx_bits aligned_page leaf_def
    by (auto simp: flag_bits split: if_splits)
  then show ?thesis
  proof cases
    case same with ok show ?thesis by simp
  next
    case table with ef pg1 show ?thesis by (simp add: tables_ok_def)
  next
    case claim
    have st1: "struct_ok s1" and p: "bit (pde s1 (pde_index va)) 0" and t: "t = table_at s1 (pde_index va)"
      and ut: "bit fl 2 \<Longrightarrow> user_table s1 va" using ef claim(1) by auto
    have al: "page_aligned pa" using mask_aligned [of pa] claim(6) by simp
    have none: "lookup s1 va = None" using claim(2) by (simp add: lookup_def t Let_def)
    have cf: "pmm_inv (frames s2) \<and> s2 = s1\<lparr>frames := frames s2\<rparr> \<and> kernel_frames (frames s2) = kernel_frames (frames s1) \<and>
      (c \<and> bit fl 2 \<longrightarrow> frame_of pa \<notin> mapped_set (frames s1) \<and> mapped_set (frames s2) = insert (frame_of pa) (mapped_set (frames s1))) \<and>
      (\<not> (c \<and> bit fl 2) \<longrightarrow> mapped_set (frames s2) = mapped_set (frames s1))"
      using c claim_frame_facts [OF struct_parts(2) [OF st1], of pa] struct_parts(2) [OF st1]
      by (auto simp: flag_bits split: if_splits)
    define f where "f = frames s2"
    have s2: "s2 = s1\<lparr>frames := f\<rparr>" using cf by (simp add: f_def)
    have st2: "struct_ok s2" unfolding s2 using cf struct_parts(5,8) [OF st1] by (intro struct_frames [OF st1]) (auto simp: f_def)
    have same: "lookup s2 = lookup s1" "user_table s2 = user_table s1" "pde s2 = pde s1" "table_at s2 = table_at s1"
      unfolding s2 by (simp_all add: fun_eq_iff pde_def table_at_def)
    show ?thesis
    proof (cases c)
      case True
      have s': "s' = set_entry (table_at s2 (pde_index va)) (pte_index va) (leaf pa fl) s2" using claim True t same by simp
      note wl = write_leaf [OF st2 _ s']
      have l: "lookup s' vb = (if page_of vb = va then Some (leaf pa fl) else lookup s1 vb)" for vb
        using wl(3) p same claim(5) leaf_parts(2) [OF al] by simp
      have fr: "frames s' = frames s2" by (simp add: s')
      have "pages_ok s'"
        using wl(2) p same cf ut True by (intro pages_ok_leaf [OF pg1 claim(5) al l claim(7)]) (auto simp: fr)
      with wl(1) p same l claim none ef True al show ?thesis by (simp add: tables_ok_def)
    next
      case False
      with claim have "s' = s2" by simp
      moreover have "pages_ok s2" using cf False same by (intro pages_ok_grow [OF pg1]) auto
      ultimately show ?thesis using st2 same ef claim(3) False by (simp add: tables_ok_def)
    qed
  qed
qed

text \<open>When a mapping is accepted.\<close>

definition low_frame_free :: "pmm \<Rightarrow> bool" where
  "low_frame_free f \<longleftrightarrow> (\<exists>b \<in> free_set f. PMM_LOW_BLOCKS \<le> b \<and> b < 1024)"

definition map_allowed :: "paging \<Rightarrow> u32 \<Rightarrow> u32 \<Rightarrow> u32 \<Rightarrow> bool" where
  "map_allowed s va pa fl \<longleftrightarrow> PAGE_SIZE \<le> va \<and> PAGE_SIZE \<le> pa \<and> page_of va = va \<and> page_of pa = pa \<and>
     fl AND NOT PAGE_ALLOWED_FLAGS = 0 \<and> \<not> (bit fl 1 \<and> bit fl 9) \<and> \<not> uses_shared_kernel_table s va \<and>
     (bit fl 2 \<longrightarrow> page_directory s \<noteq> kernel_page_directory s \<and> USER_MAPPING_MIN \<le> va \<and> va < USER_ADDRESS_LIMIT \<and>
        frame_of pa \<in> user_set (frames s) - mapped_set (frames s) \<and>
        (bit (pde s (pde_index va)) 0 \<longrightarrow> page_table_allows_user_mappings s (table_at s (pde_index va))))"

lemma alloc_low_zero:
  assumes "pmm_inv (frames s)" "alloc_low s = (t, s1)"
  shows "t = 0 \<longleftrightarrow> \<not> low_frame_free (frames s)"
proof -
  from assms(2) have r: "pmm_alloc_block_below LOW_IDENTITY_LIMIT (frames s) = (t, frames s1)"
    by (auto simp: alloc_low_def split: prod.splits)
  from alloc_below_refines [OF assms(1) r]
  have ex: "pool_exec (Alloc_below LOW_IDENTITY_LIMIT) (pool (frames s)) = (t, pool (frames s1))" by blast
  show ?thesis
  proof (cases "lowest_free PMM_LOW_BLOCKS 1024 (pool (frames s))")
    case None
    then have "{b \<in> free_set (frames s). PMM_LOW_BLOCKS \<le> b \<and> b < 1024} = {}"
      by (simp add: lowest_free_def Let_def split: if_splits)
    then show ?thesis using ex None by (auto simp: low_frame_free_def)
  next
    case (Some b)
    then have b: "b \<in> free_set (frames s)" "PMM_LOW_BLOCKS \<le> b" "b < 1024" using lowest_free_range by blast+
    then have "unat t = b * 4096" using ex Some by (auto simp: block_address simp del: of_nat_mult)
    then have "t \<noteq> 0" using b(2) by (auto simp: word_unat_eq_iff)
    with b show ?thesis by (auto simp: low_frame_free_def)
  qed
qed

lemma claim_exact:
  "pmm_inv (frames s) \<Longrightarrow> claim_frame a s = (ok, s1) \<Longrightarrow>
   ok \<longleftrightarrow> page_aligned a \<and> frame_of a \<in> user_set (frames s) - mapped_set (frames s)"
  using claim_refines [of "frames s" a] by (auto simp: claim_frame_def pool_def split: prod.splits if_splits)

lemma ensure_exact:
  assumes ok: "struct_ok s" and e: "ensure_page_table va fl s = (t, s1)" and u: "\<not> uses_shared_kernel_table s va"
  shows "t = 0 \<longleftrightarrow> (if bit (pde s (pde_index va)) 0 then bit fl 2 \<and> \<not> page_table_allows_user_mappings s (table_at s (pde_index va))
      else \<not> low_frame_free (frames s))" "user_set (frames s1) = user_set (frames s)"
proof -
  obtain t' s' where al: "alloc_low s = (t', s')" by fastforce
  note facts = alloc_low_facts [OF struct_parts(2) [OF ok] al] alloc_low_zero [OF struct_parts(2) [OF ok] al]
  show "t = 0 \<longleftrightarrow> (if bit (pde s (pde_index va)) 0 then bit fl 2 \<and> \<not> page_table_allows_user_mappings s (table_at s (pde_index va))
      else \<not> low_frame_free (frames s))" "user_set (frames s1) = user_set (frames s)"
    using e u al facts struct_parts(6) [OF ok index_bounds(1), of va]
    unfolding ensure_page_table_def Let_def flag_bits
    by (auto simp: flag_bits pde_def table_at_def split: if_splits)
qed

lemma map_page_success:
  assumes ok: "tables_ok s" and r: "paging_map_page va pa fl s = (b, s')"
  shows "b \<longleftrightarrow> map_allowed s va pa fl \<and> lookup s va = None \<and> (bit (pde s (pde_index va)) 0 \<or> low_frame_free (frames s))"
proof -
  have st: "struct_ok s" using ok by (simp add: tables_ok_def)
  obtain t s1 where e: "ensure_page_table va fl s = (t, s1)" by fastforce
  note ef = ensure_facts [OF st e]
  obtain c s2 where c: "(if has fl PAGE_FLAG_USER then claim_frame pa s1 else (True, s1)) = (c, s2)" by fastforce
  have inv1: "pmm_inv (frames s1)" using ef struct_parts(2) by blast
  have al: "page_of pa = pa \<Longrightarrow> page_aligned pa" using mask_aligned [of pa] by simp
  have owned: "pmm_block_is_user_owned pa (frames s) \<longleftrightarrow> page_aligned pa \<and> frame_of pa \<in> user_set (frames s)"
    by (rule user_owned_iff [OF struct_parts(2) [OF st]])
  have cok: "c \<longleftrightarrow> (bit fl 2 \<longrightarrow> page_aligned pa \<and> frame_of pa \<in> user_set (frames s1) - mapped_set (frames s1))"
    using c claim_exact [OF inv1, of pa c s2] by (auto simp: flag_bits split: if_splits)
  have entry: "t \<noteq> 0 \<Longrightarrow> bit (entry_at s1 t (pte_index va)) 0 \<longleftrightarrow> lookup s va \<noteq> None"
  proof -
    assume "t \<noteq> 0"
    then have "bit (pde s1 (pde_index va)) 0" "t = table_at s1 (pde_index va)" using ef by simp_all
    then have "lookup s1 va = (if bit (entry_at s1 t (pte_index va)) 0 then Some (entry_at s1 t (pte_index va)) else None)"
      by (simp add: lookup_def Let_def)
    then show "bit (entry_at s1 t (pte_index va)) 0 \<longleftrightarrow> lookup s va \<noteq> None" using ef by (simp split: if_splits)
  qed
  show ?thesis
  proof (cases "uses_shared_kernel_table s va")
    case True
    then show ?thesis using r struct_parts(1) [OF st] by (simp add: paging_map_page_def map_allowed_def)
  next
    case False
    note ex = ensure_exact [OF st e False]
    have b: "b \<longleftrightarrow> PAGE_SIZE \<le> va \<and> PAGE_SIZE \<le> pa \<and> page_of va = va \<and> page_of pa = pa \<and>
       fl AND NOT PAGE_ALLOWED_FLAGS = 0 \<and> \<not> (bit fl 1 \<and> bit fl 9) \<and>
       (bit fl 2 \<longrightarrow> pmm_block_is_user_owned pa (frames s) \<and> page_directory s \<noteq> kernel_page_directory s \<and>
          USER_MAPPING_MIN \<le> va \<and> va < USER_ADDRESS_LIMIT) \<and>
       t \<noteq> 0 \<and> \<not> bit (entry_at s1 t (pte_index va)) 0 \<and> c"
      using r e c False struct_parts(1,3) [OF st] unfolding paging_map_page_def wx_bits aligned_page
      by (auto simp: flag_bits not_less split: if_splits)
    have "t \<noteq> 0 \<and> \<not> bit (entry_at s1 t (pte_index va)) 0 \<and> c \<longleftrightarrow> t \<noteq> 0 \<and> lookup s va = None \<and> c" using entry by blast
    then have b': "b \<longleftrightarrow> PAGE_SIZE \<le> va \<and> PAGE_SIZE \<le> pa \<and> page_of va = va \<and> page_of pa = pa \<and>
       fl AND NOT PAGE_ALLOWED_FLAGS = 0 \<and> \<not> (bit fl 1 \<and> bit fl 9) \<and>
       (bit fl 2 \<longrightarrow> pmm_block_is_user_owned pa (frames s) \<and> page_directory s \<noteq> kernel_page_directory s \<and>
          USER_MAPPING_MIN \<le> va \<and> va < USER_ADDRESS_LIMIT) \<and> t \<noteq> 0 \<and> lookup s va = None \<and> c"
      unfolding b by blast
    have m: "mapped_set (frames s1) = mapped_set (frames s)" using ef by blast
    show ?thesis
      unfolding b' owned map_allowed_def cok ex m using False al
      by (cases "bit fl 2"; cases "bit (pde s (pde_index va)) 0") (simp_all, blast+)
  qed
qed

section \<open>Unmapping and protecting a page\<close>

lemma pages_ok_remove:
  assumes ok: "pages_ok s" and e: "lookup s va = Some e" and page: "page_of va = va"
    and l: "\<And>vb. lookup s' vb = (if page_of vb = va then None else lookup s vb)"
    and ut: "\<And>vb. user_table s vb \<Longrightarrow> user_table s' vb \<or> lookup s' vb = None"
    and m: "mapped_set (frames s') = (if bit e 2 then mapped_set (frames s) - {frame_of e} else mapped_set (frames s))"
  shows "pages_ok s'"
proof -
  have "\<not> (bit d 1 \<and> bit d 9) \<and> (bit d 2 \<longrightarrow> user_table s' vb \<and> frame_of d \<in> mapped_set (frames s'))"
    if d: "lookup s' vb = Some d" for vb d
  proof -
    from d l have vb: "page_of vb \<noteq> page_of va" "lookup s vb = Some d" using page by (auto split: if_splits)
    then have "bit d 2 \<Longrightarrow> bit e 2 \<Longrightarrow> frame_of d \<noteq> frame_of e" using ok e unfolding pages_ok_def by blast
    with vb ok ut [of vb] d show ?thesis by (auto simp: pages_ok_def m)
  qed
  moreover have "page_of vb = page_of vc"
    if "lookup s' vb = Some d" "lookup s' vc = Some d'" "bit d 2" "bit d' 2" "frame_of d = frame_of d'" for vb vc d d'
    using that ok unfolding pages_ok_def by (auto simp: l split: if_splits)
  ultimately show ?thesis unfolding pages_ok_def by blast
qed

definition unmap_allowed :: "paging \<Rightarrow> u32 \<Rightarrow> bool" where
  "unmap_allowed s va \<longleftrightarrow> PAGE_SIZE \<le> va \<and> page_of va = va \<and>
     (page_directory s = kernel_page_directory s \<longrightarrow> USER_MAPPING_MIN \<le> va) \<and> \<not> uses_shared_kernel_table s va"

lemma unmap_page_facts:
  assumes ok: "tables_ok s" and r: "paging_unmap_page va s = (p, s')"
  shows "tables_ok s' \<and>
    (if unmap_allowed s va \<and> lookup s va \<noteq> None
     then \<exists>e. lookup s va = Some e \<and> p = page_of e \<and>
       mapped_set (frames s') = (if bit e 2 then mapped_set (frames s) - {frame_of e} else mapped_set (frames s)) \<and>
       (\<forall>vb. lookup s' vb = (if page_of vb = va then None else lookup s vb))
     else p = 0 \<and> s' = s)"
proof (cases "unmap_allowed s va \<and> lookup s va \<noteq> None")
  case True
  have st: "struct_ok s" and pg: "pages_ok s" using ok by (simp_all add: tables_ok_def)
  define t where "t = table_at s (pde_index va)"
  define e where "e = entry_at s t (pte_index va)"
  define s1 where "s1 = set_entry t (pte_index va) 0 s"
  define s2 where "s2 = (if bit e 2 then release_frame (page_of e) s1 else s1)"
  have page: "page_of va = va" and p: "bit (pde s (pde_index va)) 0" and live: "bit e 0" and pe: "p = page_of e"
    and s': "s' = (if table_is_empty s2 t then free_frame t (set_entry (page_directory s2) (pde_index va) 0 s2) else s2)"
    using r True struct_parts(1) [OF st] get_table [OF st, of va] struct_parts(6) [OF st index_bounds(1), of va]
    unfolding paging_unmap_page_def aligned_page s2_def s1_def e_def t_def unmap_allowed_def
    by (auto simp: Let_def flag_bits lookup_def split: if_splits)
  have l: "lookup s va = Some e" using p live by (simp add: lookup_def e_def t_def Let_def)
  note wl = write_leaf [OF st p s1_def [unfolded t_def]]
  have st2: "struct_ok s2 \<and> lookup s2 = lookup s1 \<and> user_table s2 = user_table s1 \<and>
      mapped_set (frames s2) = (if bit e 2 then mapped_set (frames s) - {frame_of e} else mapped_set (frames s))"
  proof (cases "bit e 2")
    case True
    have "pmm_inv (frames s1)" using struct_parts(2) [OF wl(1)] .
    from release_frame_facts [OF this mask_aligned [of e]] True wl(1)
    have "struct_ok (s1\<lparr>frames := frames s2\<rparr>)"
      using struct_parts(5,8) [OF wl(1)] by (intro struct_frames [OF wl(1)]) (auto simp: s2_def)
    moreover have s2': "s2 = s1\<lparr>frames := frames s2\<rparr>" using True by (simp add: s2_def release_frame_def)
    ultimately have "struct_ok s2" by simp
    moreover have "lookup s2 = lookup s1" "user_table s2 = user_table s1" by (subst s2', simp)+
    ultimately show ?thesis
      using release_frame_facts [OF \<open>pmm_inv (frames s1)\<close> mask_aligned [of e]] True by (simp add: s2_def s1_def)
  next
    case False
    with wl(1) show ?thesis by (simp add: s2_def) (simp add: s1_def)
  qed
  have l2: "lookup s2 vb = (if page_of vb = va then None else lookup s vb)" for vb
    using wl(3) [of vb] st2 page by simp
  have t2: "bit (pde s2 (pde_index va)) 0" "table_at s2 (pde_index va) = t"
    using p wl(4) [OF index_bounds(1)] by (simp_all add: s2_def pde_def table_at_def release_frame_def t_def)
  have pg2: "pages_ok s2" using st2 wl(2) by (intro pages_ok_remove [OF pg l page l2]) auto
  have "struct_ok s' \<and> pages_ok s' \<and> lookup s' = lookup s2 \<and> mapped_set (frames s') = mapped_set (frames s2)"
  proof (cases "table_is_empty s2 t")
    case True
    have s'': "s' = free_frame (table_at s2 (pde_index va)) (set_entry (page_directory s2) (pde_index va) 0 s2)"
      using True by (simp add: s' t2)
    note rt = remove_table [OF conjunct1 [OF st2] index_bounds(1) t2(1) True [folded t2(2)] s'']
    have "lookup s2 vb = None" if "pde_index vb = pde_index va" for vb
      using table_emptyD [OF True index_bounds(2)] t2 that by (simp add: lookup_def Let_def)
    then have "pages_ok s'" using rt by (intro pages_ok_grow [OF pg2]) auto
    with rt show ?thesis by blast
  qed (use st2 pg2 in \<open>simp add: s'\<close>)
  then show ?thesis using True l l2 pe st2 by (auto simp: tables_ok_def)
next
  case False
  have st: "struct_ok s" using ok by (simp add: tables_ok_def)
  have "p = 0 \<and> s' = s"
    using r False struct_parts(1) [OF st] get_table [OF st, of va]
    unfolding paging_unmap_page_def aligned_page unmap_allowed_def
    by (auto simp: Let_def flag_bits lookup_def not_less split: if_splits)
  with ok False show ?thesis by simp
qed

lemma pages_ok_relabel:
  assumes ok: "pages_ok s" and e: "lookup s va = Some e" and page: "page_of va = va"
    and l: "\<And>vb. lookup s' vb = (if page_of vb = va then Some d else lookup s vb)"
    and d: "bit d 2 = bit e 2" "frame_of d = frame_of e" "\<not> (bit d 1 \<and> bit d 9)"
    and ut: "\<And>vb. user_table s vb \<Longrightarrow> user_table s' vb" and m: "mapped_set (frames s') = mapped_set (frames s)"
  shows "pages_ok s'"
proof -
  have same: "lookup s vb = lookup s va" "user_table s vb = user_table s va" if "page_of vb = va" for vb
    using that page same_page [of vb va] by (simp_all add: lookup_def user_table_def)
  have old: "\<exists>c'. lookup s vb = Some c' \<and> bit c' 2 = bit c 2 \<and> frame_of c' = frame_of c" if "lookup s' vb = Some c" for vb c
    using that d e same [of vb] by (cases "page_of vb = va") (auto simp: l)
  have "\<not> (bit c 1 \<and> bit c 9)" if "lookup s' vb = Some c" for vb c
    using that d(3) ok unfolding pages_ok_def by (auto simp: l split: if_splits)
  moreover have "user_table s' vb \<and> frame_of c \<in> mapped_set (frames s')" if c: "lookup s' vb = Some c" "bit c 2" for vb c
  proof -
    obtain c' where c': "lookup s vb = Some c'" "bit c' 2" "frame_of c' = frame_of c" using old [OF c(1)] c(2) by auto
    then show ?thesis using pages_okD(2,3) [OF ok c'(1,2)] ut m by simp
  qed
  moreover have "page_of vb = page_of vc"
    if c: "lookup s' vb = Some c" "lookup s' vc = Some c'" "bit c 2" "bit c' 2" "frame_of c = frame_of c'" for vb vc c c'
  proof -
    obtain x y where x: "lookup s vb = Some x" "bit x 2" "frame_of x = frame_of c"
      and y: "lookup s vc = Some y" "bit y 2" "frame_of y = frame_of c'"
      using old [OF c(1)] old [OF c(2)] c(3,4) by auto
    with c(5) show ?thesis using pages_okD(4) [OF ok x(1,2) y(1,2)] by simp
  qed
  ultimately show ?thesis unfolding pages_ok_def by blast
qed

lemma protect_page_facts:
  assumes ok: "tables_ok s" and r: "paging_protect_page va fl s = (b, s')"
  shows "tables_ok s' \<and>
    (if b then page_of va = va \<and> (\<exists>e. lookup s va = Some e \<and> (bit e 2 \<longleftrightarrow> bit fl 2) \<and>
       (\<forall>vb. lookup s' vb = (if page_of vb = va then Some (leaf (page_of e) fl) else lookup s vb)))
     else s' = s)"
proof (cases b)
  case True
  have st: "struct_ok s" and pg: "pages_ok s" using ok by (simp_all add: tables_ok_def)
  define t where "t = table_at s (pde_index va)"
  define e where "e = entry_at s t (pte_index va)"
  define s1 where "s1 = set_entry t (pte_index va) (leaf (page_of e) fl) s"
  have fl: "fl AND NOT PAGE_ALLOWED_FLAGS = 0 \<Longrightarrow> fl AND PAGE_ALLOWED_FLAGS = fl"
    by (metis and.right_neutral bit.conj_disj_distrib bit.disj_cancel_right or.right_neutral)
  have user: "e AND PAGE_FLAG_USER = fl AND PAGE_FLAG_USER \<Longrightarrow> bit e 2 = bit fl 2"
    using flag_bits(3) [of e] flag_bits(3) [of fl] by auto
  have page: "page_of va = va" and p: "bit (pde s (pde_index va)) 0" and live: "bit e 0" and same: "bit e 2 = bit fl 2"
    and wx: "\<not> (bit fl 1 \<and> bit fl 9)"
    and s': "s' = (if bit fl 2 then set_entry (page_directory s1) (pde_index va) (pde s1 (pde_index va) OR 4) s1 else s1)"
    using r True struct_parts(1) [OF st] get_table [OF st, of va] fl user
    unfolding paging_protect_page_def aligned_page wx_bits s1_def e_def t_def leaf_def
    by (auto simp: Let_def flag_bits pde_def or.assoc split: if_splits)
  have l: "lookup s va = Some e" using p live by (simp add: lookup_def e_def t_def Let_def)
  note wl = write_leaf [OF st p s1_def [unfolded t_def]]
  note lp = leaf_parts [OF mask_aligned [of e], where f = fl]
  have l1: "lookup s1 vb = (if page_of vb = va then Some (leaf (page_of e) fl) else lookup s vb)" for vb
    using wl(3) [of vb] lp(2) page by simp
  have st': "struct_ok s' \<and> lookup s' = lookup s1 \<and> (\<forall>vb. user_table s vb \<longrightarrow> user_table s' vb) \<and>
      mapped_set (frames s') = mapped_set (frames s)"
  proof (cases "bit fl 2")
    case True
    then have s'': "s' = set_entry (page_directory s1) (pde_index va) (pde s1 (pde_index va) OR 4) s1" by (simp add: s')
    have "bit (pde s1 (pde_index va)) 0" using p wl(4) index_bounds(1) by simp
    from mark_user [OF wl(1) index_bounds(1) this s''] wl(2) show ?thesis by (simp add: s'' s1_def)
  next
    case False
    with wl show ?thesis by (simp add: s') (simp add: s1_def)
  qed
  have bits: "bit (leaf (page_of e) fl) 2 = bit e 2" "\<not> (bit (leaf (page_of e) fl) 1 \<and> bit (leaf (page_of e) fl) 9)"
    using lp(3) [where n = 1] lp(3) [where n = 2] lp(3) [where n = 9] same wx by auto
  have "frame_of (leaf (page_of e) fl) = frame_of e" using frame_of_mask [of "leaf (page_of e) fl"] lp(1) by simp
  with bits st' l1 have "pages_ok s'" by (intro pages_ok_relabel [OF pg l page, of s' "leaf (page_of e) fl"]) auto
  with st' l l1 page same True show ?thesis by (auto simp: tables_ok_def)
qed (use r ok in \<open>auto simp: paging_protect_page_def pae_protect_page_def Let_def split: if_splits\<close>)

section \<open>The operations\<close>

text \<open>C12: Mapping a page in the two-level tables: the call succeeds exactly when the request is allowed, the page is
  not mapped yet and a table for it exists or can be allocated. It then adds exactly the requested translation;
  every other translation, and all of them when it fails, is what it was. The tables stay well-formed.\<close>
theorem paging_map_exact:
  assumes "tables_ok s" and "paging_map_page va pa fl s = (ok, s')"
  shows "tables_ok s' \<and>
    (ok \<longleftrightarrow> map_allowed s va pa fl \<and> lookup s va = None \<and> (bit (pde s (pde_index va)) 0 \<or> low_frame_free (frames s))) \<and>
    (\<forall>vb. lookup s' vb = (if ok \<and> page_of vb = va then Some (leaf pa fl) else lookup s vb))"
  unfolding map_page_success [OF assms, symmetric]
  using map_page_facts [OF assms] by (cases ok) auto

text \<open>C13: Unmapping a page in the two-level tables: when the address is a mapped page outside the shared kernel tables, exactly
  its translation goes, its frame is returned, and the claim on the frame ends when it was a user page. Otherwise
  nothing changes and 0 is returned.\<close>
theorem paging_unmap_exact:
  assumes "tables_ok s" and "paging_unmap_page va s = (p, s')"
  shows "tables_ok s' \<and>
    (if unmap_allowed s va \<and> lookup s va \<noteq> None
     then \<exists>e. lookup s va = Some e \<and> p = page_of e \<and>
       mapped_set (frames s') = (if bit e 2 then mapped_set (frames s) - {frame_of e} else mapped_set (frames s)) \<and>
       (\<forall>vb. lookup s' vb = (if page_of vb = va then None else lookup s vb))
     else p = 0 \<and> s' = s)"
  by (rule unmap_page_facts [OF assms])

end
