(* ===== verification/UserMemory.thy ===== *)
theory UserMemory
  imports PagingMap
begin

text \<open>
  The copies between kernel and user memory of \<open>memory/paging.c\<close>, on the two-level tables: the range check
  accepts exactly the ranges a user program could access itself, a copy to user memory changes those bytes and
  nothing else, and reading them back gives the data.
\<close>

section \<open>The range check\<close>

definition user_access :: "paging \<Rightarrow> bool \<Rightarrow> u32 \<Rightarrow> bool" where
  "user_access s writable va = (case lookup s va of None \<Rightarrow> False | Some e \<Rightarrow> bit e 2 \<and> (writable \<longrightarrow> bit e 1))"

lemma five_bits: "e AND (PAGE_PRESENT OR PAGE_FLAG_USER) = (PAGE_PRESENT OR PAGE_FLAG_USER) \<longleftrightarrow> bit (e :: u32) 0 \<and> bit e 2"
proof -
  define m :: u32 where "m = PAGE_PRESENT OR PAGE_FLAG_USER"
  have "m = 2 ^ 0 OR 2 ^ 2" by (simp add: m_def)
  then have m: "bit m n \<longleftrightarrow> n = 0 \<or> n = 2" for n by (simp only: bit_or_iff bit_exp_iff) auto
  have "e AND m = m \<longleftrightarrow> (\<forall>n. bit m n \<longrightarrow> bit e n)"
    using bit_imp_le_length [of m] by (auto simp: bit_eq_iff bit_and_iff)
  also have "\<dots> \<longleftrightarrow> bit e 0 \<and> bit e 2" by (auto simp: m)
  finally show ?thesis unfolding m_def .
qed

lemma user_page_access:
  assumes "tables_ok s"
  shows "user_page s w va \<longleftrightarrow> user_access s w va"
proof -
  have st: "struct_ok s" and pg: "pages_ok s" using assms by (simp_all add: tables_ok_def)
  show ?thesis
  proof (cases "bit (pde s (pde_index va)) 0")
    case True
    define e where "e = entry_at s (table_at s (pde_index va)) (pte_index va)"
    have "lookup s va = (if bit e 0 then Some e else None)" using True by (simp add: lookup_def e_def Let_def)
    with pages_okD(2) [OF pg, of va e] struct_parts(6) [OF st index_bounds(1) True] True show ?thesis
      unfolding user_page_def five_bits
      by (auto simp: get_table [OF st] Let_def flag_bits user_access_def e_def pde_def user_table_def)
  next
    case False
    then show ?thesis by (simp add: user_page_def get_table [OF st] Let_def user_access_def lookup_def)
  qed
qed

lemma access_page: "page_of va = page_of vb \<Longrightarrow> user_access s w va = user_access s w vb"
  by (simp add: user_access_def lookup_def same_page [symmetric])

lemma unat_page_of: "unat (page_of va) = 4096 * frame_of va"
proof -
  have "page_aligned (page_of va)" by simp
  then obtain q where q: "unat (page_of va) = 4096 * q" by (elim dvdE)
  then show ?thesis using frame_of_mask [of va] by (simp del: frame_of_mask)
qed

lemma round_up_less:
  fixes b e j :: nat
  assumes "4096 dvd b"
  shows "j < (e - b + 4095) div 4096 \<longleftrightarrow> b + 4096 * j < e"
proof -
  have "j < (e - b + 4095) div 4096 \<longleftrightarrow> Suc j * 4096 \<le> e - b + 4095"
    using less_eq_div_iff_mult_less_eq [of 4096 "Suc j" "e - b + 4095"] by (simp add: Suc_le_eq)
  also have "\<dots> \<longleftrightarrow> b + 4096 * j < e" by auto
  finally show ?thesis .
qed

text \<open>The pages the check visits are the pages of the bytes of the range.\<close>

lemma pages_cover:
  assumes len: "0 < unat len" and fits: "unat va + unat len < 2 ^ 32"
  shows "set (pages_until va (va + len)) = page_of ` {va + of_nat i | i. i < unat len}"
proof -
  let ?b = "unat (page_of va)" and ?e = "unat va + unat len"
  have e: "unat (va + len) = ?e" using fits by (intro unat_sum) simp
  have b: "?b = 4096 * frame_of va" by (rule unat_page_of)
  have byte: "unat (va + of_nat i) = unat va + i" if "i < unat len" for i
  proof -
    have "unat (of_nat i :: u32) = i" using that fits by (subst unat_of_nat) (simp add: take_bit_eq_mod)
    then show ?thesis using that fits by (subst unat_sum) simp_all
  qed
  have page: "unat (page_of va + PAGE_SIZE * of_nat j) = ?b + 4096 * j" if "?b + 4096 * j < 2 ^ 32" for j
  proof -
    have j: "unat (of_nat j :: u32) = j" using that by (subst unat_of_nat) (simp add: take_bit_eq_mod)
    have "unat (PAGE_SIZE * of_nat j) = 4096 * j" using that by (simp add: unat_word_ariths j)
    then show ?thesis using that by (subst unat_sum) simp_all
  qed
  have in_range: "j < (?e - ?b + 4095) div 4096 \<longleftrightarrow> ?b + 4096 * j < ?e" for j :: nat
    by (rule round_up_less) (use b in simp)
  have bytes: "page_of (va + of_nat i) = page_of va + PAGE_SIZE * of_nat (frame_of (va + of_nat i) - frame_of va) \<and>
      frame_of (va + of_nat i) - frame_of va < (?e - ?b + 4095) div 4096" if i: "i < unat len" for i
  proof -
    have f: "frame_of va \<le> frame_of (va + of_nat i)" unfolding byte [OF i] by (intro div_le_mono) simp
    then have sum: "?b + 4096 * (frame_of (va + of_nat i) - frame_of va) = 4096 * frame_of (va + of_nat i)"
      unfolding b by (simp add: algebra_simps)
    have "4096 * frame_of (va + of_nat i) < ?e" using byte [OF i] i div_times_less_eq_dividend [of "unat (va + of_nat i)" 4096] by simp
    with sum in_range page fits show ?thesis by (simp add: word_unat_eq_iff unat_page_of [of "va + of_nat i"])
  qed
  have pages: "\<exists>i < unat len. page_of va + PAGE_SIZE * of_nat j = page_of (va + of_nat i)" if j: "j < (?e - ?b + 4095) div 4096" for j
  proof (cases j)
    case 0
    then show ?thesis using len by (intro exI [of _ 0]) simp
  next
    case (Suc k)
    define i where "i = ?b + 4096 * j - unat va"
    have "unat va < ?b + 4096" unfolding b using dividend_less_times_div [of 4096 "unat va"] by simp
    then have i: "unat va + i = ?b + 4096 * j" unfolding i_def Suc by simp
    have lt: "?b + 4096 * j < ?e" using j in_range by blast
    then have il: "i < unat len" using i by linarith
    have "unat (page_of (va + of_nat i)) = 4096 * ((?b + 4096 * j) div 4096)"
      unfolding unat_page_of byte [OF il] i ..
    also have "\<dots> = ?b + 4096 * j" unfolding b by simp
    also have "\<dots> = unat (page_of va + PAGE_SIZE * of_nat j)" using page [of j] lt fits by simp
    finally show ?thesis using il by (intro exI [of _ i]) (simp add: word_unat_eq_iff)
  qed
  have "set (pages_until va (va + len)) = (\<lambda>j. page_of va + PAGE_SIZE * of_nat j) ` {0 ..< (?e - ?b + 4095) div 4096}"
    by (simp only: pages_until_def Let_def e set_map set_upt)
  also have "\<dots> = page_of ` {va + of_nat i | i. i < unat len}"
    using bytes pages by (intro set_eqI iffI) (auto simp only: image_iff atLeastLessThan_iff mem_Collect_eq, blast+)
  finally show ?thesis .
qed

lemma user_room: "va < USER_ADDRESS_LIMIT \<Longrightarrow> unat (USER_ADDRESS_LIMIT - va) = 0xC0000000 - unat va"
  by (subst unat_diff) simp_all

lemma validate_exact:
  assumes ok: "tables_ok s"
  shows "paging_validate_user_range s va len w \<longleftrightarrow> len = 0 \<or>
    4096 \<le> unat va \<and> unat va + unat len \<le> 0xC0000000 \<and> (\<forall>i < unat len. user_access s w (va + of_nat i))"
proof (cases "len = 0 \<or> va < PAGE_SIZE \<or> va \<ge> USER_ADDRESS_LIMIT \<or> len > USER_ADDRESS_LIMIT - va")
  case True
  have st: "struct_ok s" using ok by (simp add: tables_ok_def)
  have "len > USER_ADDRESS_LIMIT - va \<and> va < USER_ADDRESS_LIMIT \<Longrightarrow> 0xC0000000 < unat va + unat len"
    using user_room [of va] by (auto simp: word_less_nat_alt)
  moreover have "len \<noteq> 0 \<Longrightarrow> 0 < unat len" by (simp add: unat_gt_0)
  ultimately show ?thesis using True struct_parts(1) [OF st]
    by (auto simp: paging_validate_user_range_def word_less_nat_alt word_le_nat_alt)
next
  case False
  have st: "struct_ok s" using ok by (simp add: tables_ok_def)
  have fits: "unat va + unat len \<le> 0xC0000000" "4096 \<le> unat va" "0 < unat len"
    using False user_room [of va] by (auto simp: word_less_nat_alt word_le_nat_alt unat_gt_0 not_less not_le)
  have "paging_validate_user_range s va len w \<longleftrightarrow> (\<forall>p \<in> set (pages_until va (va + len)). user_page s w p)"
    using False struct_parts(1,3) [OF st] unfolding paging_validate_user_range_def by (simp add: list_all_iff)
  also have "\<dots> \<longleftrightarrow> (\<forall>i < unat len. user_access s w (page_of (va + of_nat i)))"
    using pages_cover [of len va] fits by (auto simp: user_page_access [OF ok])
  also have "\<dots> \<longleftrightarrow> (\<forall>i < unat len. user_access s w (va + of_nat i))"
  proof -
    have "page_of (page_of v) = page_of v" for v by (simp add: and.assoc)
    then show ?thesis using access_page by blast
  qed
  finally show ?thesis using fits False by auto
qed

section \<open>Bytes of memory\<close>

lemma word_parts: "(a :: u32) AND 0xFFFFFFFC = c AND 0xFFFFFFFC \<and> a AND 3 = c AND 3 \<longleftrightarrow> a = c"
proof -
  have "(a AND NOT m) OR (a AND m) = a" for a m :: u32
    by (rule bit_word_eqI) (auto simp: bit_or_iff bit_and_iff bit_not_iff)
  moreover have "(0xFFFFFFFC :: u32) = NOT 3" by simp
  ultimately have "(a AND 0xFFFFFFFC) OR (a AND 3) = a" for a :: u32 by metis
  then show ?thesis by metis
qed

lemma byte_index: "unat ((a :: u32) AND 3) < 4"
proof -
  have "a AND 3 = take_bit 2 a" by (simp add: take_bit_eq_mask mask_eq_exp_minus_1)
  then have "unat (a AND 3) = unat a mod 4" by (simp add: take_bit_eq_mod unat_mod_distrib)
  then show ?thesis by simp
qed

lemma put_byte_bits:
  fixes w :: u32 and b :: u8
  assumes "k < 4"
  shows "bit ((w AND NOT (push_bit (8 * k) 0xFF)) OR push_bit (8 * k) (ucast b)) m \<longleftrightarrow>
    (if 8 * k \<le> m \<and> m < 8 * k + 8 then bit b (m - 8 * k) else bit w m)"
proof -
  have ff: "bit (0xFF :: u32) n \<longleftrightarrow> n < 8" for n
  proof -
    have "(0xFF :: u32) = mask 8" by (simp add: mask_eq_exp_minus_1)
    then show ?thesis by (simp only: bit_mask_iff) auto
  qed
  show ?thesis
    using assms bit_imp_le_length [of w m] bit_imp_le_length [of b "m - 8 * k"]
    by (simp only: bit_or_iff bit_and_iff bit_not_iff bit_push_bit_iff bit_ucast_iff ff) auto
qed

lemma phys_bits:
  "n < 8 \<Longrightarrow> bit (phys_byte s c) n \<longleftrightarrow> bit (words s (c AND 0xFFFFFFFC)) (8 * unat (c AND 3) + n)"
  by (simp only: phys_byte_def bit_ucast_iff bit_drop_bit_eq comp_apply) auto

lemma phys_set:
  "phys_byte (set_phys_byte a b s) c = (if c = a then b else phys_byte s c)"
proof (rule bit_word_eqI)
  fix n assume "n < LENGTH(8)"
  then have n: "n < 8" by simp
  define k where "k = unat (a AND 3)"
  define j where "j = unat (c AND 3)"
  have k4: "k < 4" unfolding k_def by (rule byte_index)
  have w: "words (set_phys_byte a b s) = (words s)(a AND 0xFFFFFFFC :=
      (words s (a AND 0xFFFFFFFC) AND NOT (push_bit (8 * k) 0xFF)) OR push_bit (8 * k) (ucast b))"
    by (simp add: set_phys_byte_def Let_def k_def)
  show "bit (phys_byte (set_phys_byte a b s) c) n = bit (if c = a then b else phys_byte s c) n"
  proof (cases "c AND 0xFFFFFFFC = a AND 0xFFFFFFFC")
    case True
    then have "c = a \<longleftrightarrow> j = k" using word_parts [of c a] by (auto simp: word_unat_eq_iff j_def k_def)
    moreover have "8 * k \<le> 8 * j + n \<and> 8 * j + n < 8 * k + 8 \<longleftrightarrow> j = k" using n by auto
    moreover have "bit (phys_byte s c) n \<longleftrightarrow> bit (words s (a AND 0xFFFFFFFC)) (8 * j + n)"
      using phys_bits [OF n, of s c] unfolding True j_def .
    moreover have "bit (phys_byte (set_phys_byte a b s) c) n \<longleftrightarrow>
        (if 8 * k \<le> 8 * j + n \<and> 8 * j + n < 8 * k + 8 then bit b (8 * j + n - 8 * k) else bit (words s (a AND 0xFFFFFFFC)) (8 * j + n))"
      unfolding phys_bits [OF n] w True fun_upd_same put_byte_bits [OF k4] j_def ..
    ultimately show ?thesis by (auto split: if_splits)
  next
    case False
    then have "c \<noteq> a" by auto
    with False show ?thesis by (simp add: phys_bits [OF n] w)
  qed
qed

lemma word_frame: "frame_of (a AND 0xFFFFFFFC) = frame_of a"
proof -
  have "(0xFFFFFFFC :: u32) = NOT (mask 2)" by (simp add: mask_eq_exp_minus_1)
  then have m: "bit (0xFFFFFFFC :: u32) n \<longleftrightarrow> 2 \<le> n \<and> n < 32" for n by (simp only: bit_not_iff bit_mask_iff) auto
  have "drop_bit 12 (a AND 0xFFFFFFFC) = drop_bit 12 a"
    by (rule bit_word_eqI) (simp only: bit_drop_bit_eq comp_apply bit_and_iff m, auto dest: bit_imp_le_length)
  then have "unat (drop_bit 12 (a AND 0xFFFFFFFC)) = unat (drop_bit 12 a)" by (rule arg_cong)
  then show ?thesis by (simp only: unat_drop_bit_eq) (simp add: drop_bit_eq_div)
qed

lemma set_phys_entry:
  assumes "slot_ok t i" "frame_of a \<noteq> frame_of t"
  shows "entry_at (set_phys_byte a b s) t i = entry_at s t i"
proof -
  have "t + 4 * i \<noteq> a AND 0xFFFFFFFC" using slot_frame [OF assms(1)] assms(2) word_frame [of a] by metis
  then show ?thesis by (simp add: entry_at_def set_phys_byte_def Let_def)
qed

lemma set_phys_fields [simp]:
  "frames (set_phys_byte a b s) = frames s" "page_directory (set_phys_byte a b s) = page_directory s"
  "paging_pae_enabled (set_phys_byte a b s) = paging_pae_enabled s"
  by (simp_all add: set_phys_byte_def Let_def)

text \<open>A byte outside the kernel's frames is no part of the tables.\<close>

lemma set_phys_tables:
  assumes ok: "tables_ok s" and a: "frame_of a \<notin> kernel_frames (frames s)" and s': "s' = set_phys_byte a b s"
  shows "tables_ok s'" "lookup s' = lookup s"
proof -
  have st: "struct_ok s" and pg: "pages_ok s" using ok by (simp_all add: tables_ok_def)
  have pde: "pde s' k = pde s k" if "unat k < 1024" for k
    using a struct_parts(5) [OF st] unfolding s' pde_def
    by (simp, intro set_phys_entry directory_slot [OF st that]) auto
  then have table: "table_at s' k = table_at s k" if "unat k < 1024" for k using that by (simp add: table_at_def)
  have st': "struct_ok s'" using st unfolding struct_ok_def using pde table by (auto simp: s')
  have "lookup s' vb = lookup s vb" for vb
  proof (cases "bit (pde s (pde_index vb)) 0")
    case True
    have "entry_at s' (table_at s (pde_index vb)) (pte_index vb) = entry_at s (table_at s (pde_index vb)) (pte_index vb)"
      using a struct_parts(8) [OF st index_bounds(1) True] unfolding s'
      by (intro set_phys_entry table_slot index_bounds) auto
    then show ?thesis by (simp add: lookup_def pde table index_bounds)
  qed (simp add: lookup_def pde index_bounds)
  then show l: "lookup s' = lookup s" by (simp add: fun_eq_iff)
  have "user_table s' = user_table s" by (simp add: fun_eq_iff user_table_def pde index_bounds)
  then have "pages_ok s'" using l by (intro pages_ok_grow [OF pg]) (simp_all add: s')
  with st' show "tables_ok s'" by (simp add: tables_ok_def)
qed

section \<open>Physical addresses of user bytes\<close>

lemma physical_bits: "bit (page_of e OR (va AND 4095)) n \<longleftrightarrow> (if n < 12 then bit va n else bit e n)"
proof -
  have "(4095 :: u32) = mask 12" by (simp add: mask_eq_exp_minus_1)
  then have "bit (4095 :: u32) n \<longleftrightarrow> n < 12" by (simp only: bit_mask_iff) auto
  then show ?thesis by (simp only: bit_or_iff bit_and_iff [of va 4095] mask_bits) auto
qed

lemma physical_frame: "frame_of (page_of e OR (va AND 4095)) = frame_of e"
proof -
  have "drop_bit 12 (page_of e OR (va AND 4095)) = drop_bit 12 e"
    by (rule bit_word_eqI) (simp only: bit_drop_bit_eq comp_apply physical_bits, simp)
  then have "unat (drop_bit 12 (page_of e OR (va AND 4095))) = unat (drop_bit 12 e)" by (rule arg_cong)
  then show ?thesis by (simp only: unat_drop_bit_eq) (simp add: drop_bit_eq_div)
qed

lemma physical_inj:
  assumes ok: "tables_ok s" and a: "user_access s w va" "user_access s w vb"
    and eq: "paging_get_physical s va = paging_get_physical s vb"
  shows "va = vb"
proof -
  have st: "struct_ok s" and pg: "pages_ok s" using ok by (simp_all add: tables_ok_def)
  obtain e d where e: "lookup s va = Some e" "bit e 2" and d: "lookup s vb = Some d" "bit d 2"
    using a by (auto simp: user_access_def split: option.splits)
  have eq': "page_of e OR (va AND 4095) = page_of d OR (vb AND 4095)"
    using eq e d by (simp add: get_physical_lookup [OF st])
  then have "frame_of e = frame_of d" using physical_frame [of e va] physical_frame [of d vb] by simp
  then have "page_of va = page_of vb" using pages_okD(4) [OF pg e d] by simp
  then have "bit va n = bit vb n" for n
    using physical_bits [of e va n] physical_bits [of d vb n] mask_bits [of va n] mask_bits [of vb n] eq'
    by (cases "n < 12") simp_all
  then show ?thesis by (intro bit_word_eqI) simp
qed

lemma physical_user:
  assumes ok: "tables_ok s" and a: "user_access s w va"
  shows "frame_of (paging_get_physical s va) \<in> mapped_set (frames s)" "frame_of (paging_get_physical s va) \<notin> kernel_frames (frames s)"
proof -
  have st: "struct_ok s" and pg: "pages_ok s" using ok by (simp_all add: tables_ok_def)
  obtain e where e: "lookup s va = Some e" "bit e 2" using a by (auto simp: user_access_def split: option.splits)
  then have "paging_get_physical s va = page_of e OR (va AND 4095)" by (simp add: get_physical_lookup [OF st])
  then show m: "frame_of (paging_get_physical s va) \<in> mapped_set (frames s)"
    using pages_okD(3) [OF pg e] by (simp only: physical_frame)
  then show "frame_of (paging_get_physical s va) \<notin> kernel_frames (frames s)"
    by (auto simp: mapped_set_def kernel_frames_def)
qed

section \<open>Copies\<close>

lemma unat_u32: "i < 2 ^ 32 \<Longrightarrow> unat (of_nat i :: u32) = i"
  by (subst unat_of_nat) (simp add: take_bit_eq_mod)

lemma copy_loop:
  assumes ok: "tables_ok s" and fits: "n \<le> 2 ^ 32"
    and acc: "\<And>i. i < n \<Longrightarrow> user_access s True (dst + of_nat i)"
    and P_def: "\<And>i. P i = paging_get_physical s (dst + of_nat i)"
    and u_def: "u = fold (\<lambda>i u. set_phys_byte (paging_get_physical u (dst + of_nat i)) (data ! i) u) [0 ..< n] s"
  shows "tables_ok u" "lookup u = lookup s" "frames u = frames s"
    "i < n \<Longrightarrow> phys_byte u (P i) = data ! i" "(\<And>i. i < n \<Longrightarrow> a \<noteq> P i) \<Longrightarrow> phys_byte u a = phys_byte s a"
proof -
  have inj: "P i \<noteq> P j" if "i < n" "j < n" "i \<noteq> j" for i j
  proof
    assume "P i = P j"
    then have "dst + of_nat i = dst + of_nat j"
      unfolding P_def by (rule physical_inj [OF ok acc [OF that(1)] acc [OF that(2)]])
    then have "unat (of_nat i :: u32) = unat (of_nat j :: u32)" by simp
    then show False using that fits by (simp add: unat_u32)
  qed
  define g where "g m = fold (\<lambda>i u. set_phys_byte (paging_get_physical u (dst + of_nat i)) (data ! i) u) [0 ..< m] s" for m
  have "tables_ok (g m) \<and> lookup (g m) = lookup s \<and> frames (g m) = frames s \<and>
      (\<forall>i < m. phys_byte (g m) (P i) = data ! i) \<and> (\<forall>a. (\<forall>i < m. a \<noteq> P i) \<longrightarrow> phys_byte (g m) a = phys_byte s a)"
    if "m \<le> n" for m
    using that
  proof (induction m)
    case 0
    then show ?case using ok by (simp add: g_def)
  next
    case (Suc m)
    then have IH: "tables_ok (g m)" "lookup (g m) = lookup s" "frames (g m) = frames s"
      "\<And>i. i < m \<Longrightarrow> phys_byte (g m) (P i) = data ! i" "\<And>a. (\<And>i. i < m \<Longrightarrow> a \<noteq> P i) \<Longrightarrow> phys_byte (g m) a = phys_byte s a"
      by auto
    have st: "struct_ok s" "struct_ok (g m)" using ok IH(1) by (simp_all add: tables_ok_def)
    have phys: "paging_get_physical (g m) (dst + of_nat m) = P m"
      unfolding P_def using IH(2) by (simp add: get_physical_lookup [OF st(1)] get_physical_lookup [OF st(2)])
    have step: "g (Suc m) = set_phys_byte (P m) (data ! m) (g m)"
      unfolding g_def using phys by (simp add: g_def)
    have "frame_of (P m) \<notin> kernel_frames (frames (g m))"
      unfolding IH(3) P_def using Suc.prems by (intro physical_user(2) [OF ok acc]) simp
    note sp = set_phys_tables [OF IH(1) this step]
    have "P i \<noteq> P m" if "i < m" for i using inj [of i m] that Suc.prems by simp
    with sp IH show ?case by (auto simp: step phys_set less_Suc_eq)
  qed
  from this [of n] show "tables_ok u" "lookup u = lookup s" "frames u = frames s"
    "i < n \<Longrightarrow> phys_byte u (P i) = data ! i" "(\<And>i. i < n \<Longrightarrow> a \<noteq> P i) \<Longrightarrow> phys_byte u a = phys_byte s a"
    by (auto simp: g_def u_def)
qed

lemma access_read: "user_access s True va \<Longrightarrow> user_access s False va"
  by (auto simp: user_access_def split: option.splits)

lemma copy_keeps_tables:
  assumes ok: "tables_ok s" and len: "length data < 2 ^ 32"
  shows "tables_ok (snd (paging_copy_to_user dst data s))"
proof (cases "paging_validate_user_range s dst (of_nat (length data)) True \<and> data \<noteq> []")
  case True
  have l: "unat (of_nat (length data) :: u32) = length data" by (rule unat_u32 [OF len])
  then have zero: "(of_nat (length data) :: u32) = 0 \<longleftrightarrow> data = []" by (simp only: word_unat_eq_iff) simp
  have "user_access s True (dst + of_nat i)" if "i < length data" for i
    using True that validate_exact [OF ok, of dst "of_nat (length data)" True] by (auto simp: l zero)
  from copy_loop(1) [OF ok less_imp_le [OF len] this refl refl] True show ?thesis
    by (simp add: paging_copy_to_user_def)
qed (use ok in \<open>auto simp: paging_copy_to_user_def\<close>)

text \<open>C14: Copying data into user memory through the two-level tables succeeds exactly when the range lies in user space and
  every byte of it is a writable user byte. It then writes those bytes and no other byte of memory, so no kernel
  memory and no table changes and every translation stays; reading the range back returns the data.\<close>
theorem copy_to_user_exact:
  assumes ok: "tables_ok s" and len: "length data < 2 ^ 32" and r: "paging_copy_to_user dst data s = (success, s')"
  shows "(success \<longleftrightarrow> data = [] \<or> 4096 \<le> unat dst \<and> unat dst + length data \<le> 0xC0000000 \<and>
      (\<forall>i < length data. user_access s True (dst + of_nat i))) \<and>
    tables_ok s' \<and> lookup s' = lookup s \<and>
    (success \<longrightarrow> paging_copy_from_user s' dst (of_nat (length data)) = Some data) \<and>
    (\<forall>a. \<not> success \<or> (\<forall>i < length data. a \<noteq> paging_get_physical s (dst + of_nat i)) \<longrightarrow> phys_byte s' a = phys_byte s a) \<and>
    (\<forall>a. frame_of a \<in> kernel_frames (frames s) \<longrightarrow> phys_byte s' a = phys_byte s a)"
proof -
  have l: "unat (of_nat (length data) :: u32) = length data" by (rule unat_u32 [OF len])
  then have zero: "(of_nat (length data) :: u32) = 0 \<longleftrightarrow> data = []" by (simp only: word_unat_eq_iff) simp
  have st: "struct_ok s" using ok by (simp add: tables_ok_def)
  have success_iff: "success \<longleftrightarrow> data = [] \<or> 4096 \<le> unat dst \<and> unat dst + length data \<le> 0xC0000000 \<and>
      (\<forall>i < length data. user_access s True (dst + of_nat i))"
    using r validate_exact [OF ok, of dst "of_nat (length data)" True]
    by (auto simp: paging_copy_to_user_def l zero split: if_splits)
  show ?thesis
  proof (cases "success")
    case False
    then have "s' = s" using r by (auto simp: paging_copy_to_user_def split: if_splits)
    with False success_iff ok show ?thesis by auto
  next
    case True
    have acc: "user_access s True (dst + of_nat i)" if "i < length data" for i using True success_iff that by auto
    have s': "s' = fold (\<lambda>i u. set_phys_byte (paging_get_physical u (dst + of_nat i)) (data ! i) u) [0 ..< length data] s"
      using r True by (auto simp: paging_copy_to_user_def split: if_splits)
    note cl = copy_loop [OF ok less_imp_le [OF len] acc refl s']
    have st': "struct_ok s'" using cl(1) by (simp add: tables_ok_def)
    have same: "paging_get_physical s' va = paging_get_physical s va" for va
      by (simp add: get_physical_lookup [OF st] get_physical_lookup [OF st'] cl(2))
    have "user_access s' False (dst + of_nat i)" if "i < length data" for i
      using access_read [OF acc [OF that]] by (simp add: user_access_def cl(2))
    then have "paging_validate_user_range s' dst (of_nat (length data)) False"
      using True success_iff validate_exact [OF cl(1), of dst "of_nat (length data)" False] by (auto simp: l zero)
    then have readback: "paging_copy_from_user s' dst (of_nat (length data)) = Some data"
      using cl(4) by (auto simp: paging_copy_from_user_def l same intro!: nth_equalityI)
    have "a \<noteq> paging_get_physical s (dst + of_nat i)" if "frame_of a \<in> kernel_frames (frames s)" "i < length data" for a i
      using physical_user(2) [OF ok acc [OF that(2)]] that(1) by auto
    with cl readback True success_iff show ?thesis by auto
  qed
qed

end
