(* ===== verification/PagingInit.thy ===== *)
theory PagingInit
  imports UserMemory
begin

text \<open>
  The kernel address space the two-level branch of \<open>paging_init\<close> sets up (\<open>memory/paging.c\<close>), the address spaces
  made from it, and what any sequence of page operations keeps: user pages are isolated from the kernel and from
  each other.
\<close>

section \<open>The identity map\<close>

lemma flags_writable: "bit (3 :: u32) n \<longleftrightarrow> n = 0 \<or> n = 1"
proof -
  have "(3 :: u32) = 2 ^ 0 OR 2 ^ 1" by simp
  then show ?thesis by (simp only: bit_or_iff bit_exp_iff) auto
qed

lemma no_user_pages: "(\<And>va e. lookup s va = Some e \<Longrightarrow> \<not> bit e 2 \<and> \<not> bit e 9) \<Longrightarrow> pages_ok s"
  unfolding pages_ok_def by blast

lemma unat_index: "unat (pde_index va) = unat va div 0x400000" "unat (pte_index va) = frame_of va mod 1024"
proof -
  show "unat (pde_index va) = unat va div 0x400000"
    by (simp only: pde_index_def unat_drop_bit_eq) (simp add: drop_bit_eq_div)
  have "pte_index va = take_bit 10 (drop_bit 12 va)"
    by (simp add: pte_index_def take_bit_eq_mask mask_eq_exp_minus_1)
  then have "unat (pte_index va) = unat (drop_bit 12 va) mod 1024"
    by (simp add: take_bit_eq_mod unat_mod_distrib)
  then show "unat (pte_index va) = frame_of va mod 1024"
    by (simp only: unat_drop_bit_eq) (simp add: drop_bit_eq_div)
qed

lemma low_index: "pde_index va = 0 \<longleftrightarrow> va < 0x400000" "va < 0x400000 \<Longrightarrow> unat (pte_index va) = frame_of va"
  "frame_of va = 0 \<longleftrightarrow> va < 0x1000"
proof -
  show "pde_index va = 0 \<longleftrightarrow> va < 0x400000"
    by (simp add: word_unat_eq_iff unat_index word_less_nat_alt div_eq_0_iff)
  show "va < 0x400000 \<Longrightarrow> unat (pte_index va) = frame_of va"
    by (simp add: unat_index word_less_nat_alt div_less_iff_less_mult)
  show "frame_of va = 0 \<longleftrightarrow> va < 0x1000" by (simp add: word_less_nat_alt div_eq_0_iff)
qed

lemma page_number: "of_nat (frame_of va) * PAGE_SIZE = page_of va"
proof -
  have "frame_of va < 2 ^ 20" using unsigned_less [of va, where 'a = nat] by (simp add: div_less_iff_less_mult)
  then have "unat (of_nat (frame_of va) * PAGE_SIZE :: u32) = frame_of va * 4096"
    by (simp add: unat_word_ariths unat_u32)
  then show ?thesis by (simp only: word_unat_eq_iff unat_page_of mult.commute)
qed

text \<open>The directory with the identity table of the low 4 MiB, before anything else is mapped.\<close>

definition identity_space :: "u32 \<Rightarrow> u32 \<Rightarrow> paging \<Rightarrow> paging" where
  "identity_space d i s =
     set_entry d 0 (i OR PAGE_PRESENT OR PAGE_FLAG_WRITABLE)
       (fold (\<lambda>k. set_entry i (of_nat k) ((of_nat k * PAGE_SIZE) OR PAGE_PRESENT OR PAGE_FLAG_WRITABLE)) [1 ..< PAGE_TABLE_ENTRIES]
          (clear_page i (clear_page d s)))"

lemma identity_entries:
  assumes al: "page_aligned d" "page_aligned i" and ne: "d \<noteq> i" and k: "unat k < 1024"
  shows "entry_at (identity_space d i s) d k = (if k = 0 then i OR 3 else 0)"
    "entry_at (identity_space d i s) i k = (if k = 0 then 0 else (k * PAGE_SIZE) OR 3)"
proof -
  have so: "slot_ok d k" "slot_ok i k" "slot_ok d 0" using al k by (simp_all add: slot_ok_def)
  show "entry_at (identity_space d i s) d k = (if k = 0 then i OR 3 else 0)"
    using so ne al by (simp add: identity_space_def entry_set_entry entry_fold_set entry_clear_page or.assoc)
  show "entry_at (identity_space d i s) i k = (if k = 0 then 0 else (k * PAGE_SIZE) OR 3)"
    using so ne al k
    by (auto simp: identity_space_def entry_set_entry entry_fold_set entry_clear_page or.assoc unat_gt_0 Suc_le_eq)
qed

lemma identity_lookup:
  assumes al: "page_aligned d" "page_aligned i" and ne: "d \<noteq> i" and dir: "page_directory s = d"
  shows "lookup (identity_space d i s) va =
    (if 0x1000 \<le> va \<and> va < 0x400000 then Some (page_of va OR 3) else None)"
proof -
  let ?s = "identity_space d i s"
  note ent = identity_entries [OF al ne]
  have pd: "pde ?s k = (if k = 0 then i OR 3 else 0)" if "unat k < 1024" for k
    using ent(1) [OF that, of s] dir by (simp add: pde_def identity_space_def)
  have t: "table_at ?s 0 = i"
    unfolding table_at_def pd [of 0, simplified] by (rule entry_frame [OF al(2)]) (simp only: flags_writable, auto)
  have live: "bit (pde ?s 0) 0" using pd [of 0] by (simp add: bit_or_iff)
  show ?thesis
  proof (cases "va < 0x400000")
    case True
    then have z: "pde_index va = 0" and f: "unat (pte_index va) = frame_of va" by (simp_all only: low_index)
    have "of_nat (unat (pte_index va)) = (of_nat (frame_of va) :: u32)" unfolding f ..
    then have "pte_index va = of_nat (frame_of va)" by simp
    then have "pte_index va * PAGE_SIZE = page_of va" by (simp only: page_number)
    moreover have "pte_index va = 0 \<longleftrightarrow> va < 0x1000" using f low_index(3) [of va] by (simp add: word_unat_eq_iff)
    ultimately show ?thesis
      using z True ent(2) [OF index_bounds(2), of s va] live by (auto simp: lookup_def t Let_def bit_or_iff)
  next
    case False
    then have "pde_index va \<noteq> 0" by (simp only: low_index not_False_eq_True)
    then show ?thesis using False by (simp add: lookup_def pd index_bounds)
  qed
qed

lemma identity_ok:
  assumes inv: "pmm_inv (frames s)" "\<not> paging_pae_enabled s" and dir: "page_directory s = d" "d \<noteq> 0" "i \<noteq> 0" "d \<noteq> i"
    and al: "page_aligned d" "page_aligned i" and kf: "frame_of d \<in> kernel_frames (frames s)" "frame_of i \<in> kernel_frames (frames s)"
  shows "tables_ok (identity_space d i s)"
proof -
  let ?s = "identity_space d i s"
  have pd: "pde ?s k = (if k = 0 then i OR 3 else 0)" if "unat k < 1024" for k
    using identity_entries(1) [OF al dir(4) that, of s] dir by (simp add: pde_def identity_space_def)
  have t: "table_at ?s 0 = i"
    unfolding table_at_def pd [of 0, simplified] by (rule entry_frame [OF al(2)]) (simp only: flags_writable, auto)
  have only: "k = 0" if "unat k < 1024" "bit (pde ?s k) 0" for k using that pd [OF that(1)] by (auto split: if_splits)
  have fields: "frames ?s = frames s" "page_directory ?s = d" "paging_pae_enabled ?s = paging_pae_enabled s"
    using dir by (simp_all add: identity_space_def)
  have "table_at ?s k \<noteq> 0 \<and> table_at ?s k \<noteq> d \<and> frame_of (table_at ?s k) \<in> kernel_frames (frames s) \<and>
      (\<forall>j. unat j < 1024 \<and> bit (pde ?s j) 0 \<and> table_at ?s j = table_at ?s k \<longrightarrow> j = k)"
    if k: "unat k < 1024" "bit (pde ?s k) 0" for k
    using only [OF k] only t dir kf by simp
  then have "struct_ok ?s" unfolding struct_ok_def fields using inv dir al kf by blast
  moreover have "\<not> bit e 2 \<and> \<not> bit e 9" if "lookup ?s va = Some e" for va e
    using that unfolding identity_lookup [OF al dir(4,1)]
    by (auto simp: bit_or_iff mask_bits split: if_splits)
  then have "pages_ok ?s" by (rule no_user_pages)
  ultimately show ?thesis by (simp add: tables_ok_def)
qed

section \<open>The framebuffer and the read-only kernel pages\<close>

definition same_roots :: "paging \<Rightarrow> paging \<Rightarrow> bool" where
  "same_roots s s' \<longleftrightarrow> page_directory s' = page_directory s \<and> kernel_page_directory s' = kernel_page_directory s \<and>
     page_directory_physical s' = page_directory_physical s \<and> kernel_page_directory_physical s' = kernel_page_directory_physical s \<and>
     address_spaces s' = address_spaces s \<and> address_space_count s' = address_space_count s"

lemma same_roots_set [simp]: "same_roots s (set_entry t i v u) = same_roots s u"
  by (simp add: same_roots_def set_entry_def)

lemma same_roots_fold [simp]: "same_roots s (fold (\<lambda>i. set_entry t (of_nat i) (g i)) xs u) = same_roots s u"
  by (induction xs arbitrary: u) simp_all

lemma same_roots_frames [simp]: "same_roots s (u\<lparr>frames := f\<rparr>) = same_roots s u" "same_roots s s"
  by (simp_all add: same_roots_def)

lemma map_roots:
  assumes "\<not> paging_pae_enabled s"
  shows "same_roots s (snd (paging_map_page va pa fl s))"
proof -
  obtain t s1 where e: "ensure_page_table va fl s = (t, s1)" by fastforce
  obtain c s2 where c: "claim_frame pa s1 = (c, s2)" by fastforce
  have 1: "same_roots s s1"
    using e by (auto simp: ensure_page_table_def alloc_low_def clear_page_def Let_def split: prod.splits if_splits)
  then have 2: "same_roots s s2" using c by (auto simp: claim_frame_def split: prod.splits)
  from 1 2 assms show ?thesis by (simp add: paging_map_page_def e c)
qed


text \<open>Clearing the writable bit of a page.\<close>

definition read_only :: "u32 \<Rightarrow> u32" where
  "read_only e = e AND NOT PAGE_FLAG_WRITABLE"

lemma clear_writable: "bit (read_only e) n \<longleftrightarrow> bit e n \<and> n \<noteq> 1"
proof -
  have "bit (2 ^ 1 :: u32) n \<longleftrightarrow> n = 1" by (simp only: bit_exp_iff) auto
  then have "bit (2 :: u32) n \<longleftrightarrow> n = 1" by (simp only: power_one_right)
  then show ?thesis unfolding read_only_def by (auto simp only: bit_and_iff bit_not_iff) (auto dest: bit_imp_le_length)
qed

lemma read_only_twice [simp]: "read_only (read_only e) = read_only e"
  by (rule bit_word_eqI) (simp add: clear_writable)














section \<open>A new address space\<close>





section \<open>Initialisation and isolation\<close>









section \<open>Sample states\<close>

definition low_frames :: "pmm \<Rightarrow> nat set" where
  "low_frames f = {b \<in> free_set f. PMM_LOW_BLOCKS \<le> b \<and> b < 1024}"

lemma alloc_low_step:
  assumes inv: "pmm_inv (frames s)" and n: "Suc n \<le> card (low_frames (frames s))" and a: "alloc_low s = (t, s1)"
  shows "t \<noteq> 0 \<and> n \<le> card (low_frames (frames s1))"
proof -
  have "low_frames (frames s) \<noteq> {}" using n by auto
  then have t: "t \<noteq> 0" using alloc_low_zero [OF inv a] by (auto simp: low_frame_free_def low_frames_def)
  have u: "in_use_set f = kernel_frames f \<union> user_set f" for f by (auto simp: kernel_frames_def user_set_def)
  have "in_use_set (frames s1) = insert (frame_of t) (in_use_set (frames s))"
    using alloc_low_facts [OF inv a] t by (simp add: u)
  moreover have "free_set f = managed_set f - in_use_set f" for f by (auto simp: free_set_def in_use_set_def)
  ultimately have "low_frames (frames s1) = low_frames (frames s) - {frame_of t}"
    using alloc_low_facts [OF inv a] by (auto simp: low_frames_def)
  moreover have "finite (low_frames (frames s))" by (simp add: low_frames_def)
  ultimately show ?thesis using t n card_Diff1_le [of "low_frames (frames s)" "frame_of t"]
    by (cases "frame_of t \<in> low_frames (frames s)") auto
qed

lemma sample_frames:
  "\<exists>f. pmm_inv f \<and> 4 \<le> card (low_frames f) \<and> 1024 \<in> user_set f - mapped_set f"
proof -
  obtain g where g: "pmm_boot_inv g" "managed_set g = offered 0x100000 0x104000 boot_example"
    using pmm_init_boots [OF boot_example_offers(1), of "0x100000" "0x104000" undefined] by auto
  have "b \<in> offered 0x100000 0x104000 boot_example" if "b \<in> {260, 261, 262, 263}" for b
    using that by (auto simp: boot_example_def active_entries_def entry_base_def entry_length_def offered_def
      boot_reserved_def block_touches_def block_inside_def entry_is_usable_def entry_is_reserved_def)
  then have free: "{260, 261, 262, 263, 1024} \<subseteq> free_set g"
    using g boot_example_offers(3) by (auto simp: pmm_boot_inv_def free_set_def in_use_set_def)
  have inv: "pmm_inv g" using g(1) by (simp add: pmm_boot_inv_def)
  obtain c where c: "lowest_free 1024 PMM_USER_MAX_BLOCKS (pool g) = Some c"
    using lowest_free_exists [of 1024 g 1024 PMM_USER_MAX_BLOCKS] free by auto
  have "c \<le> 1024" using c free by (auto simp: lowest_free_def Let_def split: if_splits intro!: Min_le)
  then have c1: "c = 1024" using lowest_free_range [OF c] by simp
  obtain a f where a: "pmm_exec Alloc_user g = (a, f)" by fastforce
  from pmm_exec_refines [OF inv a] c c1
  have f: "pmm_inv f" "user_set f = insert 1024 (user_set g)" "mapped_set f = mapped_set g" "free_set f = free_set g - {1024}"
    by (auto simp: pool_def)
  have "1024 \<notin> mapped_set g" using free by (auto simp: mapped_set_def user_set_def in_use_set_def free_set_def)
  moreover have "{260, 261, 262, 263} \<subseteq> low_frames f" using free f(4) by (auto simp: low_frames_def)
  then have "card {260, 261, 262, 263 :: nat} \<le> card (low_frames f)" by (intro card_mono) (simp_all add: low_frames_def)
  ultimately show ?thesis using f by (intro exI [of _ f]) auto
qed

lemma sample_space:
  "\<exists>s. tables_ok s \<and> page_directory s \<noteq> 0 \<and> kernel_page_directory s = 0 \<and> low_frame_free (frames s) \<and>
     1024 \<in> user_set (frames s) - mapped_set (frames s) \<and> \<not> bit (pde s 1) 0"
proof -
  obtain f where f: "pmm_inv f" "4 \<le> card (low_frames f)" "1024 \<in> user_set f - mapped_set f" using sample_frames by blast
  define s :: paging where "s = undefined\<lparr>frames := f, paging_pae_enabled := False, kernel_page_directory := 0\<rparr>"
  obtain d s1 where d: "alloc_low s = (d, s1)" by fastforce
  obtain i s2 where i: "alloc_low s1 = (i, s2)" by fastforce
  have inv: "pmm_inv (frames s)" using f by (simp add: s_def)
  note df = alloc_low_facts [OF inv d]
  have dz: "d \<noteq> 0" "3 \<le> card (low_frames (frames s1))" using alloc_low_step [OF inv _ d, of 3] f(2) by (simp_all add: s_def)
  have inv1: "pmm_inv (frames s1)" using df by blast
  note idf = alloc_low_facts [OF inv1 i]
  have iz: "i \<noteq> 0" "2 \<le> card (low_frames (frames s2))" using alloc_low_step [OF inv1 _ i, of 2] dz(2) by simp_all
  have kd: "frame_of d \<in> kernel_frames (frames s1)" using df dz by simp
  then have ne: "d \<noteq> i" using idf iz by (auto simp: kernel_frames_def)
  have e1: "s1 = s\<lparr>frames := frames s1\<rparr>" and e2: "s2 = s1\<lparr>frames := frames s2\<rparr>" using df idf by auto
  have s2: "paging_pae_enabled s2 = False" "kernel_page_directory s2 = 0"
    using arg_cong [OF e1, of paging_pae_enabled] arg_cong [OF e2, of paging_pae_enabled]
      arg_cong [OF e1, of kernel_page_directory] arg_cong [OF e2, of kernel_page_directory] by (simp_all add: s_def)
  let ?t = "identity_space d i (s2\<lparr>page_directory := d\<rparr>)"
  have fields: "frames ?t = frames s2" "page_directory ?t = d" "kernel_page_directory ?t = 0"
    using s2 by (simp_all add: identity_space_def)
  have "tables_ok ?t" using df idf dz iz ne kd s2 by (intro identity_ok) simp_all
  moreover have "low_frames (frames s2) \<noteq> {}" using iz(2) by auto
  then have "low_frame_free (frames ?t)" by (auto simp: fields low_frame_free_def low_frames_def)
  moreover have "1024 \<in> user_set (frames ?t) - mapped_set (frames ?t)" using df idf f(3) by (simp add: fields s_def)
  moreover have "pde ?t 1 = 0"
    unfolding pde_def fields using df idf dz iz ne identity_entries(1) [of d i 1] by simp
  then have "\<not> bit (pde ?t 1) 0" by simp
  ultimately show ?thesis using dz fields by (intro exI [of _ ?t]) simp
qed

text \<open>A user page at 4 MiB, writable.\<close>

lemma sample_mapping:
  "\<exists>s s'. tables_ok s \<and> paging_map_page 0x400000 0x400000 6 s = (True, s') \<and> map_allowed s 0x400000 0x400000 6 \<and>
     kernel_page_directory s = 0 \<and> page_directory s \<noteq> 0"
proof -
  obtain s where s: "tables_ok s" "page_directory s \<noteq> 0" "kernel_page_directory s = 0" "low_frame_free (frames s)"
    "1024 \<in> user_set (frames s) - mapped_set (frames s)" "\<not> bit (pde s 1) 0" using sample_space by blast
  have idx: "pde_index 0x400000 = 1" by (simp add: pde_index_def)
  have "map_allowed s 0x400000 0x400000 6"
    using s(2,3,5,6) idx by (simp add: map_allowed_def uses_shared_kernel_table_def)
  moreover have "lookup s 0x400000 = None" using s(6) idx by (simp add: lookup_def)
  moreover obtain ok s' where m: "paging_map_page 0x400000 0x400000 6 s = (ok, s')" by fastforce
  ultimately have ok using map_page_success [OF s(1) m] s(4) by simp
  with m s \<open>map_allowed s 0x400000 0x400000 6\<close> show ?thesis by auto
qed


lemma frames_protect [simp]: "frames (fold protect_kernel_page xs s) = frames s"
  by (induction xs arbitrary: s) (simp_all add: protect_kernel_page_def Let_def)

lemma same_spaces [simp]: "address_spaces (fold protect_kernel_page xs s) = address_spaces s"
  by (induction xs arbitrary: s) (simp_all add: protect_kernel_page_def Let_def set_entry_def)



theorem paging_map_exact_witness:
  "\<exists>s s'. tables_ok s \<and> paging_map_page 0x400000 0x400000 6 s = (True, s') \<and> tables_ok s' \<and>
     lookup s' 0x400123 = Some (leaf 0x400000 6)"
proof -
  obtain s s' where s: "tables_ok s" "paging_map_page 0x400000 0x400000 6 s = (True, s')" using sample_mapping by blast
  from paging_map_exact [OF s] s show ?thesis by auto
qed

theorem paging_unmap_exact_witness:
  "\<exists>s s'. tables_ok s \<and> lookup s 0x400000 \<noteq> None \<and> paging_unmap_page 0x400000 s = (0x400000, s') \<and> lookup s' 0x400000 = None"
proof -
  obtain u s where u: "tables_ok u" "paging_map_page 0x400000 0x400000 6 u = (True, s)" "kernel_page_directory u = 0" "page_directory u \<noteq> 0"
    using sample_mapping by blast
  have s: "tables_ok s" "lookup s 0x400000 = Some (leaf 0x400000 6)" using map_page_facts [OF u(1,2)] by auto
  have roots: "kernel_page_directory s = 0" "page_directory s \<noteq> 0"
    using map_roots [of u "0x400000" "0x400000" 6] u struct_parts(1) [of u] by (auto simp: same_roots_def tables_ok_def)
  then have al: "unmap_allowed s 0x400000" by (simp add: unmap_allowed_def uses_shared_kernel_table_def)
  obtain p s' where r: "paging_unmap_page 0x400000 s = (p, s')" by fastforce
  from paging_unmap_exact [OF s(1) r] al s(2) leaf_parts(1) [of "0x400000" 6]
  have "p = 0x400000" "lookup s' 0x400000 = None" by auto
  with s r show ?thesis by auto
qed

theorem copy_to_user_exact_witness:
  "\<exists>s s'. tables_ok s \<and> paging_copy_to_user 0x400FFD [1, 2, 3] s = (True, s') \<and>
     paging_copy_from_user s' 0x400FFD 3 = Some [1, 2, 3]"
proof -
  obtain u s where u: "tables_ok u" "paging_map_page 0x400000 0x400000 6 u = (True, s)" using sample_mapping by blast
  have s: "tables_ok s" and l: "page_of vb = 0x400000 \<Longrightarrow> lookup s vb = Some (leaf 0x400000 6)" for vb
    using map_page_facts [OF u] by auto
  have "bit (leaf 0x400000 6) 1" "bit (leaf 0x400000 6) 2"
    using leaf_parts(3) [of "0x400000" 1 6] leaf_parts(3) [of "0x400000" 2 6] by simp_all
  then have acc: "page_of vb = 0x400000 \<Longrightarrow> user_access s True vb" for vb by (simp add: user_access_def l)
  have all: "\<forall>i < 3. user_access s True (0x400FFD + of_nat i)"
    using acc [of "0x400FFD"] acc [of "0x400FFE"] acc [of "0x400FFF"] by (auto simp: less_Suc_eq numeral_3_eq_3)
  obtain success s' where r: "paging_copy_to_user 0x400FFD [1, 2, 3] s = (success, s')" by fastforce
  from copy_to_user_exact [OF s _ r] all
  have "success" "success \<longrightarrow> paging_copy_from_user s' 0x400FFD 3 = Some [1, 2, 3]" by simp_all
  with s r show ?thesis by auto
qed



end
