(* ===== verification/Clock.thy ===== *)
theory Clock
  imports Machine
begin

text \<open>
  The clocks: decoding of the CMOS real-time clock (\<open>drivers/rtc_time.c\<close>), its reading over the CMOS
  ports (\<open>drivers/rtc.c\<close>) and the time arithmetic of the high precision event timer
  (\<open>drivers/hpet_time.c\<close>).
\<close>

section \<open>Decoding the real-time clock\<close>

record rtc_raw_snapshot =
  raw_second :: u8
  raw_minute :: u8
  raw_hour :: u8
  raw_day :: u8
  raw_month :: u8
  raw_year :: u8
  raw_century :: u8
  register_b :: u8

record rtc_time =
  year :: u32
  month :: u8
  day :: u8
  hour :: u8
  minute :: u8
  second :: u8

abbreviation RTC_REGISTER_B_24_HOUR :: u8 where "RTC_REGISTER_B_24_HOUR \<equiv> 2"
abbreviation RTC_REGISTER_B_BINARY :: u8 where "RTC_REGISTER_B_BINARY \<equiv> 4"

definition decode_bcd :: "u8 \<Rightarrow> u32 option" where
  "decode_bcd raw =
     (let low = ucast (raw AND 0x0F) :: u32; high = ucast (drop_bit 4 raw AND 0x0F) :: u32 in
      if low > 9 \<or> high > 9 then None else Some (high * 10 + low))"

definition decode_value :: "u8 \<Rightarrow> bool \<Rightarrow> u32 option" where
  "decode_value raw binary = (if binary then Some (ucast raw) else decode_bcd raw)"

definition leap_year :: "u32 \<Rightarrow> bool" where
  "leap_year y \<longleftrightarrow> (y mod 4 = 0 \<and> y mod 100 \<noteq> 0) \<or> y mod 400 = 0"

definition month_days :: "u32 \<Rightarrow> u32 \<Rightarrow> u32" where
  "month_days y m =
     (if m = 0 \<or> m > 12 then 0
      else if m = 2 \<and> leap_year y then 29
      else [31, 28, 31, 30, 31, 30, 31, 31, 30, 31, 30, 31] ! unat (m - 1))"

definition rtc_raw_snapshots_equal :: "rtc_raw_snapshot \<Rightarrow> rtc_raw_snapshot \<Rightarrow> bool" where
  "rtc_raw_snapshots_equal l r \<longleftrightarrow>
     raw_second l = raw_second r \<and> raw_minute l = raw_minute r \<and> raw_hour l = raw_hour r \<and> raw_day l = raw_day r \<and>
     raw_month l = raw_month r \<and> raw_year l = raw_year r \<and> raw_century l = raw_century r \<and> register_b l = register_b r"

definition rtc_time_is_valid :: "rtc_time \<Rightarrow> bool" where
  "rtc_time_is_valid t \<longleftrightarrow>
     \<not> (year t < 1900 \<or> year t > 9999 \<or> month t = 0 \<or> month t > 12 \<or> hour t > 23 \<or> minute t > 59 \<or> second t > 59) \<and>
     day t \<noteq> 0 \<and> ucast (day t) \<le> month_days (year t) (ucast (month t))"

text \<open>The hour in 24-hour form, and the full year.\<close>

definition decode_hour :: "bool \<Rightarrow> bool \<Rightarrow> u32 \<Rightarrow> u32 option" where
  "decode_hour hour_24 afternoon h =
     (if hour_24 then Some h
      else if h = 0 \<or> h > 12 then None
      else let h0 = (if h = 12 then 0 else h) in Some (if afternoon then h0 + 12 else h0))"

definition decode_year :: "u8 \<Rightarrow> bool \<Rightarrow> u32 \<Rightarrow> u32" where
  "decode_year century_raw binary y =
     (case decode_value century_raw binary of
        Some c \<Rightarrow> if century_raw \<noteq> 0 \<and> c \<ge> 19 \<and> c \<le> 99 then y + c * 100 else y + (if y \<ge> 80 then 1900 else 2000)
      | None \<Rightarrow> y + (if y \<ge> 80 then 1900 else 2000))"

definition rtc_decode_snapshot :: "rtc_raw_snapshot \<Rightarrow> rtc_time option" where
  "rtc_decode_snapshot raw =
     (let binary = register_b raw AND RTC_REGISTER_B_BINARY \<noteq> 0;
          hour_24 = register_b raw AND RTC_REGISTER_B_24_HOUR \<noteq> 0;
          afternoon = \<not> hour_24 \<and> raw_hour raw AND 0x80 \<noteq> 0;
          hour_raw = (if hour_24 then raw_hour raw else raw_hour raw AND 0x7F)
      in case (decode_value (raw_second raw) binary, decode_value (raw_minute raw) binary, decode_value hour_raw binary,
               decode_value (raw_day raw) binary, decode_value (raw_month raw) binary, decode_value (raw_year raw) binary) of
           (Some s, Some mi, Some h, Some d, Some mo, Some y) \<Rightarrow>
             (case decode_hour hour_24 afternoon h of None \<Rightarrow> None
              | Some h' \<Rightarrow>
                  let t = \<lparr>year = decode_year (raw_century raw) binary y, month = ucast mo, day = ucast d,
                           hour = ucast h', minute = ucast mi, second = ucast s\<rparr>
                  in if rtc_time_is_valid t then Some t else None)
         | _ \<Rightarrow> None)"

section \<open>Reading the real-time clock\<close>

abbreviation RTC_UIP_WAIT_LIMIT :: nat where "RTC_UIP_WAIT_LIMIT \<equiv> 100000"
abbreviation RTC_STABLE_READ_ATTEMPTS :: nat where "RTC_STABLE_READ_ATTEMPTS \<equiv> 8"

record 'h rtc = "'h machine" +
  available :: bool

definition cmos_read :: "'h bus \<Rightarrow> u8 \<Rightarrow> bool \<Rightarrow> (('h, 'z) machine_scheme, u8) state" where
  "cmos_read io index nmi_disabled = do {
     outb io 0x70 (index OR (if nmi_disabled then 0x80 else 0));
     inb io 0x71 }"

definition wait_for_update :: "'h bus \<Rightarrow> (('h, 'z) machine_scheme, bool) state" where
  "wait_for_update io = do {
     r \<leftarrow> poll RTC_UIP_WAIT_LIMIT (do {
       a \<leftarrow> cmos_read io 0x0A False;
       if a AND 0x80 = 0 then return (Some ()) else do { on_hw (relax io); return None } });
     return (r \<noteq> None) }"

definition read_raw_snapshot :: "'h bus \<Rightarrow> (('h, 'z) machine_scheme, rtc_raw_snapshot option) state" where
  "read_raw_snapshot io = do {
     ready \<leftarrow> wait_for_update io;
     if \<not> ready then return None
     else do {
       before \<leftarrow> cmos_read io 0x0A True;
       s \<leftarrow> cmos_read io 0x00 True;
       mi \<leftarrow> cmos_read io 0x02 True;
       h \<leftarrow> cmos_read io 0x04 True;
       d \<leftarrow> cmos_read io 0x07 True;
       mo \<leftarrow> cmos_read io 0x08 True;
       y \<leftarrow> cmos_read io 0x09 True;
       c \<leftarrow> cmos_read io 0x32 True;
       b \<leftarrow> cmos_read io 0x0B True;
       reg_d \<leftarrow> cmos_read io 0x0D True;
       after \<leftarrow> cmos_read io 0x0A True;
       outb io 0x70 0;
       return (if before AND 0x80 = 0 \<and> after AND 0x80 = 0 \<and> reg_d AND 0x80 \<noteq> 0
               then Some \<lparr>raw_second = s, raw_minute = mi, raw_hour = h, raw_day = d, raw_month = mo, raw_year = y,
                         raw_century = c, register_b = b\<rparr>
               else None) } }"

definition read_stable :: "'h bus \<Rightarrow> (('h, 'z) machine_scheme, rtc_time option) state" where
  "read_stable io = do {
     first \<leftarrow> read_raw_snapshot io;
     case first of None \<Rightarrow> return None
     | Some a \<Rightarrow> do {
         next \<leftarrow> read_raw_snapshot io;
         return (case next of None \<Rightarrow> None
                 | Some b \<Rightarrow> if rtc_raw_snapshots_equal a b then rtc_decode_snapshot b else None) } }"

definition rtc_read_time :: "'h bus \<Rightarrow> (('h, 'z) rtc_scheme, rtc_time option) state" where
  "rtc_read_time io = do {
     r \<leftarrow> poll RTC_STABLE_READ_ATTEMPTS (read_stable io);
     case r of Some t \<Rightarrow> return (Some t)
     | None \<Rightarrow> do { modify (available_update (\<lambda>_. False)); return None } }"

definition rtc_init :: "'h bus \<Rightarrow> (('h, 'z) rtc_scheme, bool) state" where
  "rtc_init io = do {
     r \<leftarrow> rtc_read_time io;
     modify (available_update (\<lambda>_. r \<noteq> None));
     return (r \<noteq> None) }"

definition rtc_available :: "('h, 'z) rtc_scheme \<Rightarrow> bool" where
  "rtc_available s = available s"

definition rtc_self_test :: bool where
  "rtc_self_test =
     (let leap = \<lparr>raw_second = 0x59, raw_minute = 0x58, raw_hour = 0x23, raw_day = 0x29, raw_month = 0x02,
                  raw_year = 0x24, raw_century = 0x20, register_b = RTC_REGISTER_B_24_HOUR\<rparr>
      in case rtc_decode_snapshot leap of None \<Rightarrow> False
         | Some t \<Rightarrow> year t = 2024 \<and> month t = 2 \<and> day t = 29 \<and> hour t = 23 \<and> minute t = 58 \<and> second t = 59 \<and>
             rtc_decode_snapshot (leap\<lparr>raw_day := 0x30\<rparr>) = None)"

section \<open>Event timer arithmetic\<close>

abbreviation HPET_U64_MAX :: u64 where "HPET_U64_MAX \<equiv> 0xFFFFFFFFFFFFFFFF"
abbreviation HPET_MAX_PERIOD_FEMTOSECONDS :: u32 where "HPET_MAX_PERIOD_FEMTOSECONDS \<equiv> 100000000"

text \<open>Long division, from bit \<open>n - 1\<close> down: the quotient and the remainder.\<close>

primrec divide_loop :: "nat \<Rightarrow> u64 \<Rightarrow> u32 \<Rightarrow> u64 \<Rightarrow> u32 \<Rightarrow> u64 \<times> u32" where
  "divide_loop 0 v divisor quot rest = (quot, rest)"
| "divide_loop (Suc n) v divisor quot rest =
     (let r = push_bit 1 rest OR ucast (drop_bit n v AND 1) in
      if r \<ge> divisor then divide_loop n v divisor (quot OR push_bit n 1) (r - divisor)
      else divide_loop n v divisor quot r)"

definition divide_u64_u32 :: "u64 \<Rightarrow> u32 \<Rightarrow> u64 \<times> u32" where
  "divide_u64_u32 v divisor = divide_loop 64 v divisor 0 0"

text \<open>The multiplication loop as written; \<open>None\<close> would be a loop that does not end.\<close>

partial_function (option) multiply_loop :: "u64 \<Rightarrow> u32 \<Rightarrow> u64 \<Rightarrow> u64 option" where
  "multiply_loop v factor result =
     (if factor = 0 then Some result
      else if factor AND 1 \<noteq> 0 \<and> result > HPET_U64_MAX - v then Some HPET_U64_MAX
      else
        let result' = (if factor AND 1 \<noteq> 0 then result + v else result); factor' = drop_bit 1 factor in
        if factor' \<noteq> 0 then
          if v > HPET_U64_MAX - v then Some HPET_U64_MAX else multiply_loop (v + v) factor' result'
        else multiply_loop v factor' result')"

definition saturating_multiply_u32 :: "u64 \<Rightarrow> u32 \<Rightarrow> u64 option" where
  "saturating_multiply_u32 v factor = multiply_loop v factor 0"

definition hpet_ticks_to_nanoseconds :: "u64 \<Rightarrow> u32 \<Rightarrow> u64 option" where
  "hpet_ticks_to_nanoseconds ticks period =
     (if period = 0 \<or> period > HPET_MAX_PERIOD_FEMTOSECONDS then Some HPET_U64_MAX
      else case divide_u64_u32 ticks 1000000 of (whole_ticks, remainder) \<Rightarrow>
        (case saturating_multiply_u32 whole_ticks period of None \<Rightarrow> None
         | Some whole \<Rightarrow>
             (case saturating_multiply_u32 (ucast remainder) period of None \<Rightarrow> None
              | Some femto \<Rightarrow>
                  let fractional = fst (divide_u64_u32 femto 1000000) in
                  Some (if whole > HPET_U64_MAX - fractional then HPET_U64_MAX else whole + fractional))))"

text \<open>The counter extended to 64 bits, with the last low word and the number of wraps.\<close>

definition hpet_extend_counter32 :: "u32 \<Rightarrow> u32 \<times> u32 \<Rightarrow> u64 \<times> u32 \<times> u32" where
  "hpet_extend_counter32 low st =
     (let wraps = (if low < fst st then snd st + 1 else snd st) in
      (push_bit 32 (ucast wraps) OR ucast low, low, wraps))"

section \<open>Long division is division\<close>

lemma bit_nat_word: "bit (v :: 'a::len word) n \<longleftrightarrow> odd (unat v div 2 ^ n)"
proof -
  have "bit (unat v) n \<longleftrightarrow> bit v n" by (simp add: bit_unsigned_iff)
  then show ?thesis by (simp add: bit_iff_odd)
qed

lemma low_bit: "drop_bit n (v :: 'a::len word) AND 1 = of_bool (bit v n)"
  by (simp add: and_one_eq bit_iff_odd_drop_bit mod_2_eq_odd)

lemma unat_drop1: "unat (drop_bit n (v :: 'a::len word) AND 1) = unat v div 2 ^ n mod 2"
  unfolding low_bit by (simp add: bit_nat_word mod_2_eq_odd)

lemma low_bits_step: "(v :: nat) mod 2 ^ Suc n = (v div 2 ^ n mod 2) * 2 ^ n + v mod 2 ^ n"
  using mod_mult2_eq [of v "2 ^ n" 2] by (simp add: mult.commute)

lemma set_quotient_bit:
  fixes q :: u64
  assumes "n < 64" "2 ^ Suc n dvd unat q"
  shows "unat (q OR push_bit n 1) = unat q + 2 ^ n"
proof -
  obtain k where k: "unat q = 2 ^ Suc n * k" using assms(2) by (elim dvdE)
  then have "\<not> bit q n" by (simp add: bit_nat_word mult.assoc)
  then have "q AND push_bit n 1 = 0" by (intro bit_word_eqI) (auto simp: bit_simps)
  then have sum: "q OR push_bit n 1 = q + push_bit n 1" using word_plus_and_or [of q "push_bit n 1"] by simp
  have one: "unat (push_bit n 1 :: u64) = 2 ^ n"
  proof -
    have "push_bit n (1 :: u64) = of_nat (2 ^ n)" by (simp add: push_bit_eq_mult)
    moreover have "(2 :: nat) ^ n < 2 ^ 64" using assms(1) by (intro power_strict_increasing) auto
    ultimately show ?thesis by (simp add: unsigned_of_nat take_bit_eq_mod del: of_nat_power)
  qed
  have "2 ^ Suc n * (k + 1) \<le> 2 ^ 64"
  proof -
    have E: "(2 :: nat) ^ 64 = 2 ^ Suc n * 2 ^ (63 - n)" using assms(1) by (simp flip: power_Suc power_add)
    have "2 ^ Suc n * k < 2 ^ 64" using k unsigned_less [of q, where 'a = nat] by simp
    then have "k < 2 ^ (63 - n)" unfolding E by (metis mult_less_cancel1)
    then have "2 ^ Suc n * (k + 1) \<le> 2 ^ Suc n * 2 ^ (63 - n)" by (intro mult_le_mono2) simp
    then show ?thesis unfolding E .
  qed
  then have "unat q + 2 ^ n < 2 ^ 64" proof -
    have "m + 2 ^ n < 2 ^ 64" if "2 * 2 ^ n + m \<le> 2 ^ 64" for m :: nat
    proof -
      have "0 < (2 :: nat) ^ n" by simp
      then show ?thesis using that by linarith
    qed
    from this [of "unat q"] show "2 ^ Suc n * (k + 1) \<le> 2 ^ 64 \<Longrightarrow> unat q + 2 ^ n < 2 ^ 64" using k by (simp add: algebra_simps)
  qed
  then show ?thesis unfolding sum using one by (simp add: unat_word_ariths)
qed

lemma divide_loop_exact:
  assumes "n \<le> 64" "0 < unat d" "unat d \<le> 2 ^ 31" "unat r < unat d" "2 ^ n dvd unat q"
  shows "case divide_loop n v d q r of (q', r') \<Rightarrow>
    unat q' = unat q + (unat r * 2 ^ n + unat v mod 2 ^ n) div unat d \<and>
    unat r' = (unat r * 2 ^ n + unat v mod 2 ^ n) mod unat d"
  using assms
proof (induction n arbitrary: q r)
  case 0
  then show ?case by simp
next
  case (Suc n)
  define w where "w = (push_bit 1 r OR ucast (drop_bit n v AND 1) :: u32)"
  have loop: "divide_loop (Suc n) v d q r =
      (if w \<ge> d then divide_loop n v d (q OR push_bit n 1) (w - d) else divide_loop n v d q w)"
    by (simp only: divide_loop.simps Let_def w_def)
  have bit0: "ucast (drop_bit n v AND 1) = (of_bool (bit v n) :: u32)" unfolding low_bit by simp
  have "push_bit 1 r AND (of_bool (bit v n) :: u32) = 0"
    by (cases "bit v n") (simp_all add: and_one_eq mod_2_eq_odd)
  then have "w = push_bit 1 r + of_bool (bit v n)"
    using word_plus_and_or [of "push_bit 1 r" "of_bool (bit v n)"] by (simp add: w_def bit0)
  then have w: "unat w = 2 * unat r + unat v div 2 ^ n mod 2"
    using Suc.prems by (simp add: unat_word_ariths push_bit_eq_mult bit_nat_word mod_2_eq_odd)
  have V: "unat r * 2 ^ Suc n + unat v mod 2 ^ Suc n = unat w * 2 ^ n + unat v mod 2 ^ n"
    unfolding w low_bits_step by (simp add: algebra_simps)
  have dvd: "2 ^ n dvd unat q" using Suc.prems(5) dvd_trans [of "2 ^ n" "2 ^ Suc n"] by simp
  show ?case
  proof (cases "w \<ge> d")
    case True
    then have d: "unat d \<le> unat w" by (simp add: word_le_nat_alt)
    then obtain e where e: "unat w = e + unat d" using le_Suc_ex by (metis add.commute)
    have sub: "unat (w - d) = e" using True by (simp add: unat_sub e)
    have small: "e < unat d" using w e Suc.prems(4) by linarith
    have q: "unat (q OR push_bit n 1) = unat q + 2 ^ n" using Suc.prems by (intro set_quotient_bit) simp_all
    have dvd': "2 ^ n dvd unat (q OR push_bit n 1)" unfolding q using dvd by simp
    define X where "X = e * 2 ^ n + unat v mod 2 ^ n"
    have eq: "unat w * 2 ^ n + unat v mod 2 ^ n = X + 2 ^ n * unat d"
      unfolding e X_def by (simp add: algebra_simps)
    have div: "(X + 2 ^ n * unat d) div unat d = 2 ^ n + X div unat d" using Suc.prems(2) by simp
    have mod: "(X + 2 ^ n * unat d) mod unat d = X mod unat d" by simp
    show ?thesis
      using Suc.IH [of "w - d" "q OR push_bit n 1", unfolded sub q] True Suc.prems(1-3) dvd' [unfolded q] small
      unfolding loop V eq div mod by (simp split: prod.splits del: push_bit_of_1 add: X_def)
  next
    case False
    then have "unat w < unat d" by (simp add: word_le_nat_alt)
    then show ?thesis
      using Suc.IH [of w q] False Suc.prems(1-3) dvd unfolding loop V by (simp split: prod.splits)
  qed
qed

lemma divide_exact:
  assumes "divide_u64_u32 v d = (q, r)" "0 < unat d" "unat d \<le> 2 ^ 31"
  shows "unat q = unat v div unat d" and "unat r = unat v mod unat d"
  using divide_loop_exact [of 64 d 0 0 v] assms unsigned_less [of v, where 'a = nat]
  by (simp_all add: divide_u64_u32_def)

section \<open>The multiplication loop ends with the saturated product\<close>

definition saturate :: "nat \<Rightarrow> u64" where
  "saturate n = (if n < 2 ^ 64 then of_nat n else HPET_U64_MAX)"

lemma unat_saturate: "unat (saturate n) = min n (2 ^ 64 - 1)"
  by (simp add: saturate_def unsigned_of_nat take_bit_eq_mod)

lemma saturate_unat [simp]: "saturate (unat (v :: u64)) = v"
  using unsigned_less [of v, where 'a = nat] by (simp add: saturate_def)

lemma halve_u32: "unat (drop_bit 1 (f :: u32)) = unat f div 2" "(f AND 1 \<noteq> 0) = odd (unat f)"
  using low_bit [of 0 f] bit_nat_word [of f 0] by (simp_all add: unat_div drop_bit_eq_div)

lemma over_max: "(a > HPET_U64_MAX - b) = (2 ^ 64 \<le> unat a + unat b)"
proof -
  have "unat (HPET_U64_MAX - b) = 2 ^ 64 - 1 - unat b"
    using unsigned_less [of b, where 'a = nat] by (subst unat_sub) (simp_all add: word_le_nat_alt)
  then show ?thesis using unsigned_less [of b, where 'a = nat] by (simp add: word_less_nat_alt) linarith
qed

lemma saturate_big: "2 ^ 64 \<le> n \<Longrightarrow> saturate n = HPET_U64_MAX"
  by (simp add: saturate_def)

lemma multiply_loop_ends: "multiply_loop v f r = Some (saturate (unat r + unat v * unat f))"
proof (induction "unat f" arbitrary: v f r rule: less_induct)
  case less
  define h where "h = drop_bit 1 f"
  define r' where "r' = (if odd (unat f) then r + v else r)"
  have h: "unat h = unat f div 2" unfolding h_def by (rule halve_u32)
  have loop: "multiply_loop v f r =
     (if f = 0 then Some r
      else if odd (unat f) \<and> 2 ^ 64 \<le> unat r + unat v then Some HPET_U64_MAX
      else if h \<noteq> 0 then if 2 ^ 64 \<le> unat v + unat v then Some HPET_U64_MAX else multiply_loop (v + v) h r'
      else multiply_loop v h r')"
    by (subst multiply_loop.simps) (simp only: Let_def halve_u32 over_max h_def r'_def)
  show ?case
  proof (cases "f = 0")
    case False
    then have f: "0 < unat f" by (simp add: unat_gt_0)
    then have smaller: "unat h < unat f" by (simp add: h)
    consider (over) "odd (unat f)" "2 ^ 64 \<le> unat r + unat v"
      | (fits) "\<not> (odd (unat f) \<and> 2 ^ 64 \<le> unat r + unat v)" by blast
    then show ?thesis
    proof cases
      case over
      have "unat v \<le> unat v * unat f" using f by simp
      then have "2 ^ 64 \<le> unat r + unat v * unat f" using over(2) by linarith
      then show ?thesis using over False by (auto simp: loop saturate_big)
    next
      case fits
      then have r': "unat r' = unat r + unat v * (unat f mod 2)"
        by (auto simp: r'_def unat_word_ariths odd_iff_mod_2_eq_one)
      have total: "unat r' + 2 * unat v * (unat f div 2) = unat r + unat v * unat f"
      proof -
        have "unat r + unat v * b + 2 * unat v * a = unat r + unat v * (2 * a + b)" for a b by (simp add: algebra_simps)
        from this [of "unat f mod 2" "unat f div 2"] show ?thesis unfolding r' by simp
      qed
      show ?thesis
      proof (cases "h = 0")
        case True
        then have "unat f div 2 = 0" using h by simp
        then have "unat r' = unat r + unat v * unat f" using total by simp
        then show ?thesis using less.hyps [OF smaller, of v r'] True False fits by (auto simp: loop)
      next
        case double: False
        then have pos: "1 \<le> unat f div 2" using h by (metis One_nat_def Suc_leI unat_gt_0 word_neq_0_conv)
        show ?thesis
        proof (cases "2 ^ 64 \<le> unat v + unat v")
          case True
          have "2 * unat v \<le> 2 * unat v * (unat f div 2)" using pos by simp
          then have "2 ^ 64 \<le> unat r + unat v * unat f" using True total by linarith
          then show ?thesis using True double False fits by (auto simp: loop saturate_big)
        next
          case small: False
          then have "unat (v + v) = 2 * unat v" by (simp add: unat_word_ariths)
          then show ?thesis
            using less.hyps [OF smaller, of "v + v" r'] small double False fits total by (auto simp: loop h)
        qed
      qed
    qed
  next
    case True
    then show ?thesis by (simp add: multiply_loop.simps)
  qed
qed

section \<open>What the clock chip stores\<close>

text \<open>The registers of a chip that shows time \<open>t\<close>, in binary or decimal digits and with 24 or 12 hours.\<close>

definition encode_value :: "bool \<Rightarrow> nat \<Rightarrow> u8" where
  "encode_value binary n = (if binary then of_nat n else of_nat (n div 10 * 16 + n mod 10))"

definition encode_hour :: "bool \<Rightarrow> bool \<Rightarrow> nat \<Rightarrow> u8" where
  "encode_hour binary hour_24 h =
     (if hour_24 then encode_value binary h
      else encode_value binary (if h mod 12 = 0 then 12 else h mod 12) OR (if h \<ge> 12 then 0x80 else 0))"

definition shows_time :: "bool \<Rightarrow> bool \<Rightarrow> rtc_time \<Rightarrow> rtc_raw_snapshot" where
  "shows_time binary hour_24 t =
     \<lparr>raw_second = encode_value binary (unat (second t)), raw_minute = encode_value binary (unat (minute t)),
      raw_hour = encode_hour binary hour_24 (unat (hour t)), raw_day = encode_value binary (unat (day t)),
      raw_month = encode_value binary (unat (month t)), raw_year = encode_value binary (unat (year t) mod 100),
      raw_century = encode_value binary (unat (year t) div 100),
      register_b = (if binary then RTC_REGISTER_B_BINARY else 0) OR (if hour_24 then RTC_REGISTER_B_24_HOUR else 0)\<rparr>"

lemma decode_encode_value: "n < 100 \<Longrightarrow> decode_value (encode_value binary n) binary = Some (of_nat n)"
proof -
  assume n: "n < 100"
  have "list_all (\<lambda>b. list_all (\<lambda>n. decode_value (encode_value b n) b = Some (of_nat n)) [0 ..< 100]) [True, False]"
    by code_simp
  then have "list_all (\<lambda>n. decode_value (encode_value binary n) binary = Some (of_nat n)) [0 ..< 100]" by (cases binary) simp_all
  then show ?thesis using n by (simp add: list_all_iff)
qed

definition hour_restored :: "bool \<Rightarrow> bool \<Rightarrow> nat \<Rightarrow> bool" where
  "hour_restored binary hour_24 h \<longleftrightarrow>
     (let raw = encode_hour binary hour_24 h in
      case decode_value (if hour_24 then raw else raw AND 0x7F) binary of None \<Rightarrow> False
      | Some g \<Rightarrow> decode_hour hour_24 (\<not> hour_24 \<and> raw AND 0x80 \<noteq> 0) g = Some (of_nat h))"

lemma decode_encode_hour: "h < 24 \<Longrightarrow> hour_restored binary hour_24 h"
proof -
  assume h: "h < 24"
  have "list_all (\<lambda>(a, b). list_all (hour_restored a b) [0 ..< 24]) [(True, True), (True, False), (False, True), (False, False)]"
    by code_simp
  then have "list_all (hour_restored binary hour_24) [0 ..< 24]" by (cases hour_24; cases binary) simp_all
  then show ?thesis using h by (simp add: list_all_iff)
qed

lemma month_days_le: "unat (month_days y m) \<le> 31"
proof -
  have "list_all (\<lambda>n. unat ([31, 28, 31, 30, 31, 30, 31, 31, 30, 31, 30, 31 :: u32] ! n) \<le> 31) [0 ..< 12]" by code_simp
  moreover have "unat (m - 1) < 12" if "m \<noteq> 0" "\<not> m > 12"
    using that by (simp add: unat_sub word_le_nat_alt word_less_nat_alt unat_gt_0 Suc_le_eq)
  ultimately show ?thesis by (auto simp: month_days_def list_all_iff)
qed

section \<open>Properties\<close>

text \<open>C37: The tick conversion of the event timer always returns, and for every counter value and every period the
  timer may have it returns exactly the whole nanoseconds \<open>ticks * period / 1000000\<close>, or the largest 64-bit value
  when these do not fit: the split into whole and fractional parts loses nothing, the long division is division and
  the doubling loop ends with the saturated product.\<close>

theorem hpet_ticks_exact:
  assumes "0 < period" "period \<le> HPET_MAX_PERIOD_FEMTOSECONDS"
  shows "hpet_ticks_to_nanoseconds ticks period = Some (saturate (unat ticks * unat period div 1000000))"
proof -
  obtain q r where qr: "divide_u64_u32 ticks 1000000 = (q, r)" by fastforce
  have q: "unat q = unat ticks div 1000000" and r: "unat r = unat ticks mod 1000000"
    using divide_exact [OF qr] by simp_all
  have p: "unat period \<le> 100000000" using assms(2) by (simp add: word_le_nat_alt)
  have "unat r * unat period \<le> 1000000 * 100000000" using p r by (intro mult_le_mono) auto
  then have small: "unat r * unat period < 2 ^ 64" by simp
  define fs where "fs = saturate (unat r * unat period)"
  have fs: "unat fs = unat r * unat period" using small by (simp add: fs_def unat_saturate)
  obtain f f' where ff: "divide_u64_u32 fs 1000000 = (f, f')" by fastforce
  have f: "unat f = unat r * unat period div 1000000" using divide_exact(1) [OF ff] fs by simp
  have split: "unat ticks * unat period div 1000000 = unat q * unat period + unat f"
  proof -
    have "(m * a + b) * c = m * (a * c) + b * c" for m a b c :: nat by (simp add: algebra_simps)
    from this [of 1000000 "unat q" "unat r" "unat period"]
    have "unat ticks * unat period = 1000000 * (unat q * unat period) + unat r * unat period"
      unfolding q r by (simp only: mult_div_mod_eq)
    then show ?thesis using f by simp
  qed
  have mult: "saturating_multiply_u32 v g = Some (saturate (unat v * unat g))" for v g
    by (simp add: saturating_multiply_u32_def multiply_loop_ends)
  have ok: "(period = 0 \<or> period > HPET_MAX_PERIOD_FEMTOSECONDS) = False" using assms by auto
  have "hpet_ticks_to_nanoseconds ticks period =
      Some (if 2 ^ 64 \<le> unat (saturate (unat q * unat period)) + unat f then HPET_U64_MAX
            else saturate (unat q * unat period) + f)"
    unfolding hpet_ticks_to_nanoseconds_def ok if_False qr prod.case mult option.case unat_ucast_u64 fs_def [symmetric] ff
      Let_def fst_conv over_max ..
  also have "(if 2 ^ 64 \<le> unat (saturate a) + unat f then HPET_U64_MAX else saturate a + f) = saturate (a + unat f)" for a
  proof (cases "a < 2 ^ 64")
    case True
    then have "saturate a + f = of_nat (a + unat f)" by (simp add: saturate_def)
    moreover have "unat (saturate a) = a" using True by (simp add: unat_saturate)
    ultimately show ?thesis by (simp add: saturate_def [of "a + unat f"])
  next
    case False
    then have "unat (saturate a) = 2 ^ 64 - 1" "saturate a = HPET_U64_MAX" "saturate (a + unat f) = HPET_U64_MAX"
      by (simp_all add: unat_saturate saturate_def)
    then show ?thesis using unat_eq_0 [of f] by auto
  qed
  finally show ?thesis unfolding split .
qed

theorem hpet_ticks_exact_witness:
  "hpet_ticks_to_nanoseconds 1234567890123 69841279 = Some (saturate (1234567890123 * 69841279 div 1000000))"
  using hpet_ticks_exact [of 69841279 1234567890123] by simp

lemma decode_year_split:
  fixes y :: u32
  assumes "unat y \<ge> 1900" "unat y \<le> 9999"
  shows "decode_year (encode_value binary (unat y div 100)) binary (of_nat (unat y mod 100)) = y"
proof -
  define c where "c = unat y div 100"
  have c: "19 \<le> c" "c \<le> 99" using assms by (auto simp: c_def)
  have dec: "decode_value (encode_value binary c) binary = Some (of_nat c)" using c by (intro decode_encode_value) simp
  have word_c: "(19 :: u32) \<le> of_nat c \<and> of_nat c \<le> (99 :: u32)"
    using c by (simp add: word_le_nat_alt unsigned_of_nat take_bit_eq_mod)
  have "encode_value binary c \<noteq> 0"
  proof
    assume "encode_value binary c = 0"
    then have "of_nat c = (0 :: u32)" using dec by (simp add: decode_value_def decode_bcd_def split: if_splits)
    then show False using word_c by simp
  qed
  moreover have "(of_nat (unat y mod 100) :: u32) + of_nat c * 100 = y"
  proof -
    have "of_nat (unat y mod 100 + c * 100) = (of_nat (unat y) :: u32)" unfolding c_def by simp
    then show ?thesis by simp
  qed
  ultimately show ?thesis using word_c by (simp add: decode_year_def dec flip: c_def)
qed

text \<open>C38: Whatever format the clock chip is set to, binary or decimal digits and 24 or 12 hours, the registers that
  show a valid date and time decode to that date and time.\<close>

theorem rtc_decode_roundtrip:
  assumes valid: "rtc_time_is_valid t"
  shows "rtc_decode_snapshot (shows_time binary hour_24 t) = Some t"
proof -
  have b: "unat (year t) \<ge> 1900" "unat (year t) \<le> 9999" "unat (month t) \<le> 12" "unat (hour t) < 24" "unat (minute t) < 60"
    "unat (second t) < 60" "unat (day t) \<le> 31"
    using valid month_days_le [of "year t" "ucast (month t)"] unsigned_less [of "day t", where 'a = nat]
    by (auto simp: rtc_time_is_valid_def word_less_nat_alt word_le_nat_alt unsigned_ucast_eq take_bit_eq_mod)
  obtain g where g: "decode_value (if hour_24 then encode_hour binary hour_24 (unat (hour t))
        else encode_hour binary hour_24 (unat (hour t)) AND 0x7F) binary = Some g"
    "decode_hour hour_24 (\<not> hour_24 \<and> encode_hour binary hour_24 (unat (hour t)) AND 0x80 \<noteq> 0) g = Some (ucast (hour t))"
    using decode_encode_hour [OF b(4), of binary hour_24] by (auto simp: hour_restored_def Let_def split: option.splits)
  have flags: "(register_b (shows_time binary hour_24 t) AND RTC_REGISTER_B_BINARY \<noteq> 0) = binary"
    "(register_b (shows_time binary hour_24 t) AND RTC_REGISTER_B_24_HOUR \<noteq> 0) = hour_24"
    by (simp_all add: shows_time_def)
  have year: "decode_year (encode_value binary (unat (year t) div 100)) binary (of_nat (unat (year t) mod 100)) = year t"
    by (rule decode_year_split [OF b(1,2)])
  define S where "S = shows_time binary hour_24 t"
  have parts: "decode_value (raw_second S) binary = Some (ucast (second t))" "decode_value (raw_minute S) binary = Some (ucast (minute t))"
    "decode_value (raw_day S) binary = Some (ucast (day t))" "decode_value (raw_month S) binary = Some (ucast (month t))"
    "decode_value (raw_year S) binary = Some (of_nat (unat (year t) mod 100))"
    "decode_year (raw_century S) binary (of_nat (unat (year t) mod 100)) = year t"
    using b year by (simp_all add: S_def shows_time_def decode_encode_value)
  have "raw_hour S = encode_hour binary hour_24 (unat (hour t))" by (simp add: S_def shows_time_def)
  note hours = g [folded this]
  have whole: "\<lparr>year = year t, month = ucast (ucast (month t) :: u32), day = ucast (ucast (day t) :: u32),
      hour = ucast (ucast (hour t) :: u32), minute = ucast (ucast (minute t) :: u32), second = ucast (ucast (second t) :: u32)\<rparr> = t"
  proof -
    have "ucast (ucast (x :: u8) :: u32) = x" for x by (rule bit_word_eqI) (simp add: bit_simps)
    then show ?thesis by simp
  qed
  show ?thesis
    unfolding S_def [symmetric] rtc_decode_snapshot_def Let_def flags [folded S_def] parts hours prod.case option.case parts whole
    using valid by simp
qed

theorem rtc_decode_roundtrip_witness:
  "rtc_decode_snapshot (shows_time False False \<lparr>year = 2024, month = 2, day = 29, hour = 12, minute = 58, second = 59\<rparr>) =
     Some \<lparr>year = 2024, month = 2, day = 29, hour = 12, minute = 58, second = 59\<rparr>"
  by (rule rtc_decode_roundtrip) code_simp

end
