(* ===== verification/Acpi.thy ===== *)
theory Acpi
  imports Prelude
begin

text \<open>
  The ACPI table parsers of \<open>drivers/acpi_tables.c\<close>: root pointer, table headers, root tables, the timer
  table and the interrupt controller table (MADT). A table is its bytes, read with \<open>le16\<close> and \<open>le32\<close>,
  together with the number \<open>available\<close> of bytes the caller mapped. \<open>None\<close> is a refused table.
\<close>

section \<open>Headers\<close>

abbreviation ACPI_RSDP_V1_LENGTH :: nat where "ACPI_RSDP_V1_LENGTH \<equiv> 20"
abbreviation ACPI_RSDP_V2_LENGTH :: nat where "ACPI_RSDP_V2_LENGTH \<equiv> 36"
abbreviation ACPI_SDT_HEADER_LENGTH :: nat where "ACPI_SDT_HEADER_LENGTH \<equiv> 36"
abbreviation ACPI_HPET_TABLE_MIN_LENGTH :: nat where "ACPI_HPET_TABLE_MIN_LENGTH \<equiv> 56"
abbreviation ACPI_MADT_HEADER_LENGTH :: nat where "ACPI_MADT_HEADER_LENGTH \<equiv> 44"
abbreviation ACPI_MAX_RSDP_LENGTH :: nat where "ACPI_MAX_RSDP_LENGTH \<equiv> 4096"
abbreviation ACPI_MAX_SDT_LENGTH :: nat where "ACPI_MAX_SDT_LENGTH \<equiv> 65536"
abbreviation ACPI_MAX_RSDT_ENTRIES :: nat where "ACPI_MAX_RSDT_ENTRIES \<equiv> 256"
abbreviation ACPI_MADT_MAX_PROCESSORS :: nat where "ACPI_MADT_MAX_PROCESSORS \<equiv> 256"
abbreviation ACPI_MADT_MAX_IO_APICS :: nat where "ACPI_MADT_MAX_IO_APICS \<equiv> 8"
abbreviation ACPI_MADT_ISA_IRQ_COUNT :: nat where "ACPI_MADT_ISA_IRQ_COUNT \<equiv> 16"

definition ascii :: "string \<Rightarrow> bytes" where
  "ascii = map (\<lambda>c. of_nat (of_char c))"

definition bytes_equal :: "bytes \<Rightarrow> bytes \<Rightarrow> nat \<Rightarrow> bool" where
  "bytes_equal left right n = list_all (\<lambda>i. left ! i = right ! i) [0 ..< n]"

definition acpi_checksum_valid :: "bytes \<Rightarrow> nat \<Rightarrow> bool" where
  "acpi_checksum_valid bs n = (if n = 0 then False else fold (\<lambda>i acc. acc + bs ! i) [0 ..< n] 0 = 0)"

record acpi_rsdp_info =
  rsdt_address :: u32
  xsdt_address_low :: u32
  xsdt_address_high :: u32
  revision :: u32
  rsdp_length :: nat

definition acpi_parse_rsdp :: "bytes \<Rightarrow> nat \<Rightarrow> acpi_rsdp_info option" where
  "acpi_parse_rsdp bs available =
     (if available < ACPI_RSDP_V1_LENGTH \<or> \<not> bytes_equal bs (ascii ''RSD PTR '') 8 \<or>
         \<not> acpi_checksum_valid bs ACPI_RSDP_V1_LENGTH then None
      else
        let rev = ucast (bs ! 15) :: u32; rsdt = le32 bs 16; n = unat (le32 bs 20) in
        if rev = 1 \<or> rsdt < 0x1000 then None
        else if rev \<ge> 2 \<and>
           (n < ACPI_RSDP_V2_LENGTH \<or> n > ACPI_MAX_RSDP_LENGTH \<or> n > available \<or> \<not> acpi_checksum_valid bs n \<or>
            bs ! 33 \<noteq> 0 \<or> bs ! 34 \<noteq> 0 \<or> bs ! 35 \<noteq> 0) then None
        else Some \<lparr>rsdt_address = rsdt, xsdt_address_low = (if rev \<ge> 2 then le32 bs 24 else 0),
                   xsdt_address_high = (if rev \<ge> 2 then le32 bs 28 else 0), revision = rev,
                   rsdp_length = (if rev \<ge> 2 then n else ACPI_RSDP_V1_LENGTH)\<rparr>)"

definition acpi_sdt_peek_length :: "bytes \<Rightarrow> nat \<Rightarrow> string \<Rightarrow> nat option" where
  "acpi_sdt_peek_length bs available signature =
     (if available < ACPI_SDT_HEADER_LENGTH \<or> \<not> bytes_equal bs (ascii signature) 4 then None
      else
        let n = unat (le32 bs 4) in
        if n < ACPI_SDT_HEADER_LENGTH \<or> n > ACPI_MAX_SDT_LENGTH then None else Some n)"

definition acpi_parse_sdt :: "bytes \<Rightarrow> nat \<Rightarrow> string \<Rightarrow> nat option" where
  "acpi_parse_sdt bs available signature =
     (case acpi_sdt_peek_length bs available signature of None \<Rightarrow> None
      | Some n \<Rightarrow> if n > available \<or> \<not> acpi_checksum_valid bs n then None else Some n)"

text \<open>An entry of a root table, with the number of entries.\<close>

definition acpi_rsdt_entry_at :: "bytes \<Rightarrow> nat \<Rightarrow> nat \<Rightarrow> (u32 \<times> nat) option" where
  "acpi_rsdt_entry_at bs available index =
     (case acpi_parse_sdt bs available ''RSDT'' of None \<Rightarrow> None
      | Some n \<Rightarrow>
        if (n - ACPI_SDT_HEADER_LENGTH) mod 4 \<noteq> 0 then None
        else
          let count = (n - ACPI_SDT_HEADER_LENGTH) div 4 in
          if count = 0 \<or> count > ACPI_MAX_RSDT_ENTRIES \<or> index \<ge> count then None
          else
            let address = le32 bs (ACPI_SDT_HEADER_LENGTH + index * 4) in
            if address < 0x1000 then None else Some (address, count))"

definition acpi_xsdt_entry_at :: "bytes \<Rightarrow> nat \<Rightarrow> nat \<Rightarrow> (u32 \<times> u32 \<times> nat) option" where
  "acpi_xsdt_entry_at bs available index =
     (case acpi_parse_sdt bs available ''XSDT'' of None \<Rightarrow> None
      | Some n \<Rightarrow>
        if (n - ACPI_SDT_HEADER_LENGTH) mod 8 \<noteq> 0 then None
        else
          let count = (n - ACPI_SDT_HEADER_LENGTH) div 8 in
          if count = 0 \<or> count > ACPI_MAX_RSDT_ENTRIES \<or> index \<ge> count then None
          else
            let off = ACPI_SDT_HEADER_LENGTH + index * 8;
                low = le32 bs off; high = le32 bs (off + 4) in
            if low < 0x1000 \<and> high = 0 then None else Some (low, high, count))"

section \<open>The timer table\<close>

record acpi_hpet_table_info =
  event_timer_block_id :: u32
  hpet_physical_address :: u32
  minimum_tick :: u32
  sequence_number :: u8
  page_protection :: u8

definition acpi_parse_hpet_table :: "bytes \<Rightarrow> nat \<Rightarrow> acpi_hpet_table_info option" where
  "acpi_parse_hpet_table bs available =
     (case acpi_parse_sdt bs available ''HPET'' of None \<Rightarrow> None
      | Some n \<Rightarrow>
        if n < ACPI_HPET_TABLE_MIN_LENGTH \<or> bs ! 8 = 0 then None
        else
          let block_id = le32 bs 36; vendor = drop_bit 16 block_id; access_size = bs ! 43;
              address_low = le32 bs 44; address_high = le32 bs 48; protection = bs ! 55 in
          if block_id AND push_bit 14 1 \<noteq> 0 \<or> vendor = 0 \<or> vendor = 0xFFFF \<or>
             bs ! 40 \<noteq> 0 \<or> (bs ! 41 \<noteq> 0 \<and> bs ! 41 \<noteq> 64) \<or> bs ! 42 \<noteq> 0 \<or>
             (access_size \<noteq> 0 \<and> access_size \<noteq> 4) \<or> address_high \<noteq> 0 \<or>
             address_low < 0x1000 \<or> address_low AND 0x3FF \<noteq> 0 \<or>
             address_low > 0xFFFFFFFF - 1023 \<or> protection > 2 then None
          else Some \<lparr>event_timer_block_id = block_id, hpet_physical_address = address_low,
                     minimum_tick = le16 bs 53, sequence_number = bs ! 52, page_protection = protection\<rparr>)"

section \<open>The interrupt controller table\<close>

definition madt_interrupt_flags_valid :: "u32 \<Rightarrow> bool" where
  "madt_interrupt_flags_valid fl =
     (let polarity = fl AND 3; trigger = drop_bit 2 fl AND 3 in
      fl AND NOT 0xF = 0 \<and> polarity \<noteq> 2 \<and> trigger \<noteq> 2)"

definition madt_mmio_address_valid :: "u32 \<Rightarrow> bool" where
  "madt_mmio_address_valid address =
     (address \<ge> 0x1000 \<and> address AND 0xFFF = 0 \<and> address \<le> 0xFFFFFFFF - 0xFFF)"

record acpi_madt_io_apic =
  io_id :: u32
  io_physical_address :: u32
  io_global_interrupt_base :: u32

record acpi_madt_irq_override =
  global_interrupt :: u32
  override_flags :: u32
  override_present :: bool

record acpi_madt_table_info =
  local_apic_address :: u32
  madt_flags :: u32
  enabled_local_apics :: nat
  enabled_x2apics :: nat
  local_apic_id_bitmap :: "nat \<Rightarrow> u32"
  io_apic_count :: nat
  io_apics :: "acpi_madt_io_apic list"
  isa_overrides :: "acpi_madt_irq_override list"

definition madt_info_clear :: acpi_madt_table_info where
  "madt_info_clear =
     \<lparr>local_apic_address = 0, madt_flags = 0, enabled_local_apics = 0, enabled_x2apics = 0,
      local_apic_id_bitmap = (\<lambda>_. 0), io_apic_count = 0,
      io_apics = replicate ACPI_MADT_MAX_IO_APICS
        \<lparr>io_id = 0, io_physical_address = 0, io_global_interrupt_base = 0\<rparr>,
      isa_overrides = map (\<lambda>i. \<lparr>global_interrupt = of_nat i, override_flags = 0, override_present = False\<rparr>)
        [0 ..< ACPI_MADT_ISA_IRQ_COUNT]\<rparr>"

text \<open>
  The locals of \<open>acpi_parse_madt_table\<close>: the table under construction, the identifiers seen so far and
  whether the controller address was overridden. \<open>x2apic_ids\<close> is the used part of the C array.
\<close>

record madt_scan =
  parsed :: acpi_madt_table_info
  local_apic_ids :: "nat \<Rightarrow> bool"
  x2apic_ids :: "u32 list"
  address_override_seen :: bool

definition madt_processors :: "madt_scan \<Rightarrow> nat" where
  "madt_processors s = enabled_local_apics (parsed s) + enabled_x2apics (parsed s)"

definition madt_local_apic :: "bytes \<Rightarrow> nat \<Rightarrow> nat \<Rightarrow> madt_scan \<Rightarrow> madt_scan option" where
  "madt_local_apic bs off n s =
     (if n \<noteq> 8 then None
      else
        let apic_id = unat (bs ! (off + 3)); fl = le32 bs (off + 4) in
        if fl AND NOT 3 \<noteq> 0 \<or> fl AND 3 = 3 then None
        else if fl AND 1 \<noteq> 0 then
          (if local_apic_ids s apic_id \<or> madt_processors s \<ge> ACPI_MADT_MAX_PROCESSORS then None
           else Some (s\<lparr>local_apic_ids := (local_apic_ids s)(apic_id := True),
             parsed := (parsed s)
               \<lparr>local_apic_id_bitmap := bitmap_set (local_apic_id_bitmap (parsed s)) apic_id,
                enabled_local_apics := enabled_local_apics (parsed s) + 1\<rparr>\<rparr>))
        else Some s)"

definition madt_io_apic :: "bytes \<Rightarrow> nat \<Rightarrow> nat \<Rightarrow> madt_scan \<Rightarrow> madt_scan option" where
  "madt_io_apic bs off n s =
     (let count = io_apic_count (parsed s) in
      if n \<noteq> 12 \<or> bs ! (off + 3) \<noteq> 0 \<or> count \<ge> ACPI_MADT_MAX_IO_APICS then None
      else
        let id = ucast (bs ! (off + 2)); address = le32 bs (off + 4) in
        if \<not> madt_mmio_address_valid address then None
        else if list_ex (\<lambda>i. io_id (io_apics (parsed s) ! i) = id \<or>
            io_physical_address (io_apics (parsed s) ! i) = address) [0 ..< count] then None
        else Some (s\<lparr>parsed := (parsed s)\<lparr>io_apic_count := count + 1,
          io_apics := (io_apics (parsed s))[count := \<lparr>io_id = id, io_physical_address = address,
            io_global_interrupt_base = le32 bs (off + 8)\<rparr>]\<rparr>\<rparr>))"

definition madt_source_override :: "bytes \<Rightarrow> nat \<Rightarrow> nat \<Rightarrow> madt_scan \<Rightarrow> madt_scan option" where
  "madt_source_override bs off n s =
     (if n \<noteq> 10 \<or> bs ! (off + 2) \<noteq> 0 then None
      else
        let source = unat (bs ! (off + 3)); fl = le16 bs (off + 8) in
        if source \<ge> ACPI_MADT_ISA_IRQ_COUNT \<or> \<not> madt_interrupt_flags_valid fl \<or>
           override_present (isa_overrides (parsed s) ! source) then None
        else Some (s\<lparr>parsed := (parsed s)\<lparr>isa_overrides := (isa_overrides (parsed s))
          [source := \<lparr>global_interrupt = le32 bs (off + 4), override_flags = fl, override_present = True\<rparr>]\<rparr>\<rparr>))"

text \<open>Non-maskable sources (types 3, 4 and 10) are only checked.\<close>

definition madt_nmi_valid :: "bytes \<Rightarrow> nat \<Rightarrow> nat \<Rightarrow> u8 \<Rightarrow> bool" where
  "madt_nmi_valid bs off n kind =
     (if kind = 3 then n = 8 \<and> madt_interrupt_flags_valid (le16 bs (off + 2))
      else if kind = 4 then n = 6 \<and> bs ! (off + 5) \<le> 1 \<and> madt_interrupt_flags_valid (le16 bs (off + 3))
      else n = 12 \<and> bs ! (off + 8) \<le> 1 \<and> bs ! (off + 9) = 0 \<and> bs ! (off + 10) = 0 \<and>
        bs ! (off + 11) = 0 \<and> madt_interrupt_flags_valid (le16 bs (off + 2)))"

definition madt_address_override :: "bytes \<Rightarrow> nat \<Rightarrow> nat \<Rightarrow> madt_scan \<Rightarrow> madt_scan option" where
  "madt_address_override bs off n s =
     (if n \<noteq> 12 \<or> address_override_seen s \<or> le16 bs (off + 2) \<noteq> 0 then None
      else
        let address_low = le32 bs (off + 4); address_high = le32 bs (off + 8) in
        if address_high \<noteq> 0 \<or> \<not> madt_mmio_address_valid address_low then None
        else Some (s\<lparr>parsed := (parsed s)\<lparr>local_apic_address := address_low\<rparr>,
                     address_override_seen := True\<rparr>))"

definition madt_x2apic :: "bytes \<Rightarrow> nat \<Rightarrow> nat \<Rightarrow> madt_scan \<Rightarrow> madt_scan option" where
  "madt_x2apic bs off n s =
     (if n \<noteq> 16 \<or> le16 bs (off + 2) \<noteq> 0 then None
      else
        let apic_id = le32 bs (off + 4); fl = le32 bs (off + 8) in
        if fl AND NOT 3 \<noteq> 0 \<or> fl AND 3 = 3 then None
        else if fl AND 1 \<noteq> 0 then
          (if madt_processors s \<ge> ACPI_MADT_MAX_PROCESSORS then None
           else if apic_id \<in> set (x2apic_ids s) then None
           else Some (s\<lparr>x2apic_ids := x2apic_ids s @ [apic_id],
             parsed := (parsed s)\<lparr>enabled_x2apics := enabled_x2apics (parsed s) + 1\<rparr>\<rparr>))
        else Some s)"

definition madt_structure :: "bytes \<Rightarrow> nat \<Rightarrow> nat \<Rightarrow> madt_scan \<Rightarrow> madt_scan option" where
  "madt_structure bs off n s =
     (let kind = bs ! off in
      if kind = 0 then madt_local_apic bs off n s
      else if kind = 1 then madt_io_apic bs off n s
      else if kind = 2 then madt_source_override bs off n s
      else if kind = 3 \<or> kind = 4 \<or> kind = 10 then (if madt_nmi_valid bs off n kind then Some s else None)
      else if kind = 5 then madt_address_override bs off n s
      else if kind = 9 then madt_x2apic bs off n s
      else Some s)"

text \<open>The loop over the structures ends because every accepted structure is at least two bytes long.\<close>

function madt_walk :: "bytes \<Rightarrow> nat \<Rightarrow> nat \<Rightarrow> nat \<Rightarrow> madt_scan \<Rightarrow> madt_scan option" where
  "madt_walk bs len off structure_count s =
     (if off < len then
        (if len - off < 2 then None
         else
           let n = unat (bs ! (off + 1)) in
           if n < 2 \<or> n > len - off \<or> structure_count + 1 > 1024 then None
           else
             case madt_structure bs off n s of None \<Rightarrow> None
             | Some s' \<Rightarrow> madt_walk bs len (off + n) (structure_count + 1) s')
      else Some s)"
  by pat_completeness auto
termination by (relation "measure (\<lambda>(_, len, off, _). len - off)") auto

declare madt_walk.simps [simp del]

definition acpi_parse_madt_table :: "bytes \<Rightarrow> nat \<Rightarrow> acpi_madt_table_info option" where
  "acpi_parse_madt_table bs available =
     (case acpi_parse_sdt bs available ''APIC'' of None \<Rightarrow> None
      | Some len \<Rightarrow>
        if len < ACPI_MADT_HEADER_LENGTH \<or> bs ! 8 = 0 then None
        else
          let start = madt_info_clear\<lparr>local_apic_address := le32 bs 36, madt_flags := le32 bs 40\<rparr> in
          if madt_flags start AND NOT 1 \<noteq> 0 then None
          else
            case madt_walk bs len ACPI_MADT_HEADER_LENGTH 0 \<lparr>parsed = start, local_apic_ids = (\<lambda>_. False),
              x2apic_ids = [], address_override_seen = False\<rparr> of None \<Rightarrow> None
            | Some s \<Rightarrow>
              if madt_processors s = 0 \<or> \<not> madt_mmio_address_valid (local_apic_address (parsed s)) then None
              else if list_ex (\<lambda>i. io_physical_address (io_apics (parsed s) ! i) = local_apic_address (parsed s))
                [0 ..< io_apic_count (parsed s)] then None
              else Some (parsed s))"

section \<open>What an accepted table holds\<close>

text \<open>The offsets of the structures of a table, and what a structure of type 0, 1 or 9 describes.\<close>

function madt_offsets :: "bytes \<Rightarrow> nat \<Rightarrow> nat \<Rightarrow> nat list" where
  "madt_offsets bs len off =
     (if off < len \<and> 2 \<le> unat (bs ! (off + 1)) then off # madt_offsets bs len (off + unat (bs ! (off + 1))) else [])"
  by pat_completeness auto
termination by (relation "measure (\<lambda>(_, len, off). len - off)") auto

declare madt_offsets.simps [simp del]

definition io_apic_at :: "bytes \<Rightarrow> nat \<Rightarrow> acpi_madt_io_apic" where
  "io_apic_at bs off = \<lparr>io_id = ucast (bs ! (off + 2)), io_physical_address = le32 bs (off + 4),
     io_global_interrupt_base = le32 bs (off + 8)\<rparr>"

definition enabled_at :: "bytes \<Rightarrow> nat \<Rightarrow> u8 \<Rightarrow> nat \<Rightarrow> bool" where
  "enabled_at bs flags_at kind off \<longleftrightarrow> bs ! off = kind \<and> le32 bs (off + flags_at) AND 1 \<noteq> 0"

abbreviation isa_identity :: "nat \<Rightarrow> acpi_madt_irq_override" where
  "isa_identity i \<equiv> \<lparr>global_interrupt = of_nat i, override_flags = 0, override_present = False\<rparr>"

definition overrides_ok :: "acpi_madt_irq_override list \<Rightarrow> bool" where
  "overrides_ok os \<longleftrightarrow> length os = ACPI_MADT_ISA_IRQ_COUNT \<and>
     (\<forall>i < ACPI_MADT_ISA_IRQ_COUNT. madt_interrupt_flags_valid (override_flags (os ! i)) \<and>
        (\<not> override_present (os ! i) \<longrightarrow> os ! i = isa_identity i))"

definition io_apics_ok :: "acpi_madt_table_info \<Rightarrow> acpi_madt_io_apic list \<Rightarrow> bool" where
  "io_apics_ok t ios \<longleftrightarrow> length (io_apics t) = ACPI_MADT_MAX_IO_APICS \<and>
     io_apic_count t \<le> ACPI_MADT_MAX_IO_APICS \<and> take (io_apic_count t) (io_apics t) = ios \<and>
     distinct (map io_id ios) \<and> distinct (map io_physical_address ios) \<and>
     list_all (\<lambda>a. madt_mmio_address_valid (io_physical_address a)) ios"

definition processors_ok :: "acpi_madt_table_info \<Rightarrow> nat list \<Rightarrow> u32 list \<Rightarrow> bool" where
  "processors_ok t ids x2ids \<longleftrightarrow> distinct ids \<and> list_all (\<lambda>i. i < 256) ids \<and>
     (\<forall>i. bitmap_test (local_apic_id_bitmap t) i \<longleftrightarrow> i \<in> set ids) \<and>
     enabled_local_apics t = length ids \<and> distinct x2ids \<and> enabled_x2apics t = length x2ids \<and>
     length ids + length x2ids \<le> ACPI_MADT_MAX_PROCESSORS"

abbreviation io_of :: "bytes \<Rightarrow> nat list \<Rightarrow> acpi_madt_io_apic list" where
  "io_of bs offs \<equiv> map (io_apic_at bs) (filter (\<lambda>p. bs ! p = 1) offs)"

abbreviation ids_of :: "bytes \<Rightarrow> nat list \<Rightarrow> nat list" where
  "ids_of bs offs \<equiv> map (\<lambda>p. unat (bs ! (p + 3))) (filter (enabled_at bs 4 0) offs)"

abbreviation x2ids_of :: "bytes \<Rightarrow> nat list \<Rightarrow> u32 list" where
  "x2ids_of bs offs \<equiv> map (\<lambda>p. le32 bs (p + 4)) (filter (enabled_at bs 8 9) offs)"

definition madt_inv :: "bytes \<Rightarrow> nat list \<Rightarrow> madt_scan \<Rightarrow> bool" where
  "madt_inv bs offs s \<longleftrightarrow> overrides_ok (isa_overrides (parsed s)) \<and> io_apics_ok (parsed s) (io_of bs offs) \<and>
     processors_ok (parsed s) (ids_of bs offs) (x2ids_of bs offs) \<and>
     (\<forall>i. local_apic_ids s i \<longleftrightarrow> i \<in> set (ids_of bs offs)) \<and> x2apic_ids s = x2ids_of bs offs \<and>
     madt_flags (parsed s) = le32 bs 40"

lemmas madt_inv_defs = madt_inv_def enabled_at_def processors_ok_def io_apics_ok_def overrides_ok_def

lemma u8_unat_bound: "unat (b::u8) < 256"
  using unsigned_less [of b, where 'a = nat] by simp

text \<open>Each part of the invariant reads its own fields only.\<close>

lemma io_apics_ok_frame [simp]:
  "io_apics_ok (t\<lparr>local_apic_id_bitmap := m, enabled_local_apics := k\<rparr>) = io_apics_ok t"
  "io_apics_ok (t\<lparr>enabled_x2apics := k\<rparr>) = io_apics_ok t" "io_apics_ok (t\<lparr>local_apic_address := a\<rparr>) = io_apics_ok t"
  "io_apics_ok (t\<lparr>isa_overrides := os\<rparr>) = io_apics_ok t"
  by (simp_all add: fun_eq_iff io_apics_ok_def)

lemma processors_ok_frame [simp]:
  "processors_ok (t\<lparr>local_apic_address := a\<rparr>) = processors_ok t" "processors_ok (t\<lparr>isa_overrides := os\<rparr>) = processors_ok t"
  "processors_ok (t\<lparr>io_apic_count := c, io_apics := xs\<rparr>) = processors_ok t"
  by (simp_all add: fun_eq_iff processors_ok_def)

lemma processors_ok_local:
  "processors_ok t ids xs \<Longrightarrow> i \<notin> set ids \<Longrightarrow> i < 256 \<Longrightarrow> length ids + length xs < ACPI_MADT_MAX_PROCESSORS \<Longrightarrow>
   processors_ok (t\<lparr>local_apic_id_bitmap := bitmap_set (local_apic_id_bitmap t) i,
     enabled_local_apics := Suc (enabled_local_apics t)\<rparr>) (ids @ [i]) xs"
  by (auto simp: processors_ok_def)

lemma processors_ok_x2apic:
  "processors_ok t ids xs \<Longrightarrow> x \<notin> set xs \<Longrightarrow> length ids + length xs < ACPI_MADT_MAX_PROCESSORS \<Longrightarrow>
   processors_ok (t\<lparr>enabled_x2apics := Suc (enabled_x2apics t)\<rparr>) ids (xs @ [x])"
  by (auto simp: processors_ok_def)

lemma madt_processors_inv: "madt_inv bs offs s \<Longrightarrow> madt_processors s = length (ids_of bs offs) + length (x2ids_of bs offs)"
  by (simp add: madt_inv_def processors_ok_def madt_processors_def)

lemma madt_local_apic_inv:
  assumes inv: "madt_inv bs offs s" and off: "bs ! off = 0" and step: "madt_local_apic bs off n s = Some s'"
  shows "madt_inv bs (offs @ [off]) s'"
proof (cases "le32 bs (off + 4) AND 1 = 0")
  case True
  then have "s' = s" using step by (simp add: madt_local_apic_def Let_def split: if_splits)
  with True inv off show ?thesis by (simp add: madt_inv_def enabled_at_def)
next
  case False
  define i where "i = unat (bs ! (off + 3))"
  define ids where "ids = ids_of bs offs"
  have fresh: "\<not> local_apic_ids s i" and room: "madt_processors s < ACPI_MADT_MAX_PROCESSORS"
    and s': "s' = s\<lparr>local_apic_ids := (local_apic_ids s)(i := True),
       parsed := (parsed s)\<lparr>local_apic_id_bitmap := bitmap_set (local_apic_id_bitmap (parsed s)) i,
         enabled_local_apics := Suc (enabled_local_apics (parsed s))\<rparr>\<rparr>"
    using step False by (simp_all add: madt_local_apic_def Let_def i_def split: if_splits)
  have "ids_of bs (offs @ [off]) = ids @ [i]" "x2ids_of bs (offs @ [off]) = x2ids_of bs offs"
    "io_of bs (offs @ [off]) = io_of bs offs" using off False by (simp_all add: enabled_at_def i_def ids_def)
  moreover have "processors_ok (parsed s') (ids @ [i]) (x2ids_of bs offs)"
    using inv fresh room u8_unat_bound madt_processors_inv [OF inv]
    unfolding s' by (auto simp: madt_inv_def i_def ids_def intro!: processors_ok_local)
  ultimately show ?thesis using inv by (auto simp: madt_inv_def s' ids_def)
qed

lemma madt_x2apic_inv:
  assumes inv: "madt_inv bs offs s" and off: "bs ! off = 9" and step: "madt_x2apic bs off n s = Some s'"
  shows "madt_inv bs (offs @ [off]) s'"
proof (cases "le32 bs (off + 8) AND 1 = 0")
  case True
  then have "s' = s" using step by (simp add: madt_x2apic_def Let_def split: if_splits)
  with True inv off show ?thesis by (simp add: madt_inv_def enabled_at_def)
next
  case False
  define x where "x = le32 bs (off + 4)"
  have fresh: "x \<notin> set (x2apic_ids s)" and room: "madt_processors s < ACPI_MADT_MAX_PROCESSORS"
    and s': "s' = s\<lparr>x2apic_ids := x2apic_ids s @ [x],
       parsed := (parsed s)\<lparr>enabled_x2apics := Suc (enabled_x2apics (parsed s))\<rparr>\<rparr>"
    using step False by (simp_all add: madt_x2apic_def Let_def x_def split: if_splits)
  have "ids_of bs (offs @ [off]) = ids_of bs offs" "x2ids_of bs (offs @ [off]) = x2ids_of bs offs @ [x]"
    "io_of bs (offs @ [off]) = io_of bs offs" using off False by (simp_all add: enabled_at_def x_def)
  moreover have "processors_ok (parsed s') (ids_of bs offs) (x2ids_of bs offs @ [x])"
    using inv fresh room madt_processors_inv [OF inv]
    unfolding s' by (auto simp: madt_inv_def intro!: processors_ok_x2apic)
  ultimately show ?thesis using inv by (simp add: madt_inv_def s')
qed

lemma madt_inv_other:
  "madt_inv bs offs s \<Longrightarrow> bs ! off \<notin> {0, 1, 9} \<Longrightarrow> madt_inv bs (offs @ [off]) s"
  by (simp add: madt_inv_def enabled_at_def)

lemma madt_address_override_inv:
  assumes "madt_inv bs offs s" "madt_address_override bs off n s = Some s'"
  shows "madt_inv bs offs s'"
  using assms by (auto simp: madt_inv_def madt_address_override_def Let_def split: if_splits)

lemma overrides_ok_set:
  "overrides_ok os \<Longrightarrow> madt_interrupt_flags_valid (override_flags x) \<Longrightarrow> override_present x \<Longrightarrow> overrides_ok (os[i := x])"
  by (cases "i < length os") (auto simp: overrides_ok_def nth_list_update)

lemma madt_source_override_inv:
  assumes inv: "madt_inv bs offs s" and step: "madt_source_override bs off n s = Some s'"
  shows "madt_inv bs offs s'"
proof -
  obtain i x where "s' = s\<lparr>parsed := (parsed s)\<lparr>isa_overrides := (isa_overrides (parsed s))[i := x]\<rparr>\<rparr>"
    "madt_interrupt_flags_valid (override_flags x)" "override_present x"
    using step by (fastforce simp: madt_source_override_def Let_def split: if_splits)
  with inv show ?thesis by (simp add: madt_inv_def overrides_ok_set)
qed

lemma take_list_update_grow:
  "n < length xs \<Longrightarrow> take (Suc n) (xs[n := x]) = take n xs @ [x]"
  by (simp add: take_Suc_conv_app_nth)

lemma scan_prefix: "c \<le> length xs \<Longrightarrow> list_ex (\<lambda>i. P (xs ! i)) [0 ..< c] \<longleftrightarrow> (\<exists>x \<in> set (take c xs). P x)"
  by (auto simp: list_ex_iff in_set_conv_nth Bex_def)

lemma madt_io_apic_inv:
  assumes inv: "madt_inv bs offs s" and "bs ! off = 1" and step: "madt_io_apic bs off n s = Some s'"
  shows "madt_inv bs (offs @ [off]) s'"
proof -
  define c where "c = io_apic_count (parsed s)"
  define ios where "ios = take c (io_apics (parsed s))"
  have c: "c < ACPI_MADT_MAX_IO_APICS" and v: "madt_mmio_address_valid (le32 bs (off + 4))"
    and new: "\<not> list_ex (\<lambda>i. io_id (io_apics (parsed s) ! i) = ucast (bs ! (off + 2)) \<or>
       io_physical_address (io_apics (parsed s) ! i) = le32 bs (off + 4)) [0 ..< c]"
    and s': "s' = s\<lparr>parsed := (parsed s)\<lparr>io_apic_count := c + 1,
       io_apics := (io_apics (parsed s))[c := io_apic_at bs off]\<rparr>\<rparr>"
    using step by (auto simp: madt_io_apic_def c_def io_apic_at_def Let_def split: if_splits)
  have l: "length (io_apics (parsed s)) = ACPI_MADT_MAX_IO_APICS"
    and ios_eq: "io_of bs offs = ios"
    using inv by (auto simp: madt_inv_defs c_def ios_def)
  have fresh: "ucast (bs ! (off + 2)) \<notin> io_id ` set ios" "le32 bs (off + 4) \<notin> io_physical_address ` set ios"
    using new c l scan_prefix [of c "io_apics (parsed s)" "\<lambda>x. io_id x = ucast (bs ! (off + 2)) \<or>
      io_physical_address x = le32 bs (off + 4)"] by (auto simp: ios_def)
  have taken: "take (Suc c) ((io_apics (parsed s))[c := io_apic_at bs off]) = ios @ [io_apic_at bs off]"
    using c l by (simp add: take_list_update_grow ios_def)
  have "io_apics_ok (parsed s) ios" using inv by (simp add: madt_inv_def ios_eq)
  then have "io_apics_ok (parsed s') (ios @ [io_apic_at bs off])"
    using c l v taken fresh
    by (auto simp: io_apics_ok_def s' io_apic_at_def simp del: take_Suc_conv_app_nth)
  moreover have "io_of bs (offs @ [off]) = ios @ [io_apic_at bs off]"
    using ios_eq assms(2) by simp
  ultimately have "io_apics_ok (parsed s') (io_of bs (offs @ [off]))" by simp
  then show ?thesis
    using inv assms(2) by (auto simp: madt_inv_def s' enabled_at_def processors_ok_def)
qed

lemma madt_structure_inv:
  assumes inv: "madt_inv bs offs s" and step: "madt_structure bs off n s = Some s'"
  shows "madt_inv bs (offs @ [off]) s'"
proof -
  consider "bs ! off = 0" | "bs ! off = 1" | "bs ! off = 2" | "bs ! off = 5" | "bs ! off = 9"
    | "bs ! off \<notin> {0, 1, 2, 5, 9}" by blast
  then show ?thesis
  proof cases
    case 1 with inv step show ?thesis by (simp add: madt_structure_def madt_local_apic_inv)
  next
    case 2 with inv step show ?thesis by (simp add: madt_structure_def madt_io_apic_inv)
  next
    case 3
    with step have "madt_source_override bs off n s = Some s'" by (simp add: madt_structure_def)
    with inv have "madt_inv bs offs s'" by (rule madt_source_override_inv)
    with 3 show ?thesis by (simp add: madt_inv_other)
  next
    case 4
    with step have "madt_address_override bs off n s = Some s'" by (simp add: madt_structure_def)
    with inv have "madt_inv bs offs s'" by (rule madt_address_override_inv)
    with 4 show ?thesis by (simp add: madt_inv_other)
  next
    case 5 with inv step show ?thesis by (simp add: madt_structure_def madt_x2apic_inv)
  next
    case 6
    with step have "s' = s" by (simp add: madt_structure_def Let_def split: if_splits)
    with 6 inv show ?thesis by (simp add: madt_inv_other)
  qed
qed

lemma madt_walk_inv:
  assumes "madt_inv bs offs s" "madt_walk bs len off k s = Some s'"
  shows "madt_inv bs (offs @ madt_offsets bs len off) s'"
  using assms
proof (induction bs len off k s arbitrary: offs rule: madt_walk.induct)
  case (1 bs len off k s)
  show ?case
  proof (cases "off < len")
    case False
    then show ?thesis using "1.prems" by (simp add: madt_walk.simps [of _ _ off] madt_offsets.simps [of _ _ off])
  next
    case True
    define n where "n = unat (bs ! (off + 1))"
    from "1.prems" True obtain t where n: "2 \<le> n" "\<not> len - off < 2" "n \<le> len - off" "k + 1 \<le> 1024"
      and t: "madt_structure bs off n s = Some t" "madt_walk bs len (off + n) (k + 1) t = Some s'"
      by (subst (asm) (2) madt_walk.simps) (auto simp: n_def Let_def split: if_splits option.splits)
    from "1.IH" [OF True n(2) n_def _ t(1) madt_structure_inv [OF "1.prems"(1) t(1)] t(2)] n True
    show ?thesis by (simp add: madt_offsets.simps [of _ _ off] n_def)
  qed
qed

text \<open>C39: When \<open>acpi_parse_madt_table\<close> accepts a table, its result lists the I/O interrupt controllers of the table in
  order, with pairwise different identifiers and pairwise different valid page addresses, none of them the address of
  the local controller. The identifier bitmap holds exactly the enabled processors, each described once; the counters
  are their numbers, at least one and at most 256 processors altogether. Every legacy interrupt without an override
  keeps its identity mapping, and all interrupt flags are valid.
\<close>
theorem madt_parse_exact:
  assumes "acpi_parse_madt_table bs available = Some t"
  shows "let offs = madt_offsets bs (unat (le32 bs 4)) ACPI_MADT_HEADER_LENGTH in
    overrides_ok (isa_overrides t) \<and> io_apics_ok t (io_of bs offs) \<and>
    processors_ok t (ids_of bs offs) (x2ids_of bs offs) \<and> 1 \<le> enabled_local_apics t + enabled_x2apics t \<and>
    madt_mmio_address_valid (local_apic_address t) \<and>
    local_apic_address t \<notin> io_physical_address ` set (io_of bs offs) \<and> madt_flags t = le32 bs 40"
proof -
  define start where "start = madt_info_clear\<lparr>local_apic_address := le32 bs 36, madt_flags := le32 bs 40\<rparr>"
  define s0 where "s0 = \<lparr>parsed = start, local_apic_ids = (\<lambda>_. False), x2apic_ids = [], address_override_seen = False\<rparr>"
  obtain len s where len: "acpi_parse_sdt bs available ''APIC'' = Some len"
    and walk: "madt_walk bs len ACPI_MADT_HEADER_LENGTH 0 s0 = Some s" and t: "t = parsed s"
    and n: "madt_processors s \<noteq> 0" and v: "madt_mmio_address_valid (local_apic_address (parsed s))"
    and io: "\<not> list_ex (\<lambda>i. io_physical_address (io_apics (parsed s) ! i) = local_apic_address (parsed s))
       [0 ..< io_apic_count (parsed s)]"
    using assms by (auto simp: acpi_parse_madt_table_def s0_def start_def Let_def split: option.splits if_splits)
  have l: "len = unat (le32 bs 4)"
    using len by (auto simp: acpi_parse_sdt_def acpi_sdt_peek_length_def Let_def split: option.splits if_splits)
  have "madt_inv bs [] s0"
    by (simp add: madt_inv_defs s0_def start_def madt_info_clear_def madt_interrupt_flags_valid_def)
  from madt_walk_inv [OF this walk] have inv: "madt_inv bs (madt_offsets bs len ACPI_MADT_HEADER_LENGTH) s" by simp
  define ios where "ios = io_of bs (madt_offsets bs len ACPI_MADT_HEADER_LENGTH)"
  have "io_apics_ok t ios" using inv by (simp add: madt_inv_def t ios_def)
  then have "local_apic_address t \<notin> io_physical_address ` set ios"
    using io scan_prefix [of "io_apic_count t" "io_apics t" "\<lambda>x. io_physical_address x = local_apic_address t"]
    by (auto simp: io_apics_ok_def t)
  then show ?thesis
    using inv n v by (simp add: madt_inv_def Let_def t madt_processors_def ios_def l Suc_le_eq)
qed

section \<open>The parsers read inside the mapped bytes\<close>

definition agree :: "nat \<Rightarrow> bytes \<Rightarrow> bytes \<Rightarrow> bool" where
  "agree n bs bs' \<longleftrightarrow> (\<forall>i < n. bs ! i = bs' ! i)"

lemma agree_nth: "agree n bs bs' \<Longrightarrow> i < n \<Longrightarrow> bs ! i = bs' ! i"
  by (simp add: agree_def)

lemma agree_le32: "agree n bs bs' \<Longrightarrow> i + 3 < n \<Longrightarrow> le32 bs i = le32 bs' i"
  by (simp add: agree_def le32_def)

lemma agree_le16: "agree n bs bs' \<Longrightarrow> i + 1 < n \<Longrightarrow> le16 bs i = le16 bs' i"
  by (simp add: agree_def le16_def)

lemma agree_bytes_equal: "agree n bs bs' \<Longrightarrow> k \<le> n \<Longrightarrow> bytes_equal bs xs k = bytes_equal bs' xs k"
  by (auto simp: agree_def bytes_equal_def list_all_iff)

lemma agree_checksum: "agree n bs bs' \<Longrightarrow> k \<le> n \<Longrightarrow> acpi_checksum_valid bs k = acpi_checksum_valid bs' k"
  unfolding acpi_checksum_valid_def
  by (intro if_cong refl arg_cong2 [where f = "(=)"] fold_cong) (auto simp: agree_def fun_eq_iff intro!: fold_cong)

lemmas agree_reads = agree_nth agree_le32 agree_le16 agree_bytes_equal agree_checksum

lemma agree_rsdp:
  assumes "agree available bs bs'"
  shows "acpi_parse_rsdp bs available = acpi_parse_rsdp bs' available"
proof (cases "available < 36")
  case True
  then show ?thesis
    using agree_reads [OF assms] by (auto simp: acpi_parse_rsdp_def Let_def)
next
  case False
  then show ?thesis
    using agree_reads [OF assms] by (auto simp: acpi_parse_rsdp_def Let_def)
qed

lemma agree_sdt:
  assumes "agree available bs bs'"
  shows "acpi_parse_sdt bs available sig = acpi_parse_sdt bs' available sig"
proof (cases "available < 36")
  case False
  then show ?thesis
    using agree_reads [OF assms] by (auto simp: acpi_parse_sdt_def acpi_sdt_peek_length_def Let_def)
qed (simp add: acpi_parse_sdt_def acpi_sdt_peek_length_def)

lemma sdt_length: "acpi_parse_sdt bs available sig = Some n \<Longrightarrow> 36 \<le> n \<and> n \<le> available \<and> n \<le> 65536"
  by (auto simp: acpi_parse_sdt_def acpi_sdt_peek_length_def Let_def split: option.splits if_splits)

lemma agree_structure:
  assumes "agree available bs bs'" "off + n \<le> available" "2 \<le> n"
  shows "madt_structure bs off n s = madt_structure bs' off n s"
proof -
  have kind: "bs ! off = bs' ! off" using agree_nth [OF assms(1)] assms by simp
  note reads = agree_reads [OF assms(1)] assms(2)
  have "madt_local_apic bs off n s = madt_local_apic bs' off n s"
    using reads by (cases "n = 8") (simp_all add: madt_local_apic_def Let_def)
  moreover have "madt_io_apic bs off n s = madt_io_apic bs' off n s"
    using reads by (cases "n = 12") (simp_all add: madt_io_apic_def Let_def)
  moreover have "madt_source_override bs off n s = madt_source_override bs' off n s"
    using reads by (cases "n = 10") (simp_all add: madt_source_override_def Let_def)
  moreover have "madt_x2apic bs off n s = madt_x2apic bs' off n s"
    using reads by (cases "n = 16") (simp_all add: madt_x2apic_def Let_def)
  moreover have "madt_address_override bs off n s = madt_address_override bs' off n s"
    using reads by (cases "n = 12") (simp_all add: madt_address_override_def Let_def)
  moreover have "madt_nmi_valid bs off n (bs' ! off) = madt_nmi_valid bs' off n (bs' ! off)"
    using agree_reads [OF assms(1)] assms(2) by (auto simp: madt_nmi_valid_def)
  ultimately show ?thesis by (simp add: madt_structure_def kind Let_def)
qed

lemma agree_walk:
  assumes "agree available bs bs'" "len \<le> available"
  shows "madt_walk bs len off k s = madt_walk bs' len off k s"
  using assms
proof (induction bs len off k s rule: madt_walk.induct)
  case (1 bs len off k s)
  show ?case
  proof (cases "off < len \<and> \<not> len - off < 2")
    case False
    then show ?thesis by (auto simp: madt_walk.simps [of _ _ off])
  next
    case True
    define n where "n = unat (bs ! (off + 1))"
    have n': "unat (bs' ! (off + 1)) = n" 
      using agree_nth [OF "1.prems"(1), of "off + 1"] "1.prems"(2) True by (auto simp: n_def)
    show ?thesis
    proof (cases "n < 2 \<or> n > len - off \<or> k + 1 > 1024")
      case True
      then show ?thesis
        by (subst madt_walk.simps, subst madt_walk.simps) (simp add: n' Let_def n_def [symmetric] del: One_nat_def)
    next
      case ok: False
      then have "madt_structure bs off n s = madt_structure bs' off n s"
        using "1.prems" by (intro agree_structure) auto
      with ok "1.IH" True "1.prems" show ?thesis
        by (subst madt_walk.simps, subst madt_walk.simps)
          (auto simp: n' Let_def n_def [symmetric] split: option.splits simp del: One_nat_def)
    qed
  qed
qed

lemma entry_inside:
  fixes n k i :: nat
  assumes "i < (n - 36) div k" "n \<le> available" "0 < k"
  shows "36 + i * k + (k - 1) < available"
proof -
  have "Suc i * k \<le> (n - 36) div k * k" using assms(1) by (intro mult_right_mono) auto
  also have "\<dots> \<le> n - 36" by (rule div_times_less_eq_dividend)
  finally have *: "i * k + k \<le> n - 36" by simp
  then have "0 < n - 36" using assms(3) by linarith
  then show ?thesis using * assms by linarith
qed

lemma agree_rsdt:
  assumes "agree available bs bs'"
  shows "acpi_rsdt_entry_at bs available i = acpi_rsdt_entry_at bs' available i"
proof (cases "acpi_parse_sdt bs' available ''RSDT''")
  case (Some n)
  show ?thesis
  proof (cases "i < (n - 36) div 4")
    case True
    with sdt_length [OF Some] have "36 + i * 4 + 3 < available" using entry_inside [of i n 4 available] by simp
    with agree_le32 [OF assms] have eq: "le32 bs (36 + i * 4) = le32 bs' (36 + i * 4)" by blast
    show ?thesis unfolding acpi_rsdt_entry_at_def agree_sdt [OF assms] Some option.case eq ..
  qed (simp add: acpi_rsdt_entry_at_def agree_sdt [OF assms] Some Let_def)
qed (simp add: acpi_rsdt_entry_at_def agree_sdt [OF assms])

lemma agree_xsdt:
  assumes "agree available bs bs'"
  shows "acpi_xsdt_entry_at bs available i = acpi_xsdt_entry_at bs' available i"
proof (cases "acpi_parse_sdt bs' available ''XSDT''")
  case (Some n)
  show ?thesis
  proof (cases "i < (n - 36) div 8")
    case True
    with sdt_length [OF Some] have "36 + i * 8 + 7 < available" using entry_inside [of i n 8 available] by simp
    then have eq: "le32 bs (36 + i * 8) = le32 bs' (36 + i * 8)"
      "le32 bs (36 + i * 8 + 4) = le32 bs' (36 + i * 8 + 4)"
      by (intro agree_le32 [OF assms]; linarith)+
    show ?thesis unfolding acpi_xsdt_entry_at_def agree_sdt [OF assms] Some option.case Let_def eq ..
  qed (simp add: acpi_xsdt_entry_at_def agree_sdt [OF assms] Some Let_def)
qed (simp add: acpi_xsdt_entry_at_def agree_sdt [OF assms])

lemma agree_hpet:
  assumes "agree available bs bs'"
  shows "acpi_parse_hpet_table bs available = acpi_parse_hpet_table bs' available"
proof (cases "acpi_parse_sdt bs' available ''HPET''")
  case (Some n)
  show ?thesis
  proof (cases "n < ACPI_HPET_TABLE_MIN_LENGTH")
    case False
    then have "le32 bs 36 = le32 bs' 36" "le32 bs 44 = le32 bs' 44" "le32 bs 48 = le32 bs' 48" "le16 bs 53 = le16 bs' 53"
      "bs ! 8 = bs' ! 8" "bs ! 40 = bs' ! 40" "bs ! 41 = bs' ! 41" "bs ! 42 = bs' ! 42" "bs ! 43 = bs' ! 43"
      "bs ! 52 = bs' ! 52" "bs ! 55 = bs' ! 55"
      using sdt_length [OF Some] agree_reads [OF assms] by simp_all
    note eqs = this
    show ?thesis unfolding acpi_parse_hpet_table_def agree_sdt [OF assms] Some eqs option.case ..
  qed (simp add: acpi_parse_hpet_table_def agree_sdt [OF assms] Some)
qed (simp add: acpi_parse_hpet_table_def agree_sdt [OF assms])

lemma agree_madt:
  assumes "agree available bs bs'"
  shows "acpi_parse_madt_table bs available = acpi_parse_madt_table bs' available"
proof (cases "acpi_parse_sdt bs' available ''APIC''")
  case (Some n)
  show ?thesis
  proof (cases "n < ACPI_MADT_HEADER_LENGTH")
    case False
    then have "le32 bs 36 = le32 bs' 36" "le32 bs 40 = le32 bs' 40" "bs ! 8 = bs' ! 8"
      using sdt_length [OF Some] agree_reads [OF assms] by simp_all
    note eqs = this
    have walk: "madt_walk bs n off k s = madt_walk bs' n off k s" for off k s
      using agree_walk [OF assms] sdt_length [OF Some] by simp
    show ?thesis unfolding acpi_parse_madt_table_def agree_sdt [OF assms] Some eqs option.case walk ..
  qed (simp add: acpi_parse_madt_table_def agree_sdt [OF assms] Some)
qed (simp add: acpi_parse_madt_table_def agree_sdt [OF assms])

text \<open>C40: The table parsers take no decision on bytes the caller did not map: two memories that agree on the first
  \<open>available\<close> bytes give the same verdict and the same result, for the root pointer, both root tables, the timer table
  and the interrupt controller table, whatever lengths the firmware wrote into them.
\<close>
theorem acpi_parsers_bounded:
  assumes "agree available bs bs'"
  shows "acpi_parse_rsdp bs available = acpi_parse_rsdp bs' available \<and>
    acpi_rsdt_entry_at bs available i = acpi_rsdt_entry_at bs' available i \<and>
    acpi_xsdt_entry_at bs available i = acpi_xsdt_entry_at bs' available i \<and>
    acpi_parse_hpet_table bs available = acpi_parse_hpet_table bs' available \<and>
    acpi_parse_madt_table bs available = acpi_parse_madt_table bs' available"
proof (intro conjI)
  show "acpi_parse_rsdp bs available = acpi_parse_rsdp bs' available" by (rule agree_rsdp [OF assms])
  show "acpi_rsdt_entry_at bs available i = acpi_rsdt_entry_at bs' available i" by (rule agree_rsdt [OF assms])
  show "acpi_xsdt_entry_at bs available i = acpi_xsdt_entry_at bs' available i" by (rule agree_xsdt [OF assms])
  show "acpi_parse_hpet_table bs available = acpi_parse_hpet_table bs' available" by (rule agree_hpet [OF assms])
  show "acpi_parse_madt_table bs available = acpi_parse_madt_table bs' available" by (rule agree_madt [OF assms])
qed

section \<open>A sample table\<close>

text \<open>Two enabled processors, one I/O controller and the usual override of interrupt 0.\<close>

definition sample_madt :: bytes where
  "sample_madt =
    [65, 80, 73, 67, 82, 0, 0, 0, 3, 191, 0, 0, 0, 0, 0, 0, 0, 0, 0, 0, 0, 0, 0, 0, 0, 0, 0, 0, 0, 0, 0,
     0, 0, 0, 0, 0, 0, 0, 224, 254, 1, 0, 0, 0, 0, 8, 0, 0, 1, 0, 0, 0, 0, 8, 1, 2, 1, 0, 0, 0, 1, 12, 2,
     0, 0, 0, 192, 254, 0, 0, 0, 0, 2, 10, 0, 0, 2, 0, 0, 0, 0, 0]"

lemma checksum_take:
  "n \<le> length bs \<Longrightarrow> acpi_checksum_valid bs n \<longleftrightarrow> n \<noteq> 0 \<and> sum_list (take n bs) = 0"
proof -
  have "n \<le> length bs \<Longrightarrow> fold (\<lambda>i acc. acc + bs ! i) [0 ..< n] 0 = sum_list (take n bs)"
    by (induction n) (simp_all add: take_Suc_conv_app_nth)
  then show "n \<le> length bs \<Longrightarrow> acpi_checksum_valid bs n \<longleftrightarrow> n \<noteq> 0 \<and> sum_list (take n bs) = 0"
    by (simp add: acpi_checksum_valid_def)
qed

lemma sample_madt_sdt: "acpi_parse_sdt sample_madt 82 ''APIC'' = Some 82"
proof -
  have "ascii ''APIC'' = [65, 80, 73, 67]" by code_simp
  moreover have "unat (le32 sample_madt 4) = 82" by code_simp
  ultimately have "acpi_sdt_peek_length sample_madt 82 ''APIC'' = Some 82"
    by (simp add: acpi_sdt_peek_length_def bytes_equal_def sample_madt_def upt_rec)
  moreover have "acpi_checksum_valid sample_madt 82" by (simp add: checksum_take sample_madt_def)
  ultimately show ?thesis by (simp add: acpi_parse_sdt_def)
qed
lemma sample_madt_accepted: "acpi_parse_madt_table sample_madt 82 \<noteq> None"
proof -
  define s0 where "s0 = \<lparr>parsed = madt_info_clear\<lparr>local_apic_address := le32 sample_madt 36, madt_flags := le32 sample_madt 40\<rparr>,
    local_apic_ids = (\<lambda>_. False), x2apic_ids = [], address_override_seen = False\<rparr>"
  define good where "good = (\<lambda>r. case r of None \<Rightarrow> False | Some s \<Rightarrow> madt_processors s \<noteq> 0 \<and>
    madt_mmio_address_valid (local_apic_address (parsed s)) \<and>
    \<not> list_ex (\<lambda>i. io_physical_address (io_apics (parsed s) ! i) = local_apic_address (parsed s)) [0 ..< io_apic_count (parsed s)])"
  have "good (madt_walk sample_madt 82 44 0 s0)" unfolding good_def s0_def by code_simp
  moreover have "sample_madt ! 8 \<noteq> 0" "le32 sample_madt 40 AND NOT 1 = 0" by code_simp+
  ultimately show ?thesis
    by (auto simp: acpi_parse_madt_table_def sample_madt_sdt s0_def [symmetric] good_def split: option.splits)
qed

theorem madt_parse_exact_witness:
  "let t = the (acpi_parse_madt_table sample_madt 82) in
   take (io_apic_count t) (io_apics t) = [io_apic_at sample_madt 60] \<and>
   io_apics_ok t [io_apic_at sample_madt 60] \<and> processors_ok t [0, 2] []"
proof -
  obtain t where some: "acpi_parse_madt_table sample_madt 82 = Some t" using sample_madt_accepted by auto
  have offs: "madt_offsets sample_madt (unat (le32 sample_madt 4)) ACPI_MADT_HEADER_LENGTH = [44, 52, 60, 72]"
    by code_simp
  have "io_of sample_madt [44, 52, 60, 72] = [io_apic_at sample_madt 60]" "ids_of sample_madt [44, 52, 60, 72] = [0, 2]"
    "x2ids_of sample_madt [44, 52, 60, 72] = []"
    by code_simp+
  with madt_parse_exact [OF some] show ?thesis
    unfolding offs Let_def some option.sel by (simp add: io_apics_ok_def)
qed

theorem acpi_parsers_bounded_witness:
  "acpi_parse_madt_table (sample_madt @ [1, 2, 3]) 82 = acpi_parse_madt_table sample_madt 82"
proof -
  have "length sample_madt = 82" by code_simp
  then have "agree 82 (sample_madt @ [1, 2, 3]) sample_madt" by (simp add: agree_def nth_append)
  from acpi_parsers_bounded [OF this, of 0] show ?thesis by (elim conjE)
qed

end
