(* ===== verification/Spec2Isabelle.thy ===== *)
theory Spec2Isabelle
  imports Pmm Ipc Keyboard JournalLog Ramfs Persistent PciMsi Pci BlockDevice Ata AtaTrace Fat FatFiles Vfs Features PagingInit Clock Acpi
begin

text \<open>
  EfesOS is a 32-bit x86 teaching kernel. Stage 2 of the boot loader leaves a block of boot information; the kernel
  builds its frame allocator and page tables from it, starts a round-robin scheduler with messages between tasks,
  probes PCI, ATA and the ACPI tables, mounts a FAT16 volume, and keeps a small RAM file system whose changes are
  committed to a journal at the end of the disk. This library models these parts as executable HOL functions and
  proves what each of them promises.

  \<^bold>\<open>How the code is represented.\<close> C integers are words of their width, so additions wrap as in the source. Arrays are
  lists or, for physical memory and configuration space, functions from addresses. Static variables of a file are the
  fields of one record, and a function that changes them returns the new record. Drivers that issue long sequences of
  register accesses are written in the state monad over an unknown hardware state: a port read is an arbitrary
  function of that state, so that what is proved holds for every device. Callbacks (sector read and write, register
  access) are arguments. Interrupt masking has no state of its own, because the modelled functions mask interrupts
  for their whole body; the one place where an interrupt matters, the waiting loop of the ATA driver, delivers it at
  the pause of the loop.

  \<^bold>\<open>The theories.\<close>
  \<^item> \<open>Prelude\<close>: word types, bit masks, little-endian access, C strings, array scans. \<open>Effects\<close>: loops in the state
    monad and the program logic \<open>hoare\<close> and \<open>keeps\<close>. \<open>Ring\<close>: circular buffers and the interface \<open>fifo_queue\<close>.
    \<open>Machine\<close>: ports and memory (\<open>cpu/io.h\<close>).
  \<^item> \<open>BootInfo\<close> (\<open>include/boot_info.h\<close>, \<open>memory/e820.c\<close>) and \<open>Pmm\<close> (\<open>memory/pmm.c\<close>): validation of the boot block, the
    two passes over the memory map, the bitmap allocator. The allocator refines an abstract pool of frames over every
    sequence of calls; initialisation manages exactly the frames the map offers; a frame is never handed out twice.
  \<^item> \<open>Features\<close> (\<open>cpu/features.c\<close>), \<open>Paging\<close> (\<open>memory/paging.c\<close>): both table formats. \<open>PagingMap\<close> gives the two-level
    tables their meaning, the walk \<open>lookup\<close> of the processor, with an invariant that mapping, unmapping, protection
    and copies keep; \<open>UserMemory\<close> treats the copies from and to user memory; \<open>PagingInit\<close> the map the kernel starts
    with, new address spaces, and the isolation of user pages over every sequence of operations.
  \<^item> \<open>Tasks\<close> (\<open>process/scheduler.c\<close>) and \<open>Ipc\<close> (\<open>kernel/ipc.c\<close>): the task table, selection without starvation, the
    shared message queue with first-in first-out delivery, purging and waking. \<open>Keyboard\<close> (\<open>drivers/keyboard.c\<close>): key
    tables, modifiers and the character buffer. Both queues interpret \<open>fifo_queue\<close>.
  \<^item> \<open>Journal\<close>, \<open>JournalLog\<close> (\<open>fs/journal.c\<close>): records, checksum, superblock, scan, replay and append. Decoding
    inverts encoding both ways; an append cut off at any write leaves the old log or the extended one. The interface
    \<open>sector_device\<close> states what the log needs of a disk and is interpreted on the in-memory disk of the host test.
  \<^item> \<open>Ramfs\<close> (\<open>fs/ramfs.c\<close>) refines a finite map from names to texts; \<open>Persistent\<close> (\<open>fs/persistent.c\<close>) joins it with the
    journal: after any operation and any cut a restart recovers the directory before or after the operation.
  \<^item> \<open>Fat\<close>, \<open>FatFiles\<close> (\<open>fs/fat.c\<close>) and \<open>Vfs\<close> (\<open>fs/vfs.c\<close>): a mounted volume lies inside its sectors without
    overlap; a file read returns exactly the bytes of the cluster chain all allocation tables agree on; the journal
    region is granted exactly outside the volume.
  \<^item> \<open>PciMsi\<close> (\<open>drivers/pci_msi.c\<close>), \<open>Pci\<close> (\<open>drivers/pci.c\<close>, \<open>drivers/pci_layout.c\<close>): enumeration, and message
    interrupts programmed and restored register by register. The interface \<open>config_space\<close> is interpreted on the
    host test's space and on the configuration ports.
  \<^item> \<open>BlockDevice\<close> (\<open>drivers/block_device.c\<close>), \<open>AtaDma\<close> (\<open>drivers/ata_dma.c\<close>, \<open>drivers/ata_irq_state.c\<close>), \<open>Ata\<close>
    (\<open>drivers/ata.c\<close>) and \<open>AtaTrace\<close>: bounds checks, descriptors, the driver, and the commands a drive decodes from
    the port writes of the driver, which never leave the permitted window.
  \<^item> \<open>Clock\<close> (\<open>drivers/rtc.c\<close>, \<open>drivers/rtc_time.c\<close>, \<open>drivers/hpet_time.c\<close>) and \<open>Acpi\<close> (\<open>drivers/acpi_tables.c\<close>):
    decoding of the real-time clock, the tick conversion, and the table parsers, whose results are those of the
    bytes they were given.

  \<^bold>\<open>Bounds and termination.\<close> Every loop of the source that polls a device has a constant limit (\<open>ATA_TIMEOUT\<close>,
  \<open>RTC_UIP_WAIT_LIMIT\<close> and so on); the model runs it exactly that often, so no fuel is invented. Walks over chains
  (capability lists, cluster chains, journal records) are bounded in the source by visited marks or counters and in
  the model by the same counters. The multiplication loop of the tick conversion has no counter: it is a partial
  function, and its theorem includes that it returns. The theorems on page tables are about the two-level format;
  the three-level format is modelled with the same interface. Ranges copied to user memory are shorter than
  \<open>2 ^ 32\<close> bytes, as their length is a 32-bit word in the source.

  \<^bold>\<open>Not modelled.\<close> Assembly and boot code; screen, serial port, shell, games and language texts, which only produce
  output; the interrupt tables and interrupt controllers, whose effect is the processor's; the AHCI and event timer
  drivers, the kernel heap, the program loader, user processes and system calls; the self tests inside the modules.
\<close>

end
